(* ===== verification/Prelude.thy ===== *)
theory Prelude
  imports
    Main
    "HOL-Library.Word"
    "HOL-Library.Char_ord"
    "HOL-Library.List_Lexorder"
begin

text \<open>
  Shared vocabulary of the development.

  The program is C++: an operation either finishes normally or runs into behaviour the language
  does not define (a dereferenced end iterator, a write past an array, a string without its
  terminator), into an exception, or into \<open>exit\<close>. All of these are values of
  \<open>cpp_error\<close>, and every operation that can meet one returns \<open>cpp_error + 'a\<close>.

  The theory also holds what the code uses of the C library: \<open>strncpy\<close>, C strings in
  fixed arrays, \<open>strtok\<close>, and the little-endian layout of \<open>short\<close> and
  \<open>int\<close> that the packet code reads and writes byte by byte.
\<close>

named_theorems cstring_simps \<open>facts on C strings and fixed arrays\<close>
named_theorems layout_simps \<open>facts on the byte layout of integers\<close>

section \<open>Errors and the error monad\<close>

datatype cpp_error =
    EndIterator      \<comment> \<open>\<open>find(k)->second\<close> where the key is absent\<close>
  | Unterminated     \<comment> \<open>a C string read from an array with no NUL\<close>
  | IndexOverflow    \<comment> \<open>an array written past its last element\<close>
  | BadCopy          \<comment> \<open>\<open>std::copy\<close> over a reversed or too long source range\<close>
  | HeapOverflow     \<comment> \<open>a read or write outside every allocated region\<close>
  | OutOfRange       \<comment> \<open>\<open>std::out_of_range\<close> thrown by \<open>std::string\<close>\<close>
  | BadFunction      \<comment> \<open>a call through an unset entry of a function table\<close>
  | EmptyQueue       \<comment> \<open>\<open>front()\<close> of an empty queue\<close>
  | Uninitialised    \<comment> \<open>a variable read that was never assigned\<close>
  | NullPointer      \<comment> \<open>a null \<open>FILE*\<close> handed to the C library\<close>
  | Blocked          \<comment> \<open>a blocking receive with nothing left to receive\<close>
  | Diverges         \<comment> \<open>a loop that does not end\<close>
  | ProcessExit      \<comment> \<open>\<open>exit(EXIT_SUCCESS)\<close>\<close>

fun sbind :: "cpp_error + 'a \<Rightarrow> ('a \<Rightarrow> cpp_error + 'b) \<Rightarrow> cpp_error + 'b" where
  "sbind (Inl e) f = Inl e"
| "sbind (Inr x) f = f x"

text \<open>Total correctness of a computation: it returns normally and the result satisfies \<open>P\<close>.\<close>

fun ok :: "cpp_error + 'a \<Rightarrow> ('a \<Rightarrow> bool) \<Rightarrow> bool" where
  "ok (Inl e) P = False"
| "ok (Inr x) P = P x"

text \<open>The same for code that may also end the process on purpose.\<close>

fun safe :: "cpp_error + 'a \<Rightarrow> ('a \<Rightarrow> bool) \<Rightarrow> bool" where
  "safe (Inl e) P = (e = ProcessExit)"
| "safe (Inr x) P = P x"

text \<open>Partial correctness: if it returns normally, the result satisfies \<open>P\<close>.\<close>

fun post :: "cpp_error + 'a \<Rightarrow> ('a \<Rightarrow> bool) \<Rightarrow> bool" where
  "post (Inl e) P = True"
| "post (Inr x) P = P x"

lemma post_sbind: "post (sbind m f) P = post m (\<lambda>x. post (f x) P)"
  by (cases m) auto

lemma postI: "(\<And>x. m = Inr x \<Longrightarrow> P x) \<Longrightarrow> post m P"
  by (cases m) auto

lemma post_if: "post a P \<Longrightarrow> post b P \<Longrightarrow> post (if c then a else b) P"
  by simp

lemma post_bindI: "(\<And>x. m = Inr x \<Longrightarrow> post (f x) P) \<Longrightarrow> post (sbind m f) P"
  by (cases m) auto

lemma post_mono: "post m P \<Longrightarrow> (\<And>x. P x \<Longrightarrow> Q x) \<Longrightarrow> post m Q"
  by (cases m) auto

lemma safe_post: "safe m P \<Longrightarrow> post m Q \<Longrightarrow> safe m (\<lambda>x. P x \<and> Q x)"
  by (cases m) auto

lemma ok_post: "ok m P \<Longrightarrow> post m Q \<Longrightarrow> ok m (\<lambda>x. P x \<and> Q x)"
  by (cases m) auto

lemma sbind_Inr_iff: "sbind m f = Inr y \<longleftrightarrow> (\<exists>x. m = Inr x \<and> f x = Inr y)"
  by (cases m) auto

lemma sbind_Inl_iff: "sbind m f = Inl e \<longleftrightarrow> m = Inl e \<or> (\<exists>x. m = Inr x \<and> f x = Inl e)"
  by (cases m) auto

lemma sbind_assoc: "sbind (sbind m f) g = sbind m (\<lambda>x. sbind (f x) g)"
  by (cases m) auto

lemma ok_sbind [simp]: "ok (sbind m f) P = ok m (\<lambda>x. ok (f x) P)"
  by (cases m) auto

lemma safe_sbind [simp]: "safe (sbind m f) P = safe m (\<lambda>x. safe (f x) P)"
  by (cases m) auto

lemma ok_iff: "ok m P \<longleftrightarrow> (\<exists>x. m = Inr x \<and> P x)"
  by (cases m) auto

lemma ok_mono: "ok m P \<Longrightarrow> (\<And>x. P x \<Longrightarrow> Q x) \<Longrightarrow> ok m Q"
  by (cases m) auto

lemma ok_safe: "ok m P \<Longrightarrow> safe m P"
  by (cases m) auto

lemma safe_mono: "safe m P \<Longrightarrow> (\<And>x. P x \<Longrightarrow> Q x) \<Longrightarrow> safe m Q"
  by (cases m) auto

lemma ok_conjI: "ok m P \<Longrightarrow> ok m Q \<Longrightarrow> ok m (\<lambda>x. P x \<and> Q x)"
  by (cases m) auto

lemma ok_result: "ok m P \<Longrightarrow> m = Inr x \<Longrightarrow> P x"
  by simp

section \<open>C strings\<close>

abbreviation NUL :: char where "NUL \<equiv> CHR 0x00"

type_synonym carray = "char list"

text \<open>
  \<open>strncpy(dst, src, n)\<close> into an array of exactly \<open>n\<close> bytes: the first \<open>n\<close> characters, padded with
  NULs. No terminator is written when \<open>src\<close> has \<open>n\<close> characters or more.
\<close>

definition strncpy :: "nat \<Rightarrow> string \<Rightarrow> carray" where
  "strncpy n s = take n s @ replicate (n - length s) NUL"

text \<open>The same into the front of a larger array, whose remaining bytes are kept.\<close>

definition strncpy_into :: "nat \<Rightarrow> string \<Rightarrow> carray \<Rightarrow> carray" where
  "strncpy_into n s dst = strncpy n s @ drop n dst"

text \<open>What a bounded copy sees of an array: the bytes before the first NUL, if there is one.\<close>

definition upto_nul :: "carray \<Rightarrow> string" where
  "upto_nul b = takeWhile (\<lambda>c. c \<noteq> NUL) b"

text \<open>A \<open>const char*\<close> read to its end: without a NUL the read leaves the array.\<close>

definition cstr :: "carray \<Rightarrow> cpp_error + string" where
  "cstr b = (if NUL \<in> set b then Inr (upto_nul b) else Inl Unterminated)"

text \<open>A \<open>std::string\<close> made from a C string holds no NUL.\<close>

definition nul_free :: "string \<Rightarrow> bool" where
  "nul_free s \<longleftrightarrow> NUL \<notin> set s"

lemma length_strncpy [cstring_simps, simp]: "length (strncpy n s) = n"
  by (simp add: strncpy_def)

lemma upto_nul_append [cstring_simps]: "nul_free s \<Longrightarrow> upto_nul (s @ NUL # t) = s"
  by (induction s) (auto simp: upto_nul_def nul_free_def)

lemma upto_nul_id: "nul_free s \<Longrightarrow> upto_nul s = s"
  by (auto simp: upto_nul_def nul_free_def)

lemma nul_free_upto_nul [simp]: "nul_free (upto_nul b)"
  by (auto simp: upto_nul_def nul_free_def dest: set_takeWhileD)

lemma nul_free_take [intro]: "nul_free s \<Longrightarrow> nul_free (take n s)"
  by (auto simp: nul_free_def dest: in_set_takeD)

lemma nul_free_Nil [simp]: "nul_free []"
  by (simp add: nul_free_def)

lemma nul_free_append [simp]: "nul_free (s @ t) \<longleftrightarrow> nul_free s \<and> nul_free t"
  by (auto simp: nul_free_def)

lemma length_upto_nul_le: "length (upto_nul b) \<le> length b"
  by (simp add: upto_nul_def length_takeWhile_le)

lemma length_upto_nul_less: "NUL \<in> set b \<Longrightarrow> length (upto_nul b) < length b"
proof (induction b)
  case (Cons c b)
  then show ?case by (cases "c = NUL") (auto simp: upto_nul_def)
qed simp

lemma strncpy_short: "length s < n \<Longrightarrow> \<exists>k. strncpy n s = s @ NUL # replicate k NUL"
  by (rule exI [of _ "n - length s - 1"])
     (simp add: strncpy_def flip: replicate_Suc)

text \<open>A string shorter than the array survives the trip through it; a longer one is unreadable.\<close>

lemma cstr_strncpy [cstring_simps]:
  assumes "nul_free s" and "length s < n"
  shows "cstr (strncpy n s) = Inr s"
proof -
  obtain k where "strncpy n s = s @ NUL # replicate k NUL"
    using strncpy_short [OF assms(2)] by blast
  with assms(1) show ?thesis by (simp add: cstr_def upto_nul_append)
qed

lemma cstr_strncpy_long [cstring_simps]:
  assumes "nul_free s" and "n \<le> length s"
  shows "cstr (strncpy n s) = Inl Unterminated"
proof -
  have "NUL \<notin> set (take n s)" using assms(1) by (auto simp: nul_free_def dest: in_set_takeD)
  with assms(2) show ?thesis by (simp add: cstr_def strncpy_def)
qed

lemma cstr_Inr_iff: "cstr b = Inr s \<longleftrightarrow> NUL \<in> set b \<and> s = upto_nul b"
  by (auto simp: cstr_def)

lemma ok_cstr [simp]: "ok (cstr b) P \<longleftrightarrow> NUL \<in> set b \<and> P (upto_nul b)"
  by (simp add: cstr_def)

lemma NUL_in_strncpy: "length s < n \<Longrightarrow> NUL \<in> set (strncpy n s)"
  by (auto simp: strncpy_def)

lemma upto_nul_strncpy: "nul_free s \<Longrightarrow> upto_nul (strncpy n s) = take n s"
proof (cases "length s < n")
  case True
  assume "nul_free s"
  then have "cstr (strncpy n s) = Inr s" using True by (rule cstr_strncpy)
  with True show ?thesis by (simp add: cstr_Inr_iff)
next
  case False
  assume "nul_free s"
  then have "nul_free (take n s)" by blast
  with False show ?thesis by (simp add: strncpy_def upto_nul_id)
qed

section \<open>Searching\<close>

text \<open>\<open>s.find(pat) != -1\<close>: some position of \<open>s\<close> begins with \<open>pat\<close>.\<close>

fun contains :: "string \<Rightarrow> string \<Rightarrow> bool" where
  "contains pat [] \<longleftrightarrow> pat = []"
| "contains pat (c # cs) \<longleftrightarrow> take (length pat) (c # cs) = pat \<or> contains pat cs"

section \<open>\<open>strtok\<close>\<close>

text \<open>One call: skip delimiters, take up to the next delimiter, step over it.\<close>

definition strtok_next :: "char \<Rightarrow> string \<Rightarrow> (string \<times> string) option" where
  "strtok_next d s =
     (case dropWhile (\<lambda>c. c = d) s of
        [] \<Rightarrow> None
      | t \<Rightarrow> Some (takeWhile (\<lambda>c. c \<noteq> d) t, drop 1 (dropWhile (\<lambda>c. c \<noteq> d) t)))"

lemma strtok_next_decreases:
  assumes "strtok_next d s = Some (t, r)"
  shows "length r < length s"
proof -
  let ?s' = "dropWhile (\<lambda>c. c = d) s"
  from assms obtain c u where s': "?s' = c # u"
    by (auto simp: strtok_next_def split: list.splits)
  with assms have r: "r = drop 1 (dropWhile (\<lambda>c. c \<noteq> d) ?s')"
    by (simp add: strtok_next_def)
  have "length (dropWhile (\<lambda>c. c \<noteq> d) ?s') \<le> length ?s'"
    by (rule length_dropWhile_le)
  moreover have "length ?s' \<le> length s" by (rule length_dropWhile_le)
  moreover have "0 < length ?s'" using s' by simp
  ultimately show ?thesis using r s' by simp
qed

text \<open>
  The loop \<open>while (ptr != nullptr) { sArr[i] = ptr; i++; ptr = strtok(nullptr, d); }\<close> on an array of
  \<open>n\<close> pointers, starting at index \<open>i\<close>: the pointers stored, or the write past the array.
\<close>

function strtok_loop :: "char \<Rightarrow> nat \<Rightarrow> nat \<Rightarrow> string \<Rightarrow> cpp_error + string list" where
  "strtok_loop d n i s =
     (case strtok_next d s of
        None \<Rightarrow> Inr []
      | Some (t, r) \<Rightarrow>
          (if i < n then sbind (strtok_loop d n (Suc i) r) (\<lambda>ts. Inr (t # ts))
           else Inl IndexOverflow))"
  by pat_completeness auto
termination
  by (relation "measure (\<lambda>(d, n, i, s). length s)") (auto dest: strtok_next_decreases)

declare strtok_loop.simps [simp del]

text \<open>Reference: the pieces between delimiters, empty pieces dropped.\<close>

fun split_on :: "char \<Rightarrow> string \<Rightarrow> string list" where
  "split_on d [] = [[]]"
| "split_on d (c # cs) =
     (if c = d then [] # split_on d cs
      else (case split_on d cs of [] \<Rightarrow> [[c]] | p # ps \<Rightarrow> (c # p) # ps))"

definition pieces :: "char \<Rightarrow> string \<Rightarrow> string list" where
  "pieces d s = filter (\<lambda>p. p \<noteq> []) (split_on d s)"

lemma split_on_free: "d \<notin> set a \<Longrightarrow> split_on d a = [a]"
  by (induction a) auto

lemma split_on_sep: "d \<notin> set a \<Longrightarrow> split_on d (a @ d # s) = a # split_on d s"
  by (induction a) auto

lemma split_on_not_Nil: "split_on d s \<noteq> []"
  by (induction s) (auto split: list.splits)

lemma split_on_takeWhile:
  "split_on d s = takeWhile (\<lambda>c. c \<noteq> d) s #
     (case dropWhile (\<lambda>c. c \<noteq> d) s of [] \<Rightarrow> [] | _ # r \<Rightarrow> split_on d r)"
  by (induction s) (auto split: list.splits)

lemma pieces_dropWhile: "pieces d (dropWhile (\<lambda>c. c = d) s) = pieces d s"
  by (induction s) (auto simp: pieces_def)

lemma pieces_strtok_next:
  "pieces d s = (case strtok_next d s of None \<Rightarrow> [] | Some (t, r) \<Rightarrow> t # pieces d r)"
proof (cases "dropWhile (\<lambda>c. c = d) s")
  case Nil
  then have "pieces d s = pieces d []" using pieces_dropWhile [of d s] by metis
  with Nil show ?thesis by (simp only: strtok_next_def list.case option.case) (simp add: pieces_def)
next
  case (Cons c u)
  have c: "c \<noteq> d" using hd_dropWhile [of "\<lambda>c. c = d" s] Cons by force
  let ?t = "takeWhile (\<lambda>c. c \<noteq> d) (c # u)" and ?r = "dropWhile (\<lambda>c. c \<noteq> d) (c # u)"
  have t: "?t \<noteq> []" using c by simp
  have "pieces d s = pieces d (c # u)" using pieces_dropWhile [of d s] Cons by metis
  also have "\<dots> = filter (\<lambda>p. p \<noteq> []) (?t # (case ?r of [] \<Rightarrow> [] | _ # r \<Rightarrow> split_on d r))"
    unfolding pieces_def by (subst split_on_takeWhile) (rule refl)
  also have "\<dots> = ?t # pieces d (drop 1 ?r)"
    using t by (cases ?r) (simp_all add: pieces_def)
  finally show ?thesis using Cons by (simp only: strtok_next_def list.case option.case prod.case)
qed

lemma strtok_loop_pieces:
  "strtok_loop d n i s =
     (if i + length (pieces d s) \<le> n \<or> pieces d s = [] then Inr (pieces d s) else Inl IndexOverflow)"
proof (induction d n i s rule: strtok_loop.induct)
  case (1 d n i s)
  show ?case
  proof (cases "strtok_next d s")
    case None
    then show ?thesis by (subst strtok_loop.simps) (simp add: pieces_strtok_next [of d s])
  next
    case (Some p)
    obtain t r where p: "p = (t, r)" by (cases p)
    have f: "pieces d s = t # pieces d r"
      using Some p by (simp add: pieces_strtok_next [of d s])
    show ?thesis
      using "1.IH" [OF Some p [symmetric]] Some p f
      by (subst strtok_loop.simps) (cases "i < n"; auto)
  qed
qed

lemma pieces_nonempty: "p \<in> set (pieces d s) \<Longrightarrow> p \<noteq> []"
  by (auto simp: pieces_def)

lemma split_on_chars: "p \<in> set (split_on d s) \<Longrightarrow> set p \<subseteq> set s"
  by (induction s arbitrary: p) (fastforce split: if_splits list.splits)+

lemma pieces_nul_free: "nul_free s \<Longrightarrow> p \<in> set (pieces d s) \<Longrightarrow> nul_free p"
  using split_on_chars by (fastforce simp: pieces_def nul_free_def)

section \<open>Byte layout of integers\<close>

text \<open>x86 stores integers least significant byte first.\<close>

fun le_bytes :: "nat \<Rightarrow> nat \<Rightarrow> char list" where
  "le_bytes 0 v = []"
| "le_bytes (Suc n) v = char_of (v mod 256) # le_bytes n (v div 256)"

fun le_nat :: "char list \<Rightarrow> nat" where
  "le_nat [] = 0"
| "le_nat (c # cs) = of_char c + 256 * le_nat cs"

lemma length_le_bytes [layout_simps, simp]: "length (le_bytes n v) = n"
  by (induction n arbitrary: v) auto

lemma le_nat_le_bytes [layout_simps]: "le_nat (le_bytes n v) = v mod 256 ^ n"
proof (induction n arbitrary: v)
  case (Suc n)
  have "v mod 256 ^ Suc n = v mod 256 + 256 * (v div 256 mod 256 ^ n)"
    by (simp add: mod_mult2_eq)
  with Suc show ?case by simp
qed simp

text \<open>\<open>short\<close> and \<open>int\<close> as two's complement integers of 16 and 32 bits.\<close>

definition short_of :: "int \<Rightarrow> int" where
  "short_of i = sint (word_of_int i :: 16 word)"

definition int32_of :: "int \<Rightarrow> int" where
  "int32_of i = sint (word_of_int i :: 32 word)"

lemma short_of_id [layout_simps]: "-32768 \<le> i \<Longrightarrow> i < 32768 \<Longrightarrow> short_of i = i"
  unfolding short_of_def by (simp add: signed_take_bit_int_eq_self sint_sbintrunc')

lemma int32_of_id [layout_simps]: "-2147483648 \<le> i \<Longrightarrow> i < 2147483648 \<Longrightarrow> int32_of i = i"
  unfolding int32_of_def by (simp add: signed_take_bit_int_eq_self sint_sbintrunc')

lemma short_of_mod [layout_simps]: "short_of (i mod 65536) = short_of i"
  unfolding short_of_def
  by (rule arg_cong [where f = sint]) (simp add: word_of_int_eq_iff take_bit_eq_mod)

lemma int32_of_mod [layout_simps]: "int32_of (i mod 4294967296) = int32_of i"
  unfolding int32_of_def
  by (rule arg_cong [where f = sint]) (simp add: word_of_int_eq_iff take_bit_eq_mod)

text \<open>The object representation of a \<open>short\<close> and of an \<open>int\<close>, and reading it back.\<close>

definition bytes_of_short :: "int \<Rightarrow> char list" where
  "bytes_of_short i = le_bytes 2 (nat (i mod 65536))"

definition short_of_bytes :: "char list \<Rightarrow> int" where
  "short_of_bytes bs = short_of (int (le_nat bs))"

definition bytes_of_int :: "int \<Rightarrow> char list" where
  "bytes_of_int i = le_bytes 4 (nat (i mod 4294967296))"

definition int_of_bytes :: "char list \<Rightarrow> int" where
  "int_of_bytes bs = int32_of (int (le_nat bs))"

lemma length_bytes_of_short [layout_simps, simp]: "length (bytes_of_short i) = 2"
  by (simp add: bytes_of_short_def)

lemma length_bytes_of_int [layout_simps, simp]: "length (bytes_of_int i) = 4"
  by (simp add: bytes_of_int_def)

lemma short_of_bytes_inverse [layout_simps]: "short_of_bytes (bytes_of_short i) = short_of i"
proof -
  have "int (nat (i mod 65536) mod 256 ^ 2) = i mod 65536" by (simp add: zmod_int)
  then show ?thesis by (simp only: short_of_bytes_def bytes_of_short_def le_nat_le_bytes short_of_mod)
qed

lemma int_of_bytes_inverse [layout_simps]: "int_of_bytes (bytes_of_int i) = int32_of i"
proof -
  have "int (nat (i mod 4294967296) mod 256 ^ 4) = i mod 4294967296" by (simp add: zmod_int)
  then show ?thesis by (simp only: int_of_bytes_def bytes_of_int_def le_nat_le_bytes int32_of_mod)
qed

section \<open>Slices of arrays\<close>

text \<open>
  The source range of \<open>std::copy(b + i, b + j, \<dots>)\<close> in an array \<open>b\<close>: the range must be ordered and
  inside the array.
\<close>

definition slice :: "'a list \<Rightarrow> int \<Rightarrow> int \<Rightarrow> cpp_error + 'a list" where
  "slice b i j =
     (if 0 \<le> i \<and> i \<le> j \<and> j \<le> int (length b) then Inr (take (nat (j - i)) (drop (nat i) b))
      else Inl BadCopy)"

text \<open>Overwriting the bytes of an array from an offset on, inside the array.\<close>

definition overwrite :: "'a list \<Rightarrow> nat \<Rightarrow> 'a list \<Rightarrow> 'a list" where
  "overwrite b i xs = take i b @ xs @ drop (i + length xs) b"

lemma length_overwrite [simp]:
  "i + length xs \<le> length b \<Longrightarrow> length (overwrite b i xs) = length b"
  by (simp add: overwrite_def)

lemma slice_prefix: "slice (xs @ ys) 0 (int (length xs)) = Inr xs"
  by (simp add: slice_def)

lemma ok_slice [simp]:
  "ok (slice b i j) P \<longleftrightarrow>
     0 \<le> i \<and> i \<le> j \<and> j \<le> int (length b) \<and> P (take (nat (j - i)) (drop (nat i) b))"
  by (auto simp: slice_def)

end
