(* ===== verification/Containers.thy ===== *)
theory Containers
  imports Prelude "HOL-Library.Multiset"
begin

text \<open>
  What the server uses of the C++ containers.

  \<^item> \<open>std::unordered_map\<close> (\<open>userMap\<close>) is an association list in iteration order. The
    standard does not fix that order and an insertion may rehash, so the order after an insertion is
    a parameter \<open>ord\<close>.
  \<^item> \<open>std::map\<close> (\<open>roomMap\<close>, \<open>liveSocket\<close>) is an association list sorted by key.
  \<^item> \<open>ConcurrentQueue\<close> (\<open>src/Chat/Server/ConcurrentQueue.h\<close>) is a list, oldest first.

  The contract a client relies on is the locale \<open>cpp_map\<close> (\<open>fifo\<close> for the queue); both maps are
  interpretations of it, so the facts used by the session code are proved once.
\<close>

named_theorems map_simps \<open>lookups after updates of the container models\<close>

section \<open>The map contract\<close>

locale cpp_map =
  fixes find :: "'m \<Rightarrow> 'k \<Rightarrow> 'v option"
    and put :: "'k \<Rightarrow> 'v \<Rightarrow> 'm \<Rightarrow> 'm"
    and modify :: "'k \<Rightarrow> ('v \<Rightarrow> 'v) \<Rightarrow> 'm \<Rightarrow> 'm"
    and erase :: "'k \<Rightarrow> 'm \<Rightarrow> 'm"
    and entries :: "'m \<Rightarrow> ('k \<times> 'v) list"
    and wf :: "'m \<Rightarrow> bool"
  assumes find_put: "wf m \<Longrightarrow> find (put k v m) = (find m)(k \<mapsto> v)"
    and find_modify: "wf m \<Longrightarrow> find (modify k f m) = (find m)(k := map_option f (find m k))"
    and find_erase: "wf m \<Longrightarrow> find (erase k m) = (find m)(k := None)"
    and find_entries: "wf m \<Longrightarrow> map_of (entries m) = find m"
    and distinct_entries: "wf m \<Longrightarrow> distinct (map fst (entries m))"
    and wf_put: "wf m \<Longrightarrow> wf (put k v m)"
    and wf_modify: "wf m \<Longrightarrow> wf (modify k f m)"
    and wf_erase: "wf m \<Longrightarrow> wf (erase k m)"
begin

lemma dom_find: "wf m \<Longrightarrow> dom (find m) = fst ` set (entries m)"
  by (simp add: dom_map_of_conv_image_fst flip: find_entries)

lemma finite_dom: "wf m \<Longrightarrow> finite (dom (find m))"
  by (simp add: dom_find)

lemma size_entries: "wf m \<Longrightarrow> length (entries m) = card (dom (find m))"
  using distinct_card [OF distinct_entries] by (simp add: dom_find)

lemma entry_iff: "wf m \<Longrightarrow> (k, v) \<in> set (entries m) \<longleftrightarrow> find m k = Some v"
  using distinct_entries [of m] by (simp flip: find_entries)

lemma size_put_new: "wf m \<Longrightarrow> find m k = None \<Longrightarrow>
    length (entries (put k v m)) = Suc (length (entries m))"
proof -
  assume wf: "wf m" and k: "find m k = None"
  have "dom (find (put k v m)) = insert k (dom (find m))" by (simp add: wf find_put)
  then have "card (dom (find (put k v m))) = card (insert k (dom (find m)))" by (rule arg_cong)
  also have "\<dots> = Suc (card (dom (find m)))"
    using k by (intro card_insert_disjoint finite_dom wf) auto
  finally show ?thesis by (simp only: size_entries [OF wf] size_entries [OF wf_put [OF wf]])
qed

lemma size_erase: "wf m \<Longrightarrow> find m k \<noteq> None \<Longrightarrow>
    Suc (length (entries (erase k m))) = length (entries m)"
proof -
  assume wf: "wf m" and k: "find m k \<noteq> None"
  have "dom (find (erase k m)) = dom (find m) - {k}" by (simp add: wf find_erase)
  then have "card (dom (find (erase k m))) = card (dom (find m) - {k})" by (rule arg_cong)
  moreover have "Suc (card (dom (find m) - {k})) = card (dom (find m))"
    using k by (intro card_Suc_Diff1 finite_dom wf) auto
  ultimately show ?thesis by (simp only: size_entries [OF wf] size_entries [OF wf_erase [OF wf]])
qed

lemma size_zero_iff: "wf m \<Longrightarrow> length (entries m) = 0 \<longleftrightarrow> find m = Map.empty"
  by (simp add: size_entries finite_dom)

lemma erase_put: "wf m \<Longrightarrow> find m k = None \<Longrightarrow> find (erase k (put k v m)) = find m"
  by (simp add: find_erase wf_put find_put fun_upd_idem)

lemma modify_modify: "wf m \<Longrightarrow> find (modify k f (modify k g m)) = find (modify k (f \<circ> g) m)"
  by (simp add: find_modify wf_modify option.map_comp)

end

section \<open>Association lists\<close>

definition am_modify :: "'k \<Rightarrow> ('v \<Rightarrow> 'v) \<Rightarrow> ('k \<times> 'v) list \<Rightarrow> ('k \<times> 'v) list" where
  "am_modify k f m = map (\<lambda>(k', v). (k', if k' = k then f v else v)) m"

definition am_erase :: "'k \<Rightarrow> ('k \<times> 'v) list \<Rightarrow> ('k \<times> 'v) list" where
  "am_erase k m = filter (\<lambda>(k', v). k' \<noteq> k) m"

text \<open>\<open>find(k)->second\<close>, undefined at the end iterator.\<close>

definition am_at :: "('k \<times> 'v) list \<Rightarrow> 'k \<Rightarrow> cpp_error + 'v" where
  "am_at m k = (case map_of m k of None \<Rightarrow> Inl EndIterator | Some v \<Rightarrow> Inr v)"

lemma fst_am_modify [map_simps]: "map fst (am_modify k f m) = map fst m"
  by (simp add: am_modify_def case_prod_beta)

lemma map_of_am_modify [map_simps]:
  "map_of (am_modify k f m) = (map_of m)(k := map_option f (map_of m k))"
  by (induction m) (auto simp: am_modify_def fun_eq_iff)

lemma map_of_am_erase [map_simps]: "map_of (am_erase k m) = (map_of m)(k := None)"
  by (induction m) (auto simp: am_erase_def fun_eq_iff)

lemma fst_am_erase: "map fst (am_erase k m) = filter (\<lambda>k'. k' \<noteq> k) (map fst m)"
  by (induction m) (auto simp: am_erase_def)

lemma ok_am_at [simp]: "ok (am_at m k) P \<longleftrightarrow> (\<exists>v. map_of m k = Some v \<and> P v)"
  by (simp add: am_at_def split: option.splits)

lemma am_at_Some [simp]: "map_of m k = Some v \<Longrightarrow> am_at m k = Inr v"
  by (simp add: am_at_def)

lemma am_at_None [simp]: "map_of m k = None \<Longrightarrow> am_at m k = Inl EndIterator"
  by (simp add: am_at_def)

section \<open>\<open>std::unordered_map\<close>\<close>

text \<open>Any rearrangement of the elements is a possible iteration order, nothing else is.\<close>

definition reorder :: "('a list \<Rightarrow> 'a list) \<Rightarrow> 'a list \<Rightarrow> 'a list" where
  "reorder ord xs = (if mset (ord xs) = mset xs then ord xs else xs)"

lemma mset_reorder [simp]: "mset (reorder ord xs) = mset xs"
  by (simp add: reorder_def)

lemma set_reorder [simp]: "set (reorder ord xs) = set xs"
  by (rule mset_eq_setD) simp

definition um_wf :: "('k \<times> 'v) list \<Rightarrow> bool" where
  "um_wf m \<longleftrightarrow> distinct (map fst m)"

definition um_put ::
    "(('k \<times> 'v) list \<Rightarrow> ('k \<times> 'v) list) \<Rightarrow> 'k \<Rightarrow> 'v \<Rightarrow> ('k \<times> 'v) list \<Rightarrow> ('k \<times> 'v) list" where
  "um_put ord k v m =
     (case map_of m k of
        Some _ \<Rightarrow> am_modify k (\<lambda>_. v) m
      | None \<Rightarrow> reorder ord ((k, v) # m))"

lemma distinct_fst_reorder: "distinct (map fst (reorder ord m)) \<longleftrightarrow> distinct (map fst m)"
proof -
  have "mset (map fst (reorder ord m)) = mset (map fst m)" by (simp add: mset_map)
  then show ?thesis by (rule mset_eq_imp_distinct_iff)
qed

lemma map_of_reorder: "um_wf m \<Longrightarrow> map_of (reorder ord m) = map_of m"
  unfolding um_wf_def
  by (rule map_of_eqI) (auto simp: distinct_fst_reorder map_of_eq_Some_iff dest: map_of_SomeD
      intro!: map_of_is_SomeI simp: fun_eq_iff)

lemma um_wf_reorder: "um_wf (reorder ord m) \<longleftrightarrow> um_wf m"
  by (simp add: um_wf_def distinct_fst_reorder)

lemma um_wf_Cons: "um_wf m \<Longrightarrow> map_of m k = None \<Longrightarrow> um_wf ((k, v) # m)"
  by (simp add: um_wf_def map_of_eq_None_iff)

lemma map_of_um_put: "um_wf m \<Longrightarrow> map_of (um_put ord k v m) = (map_of m)(k \<mapsto> v)"
  by (auto simp: um_put_def map_of_am_modify map_of_reorder um_wf_Cons split: option.splits)

lemma um_wf_put: "um_wf m \<Longrightarrow> um_wf (um_put ord k v m)"
  by (auto simp: um_put_def um_wf_reorder um_wf_Cons split: option.splits)
     (simp add: um_wf_def fst_am_modify)

lemma um_wf_modify: "um_wf m \<Longrightarrow> um_wf (am_modify k f m)"
  by (simp add: um_wf_def fst_am_modify)

lemma um_wf_erase: "um_wf m \<Longrightarrow> um_wf (am_erase k m)"
  by (simp add: um_wf_def fst_am_erase)

lemma um_wf_distinct: "um_wf m \<Longrightarrow> distinct (map fst m)"
  by (simp add: um_wf_def)

interpretation um: cpp_map map_of "um_put ord" am_modify am_erase "\<lambda>m. m" um_wf
  by unfold_locales
     (simp_all add: map_of_um_put um_wf_put map_simps um_wf_modify um_wf_erase um_wf_distinct)

section \<open>\<open>std::map\<close>\<close>

definition sm_wf :: "('k::linorder \<times> 'v) list \<Rightarrow> bool" where
  "sm_wf m \<longleftrightarrow> sorted (map fst m) \<and> distinct (map fst m)"

fun sm_put :: "'k::linorder \<Rightarrow> 'v \<Rightarrow> ('k \<times> 'v) list \<Rightarrow> ('k \<times> 'v) list" where
  "sm_put k v [] = [(k, v)]"
| "sm_put k v (e # m) =
     (if fst e = k then (k, v) # m
      else if k < fst e then (k, v) # e # m
      else e # sm_put k v m)"

text \<open>\<open>insert(pair)\<close> keeps an existing element.\<close>

definition sm_insert :: "'k::linorder \<Rightarrow> 'v \<Rightarrow> ('k \<times> 'v) list \<Rightarrow> ('k \<times> 'v) list" where
  "sm_insert k v m = (case map_of m k of None \<Rightarrow> sm_put k v m | Some _ \<Rightarrow> m)"

lemma map_of_sm_put: "map_of (sm_put k v m) = (map_of m)(k \<mapsto> v)"
  by (induction m) auto

lemma fst_set_sm_put: "fst ` set (sm_put k v m) = insert k (fst ` set m)"
  by (induction m) auto

lemma sm_wf_put: "sm_wf m \<Longrightarrow> sm_wf (sm_put k v m)"
  unfolding sm_wf_def
proof (induction m)
  case (Cons e m)
  then show ?case
    using fst_set_sm_put [of k v m] by (cases "k \<le> fst e") (force simp: image_iff)+
qed simp

lemma sm_wf_erase: "sm_wf m \<Longrightarrow> sm_wf (am_erase k m)"
  by (simp add: sm_wf_def fst_am_erase sorted_filter [where f = "\<lambda>x. x", simplified])

lemma sm_wf_modify: "sm_wf m \<Longrightarrow> sm_wf (am_modify k f m)"
  by (simp add: sm_wf_def fst_am_modify)

lemma sm_wf_distinct: "sm_wf m \<Longrightarrow> distinct (map fst m)"
  by (simp add: sm_wf_def)

interpretation sm: cpp_map map_of sm_put am_modify am_erase "\<lambda>m. m" sm_wf
  by unfold_locales
     (simp_all add: map_of_sm_put sm_wf_put sm_wf_erase sm_wf_modify map_simps sm_wf_distinct)

lemma sm_wf_insert: "sm_wf m \<Longrightarrow> sm_wf (sm_insert k v m)"
  by (auto simp: sm_insert_def sm_wf_put split: option.splits)

lemma map_of_sm_insert: "map_of (sm_insert k v m) k' =
    (if k' = k \<and> map_of m k = None then Some v else map_of m k')"
  by (auto simp: sm_insert_def map_of_sm_put split: option.splits)

section \<open>The queue contract\<close>

locale fifo =
  fixes push :: "'a \<Rightarrow> 'q \<Rightarrow> 'q"
    and take_front :: "'q \<Rightarrow> cpp_error + 'a \<times> 'q"
    and is_empty :: "'q \<Rightarrow> bool"
    and contents :: "'q \<Rightarrow> 'a list"
  assumes contents_push: "contents (push x q) = contents q @ [x]"
    and take_front_Nil: "contents q = [] \<Longrightarrow> take_front q = Inl EmptyQueue"
    and take_front_Cons: "contents q = x # xs \<Longrightarrow>
          \<exists>q'. take_front q = Inr (x, q') \<and> contents q' = xs"
    and is_empty_contents: "is_empty q \<longleftrightarrow> contents q = []"
begin

lemma contents_push_all: "contents (fold push xs q) = contents q @ xs"
  by (induction xs arbitrary: q) (auto simp: contents_push)

lemma take_front_ok: "ok (take_front q) (\<lambda>(x, q'). contents q = x # contents q') \<longleftrightarrow> \<not> is_empty q"
proof (cases "contents q")
  case Nil
  then show ?thesis by (simp add: take_front_Nil is_empty_contents)
next
  case (Cons x xs)
  then show ?thesis using take_front_Cons [OF Cons] by (auto simp: is_empty_contents)
qed

text \<open>First in, first out: what was pushed onto an empty queue comes out first.\<close>

lemma first_out:
  assumes "is_empty q"
  shows "\<exists>q'. take_front (fold push (x # xs) q) = Inr (x, q') \<and> contents q' = xs"
proof -
  have "contents (fold push (x # xs) q) = x # xs"
    using assms contents_push_all [of "x # xs" q] by (simp add: is_empty_contents)
  then show ?thesis by (rule take_front_Cons)
qed

end

section \<open>\<open>ConcurrentQueue\<close>\<close>

text \<open>
  Each operation holds the queue's mutex, so it is one step. \<open>top\<close> copies the front, removes it
  and returns a reference to the copy, a local variable; the model returns the value. On an empty
  queue \<open>front()\<close> is undefined.
\<close>

definition ConcurrentQueue_push :: "'a \<Rightarrow> 'a list \<Rightarrow> 'a list" where
  "ConcurrentQueue_push t q = q @ [t]"

definition ConcurrentQueue_top :: "'a list \<Rightarrow> cpp_error + 'a \<times> 'a list" where
  "ConcurrentQueue_top q = (case q of [] \<Rightarrow> Inl EmptyQueue | t # q' \<Rightarrow> Inr (t, q'))"

definition ConcurrentQueue_empty :: "'a list \<Rightarrow> bool" where
  "ConcurrentQueue_empty q \<longleftrightarrow> q = []"

text \<open>\<open>int size()\<close>: the \<open>size_t\<close> of the underlying queue, converted to \<open>int\<close>.\<close>

definition ConcurrentQueue_size :: "'a list \<Rightarrow> int" where
  "ConcurrentQueue_size q = int32_of (int (length q))"

interpretation cq: fifo ConcurrentQueue_push ConcurrentQueue_top ConcurrentQueue_empty "\<lambda>q. q"
  by unfold_locales
     (simp_all add: ConcurrentQueue_push_def ConcurrentQueue_top_def ConcurrentQueue_empty_def)

end
