(* ===== verification/Common.thy ===== *)
theory Common
  imports Containers
begin

text \<open>
  \<open>src/Chat/Server/common.h\<close>: the sizes, the enumerations, the message texts and the structures every
  part of the server shares, and the texts that \<open>BusinessService.cpp\<close> and \<open>Server.cpp\<close> write inline.

  The enumerations travel over the wire as four bytes, so the functions from and to \<open>int\<close> are part of
  the model; a received \<open>Direction\<close> can be any 32-bit value. The texts are Korean; the model holds
  the bytes of the execution character set (code page 949), because sizes count bytes.
\<close>

section \<open>Sizes\<close>

definition BUF_SIZE :: nat where "BUF_SIZE = 4096"
definition NAME_SIZE :: nat where "NAME_SIZE = 20"
definition FILE_BUF_SIZE :: nat where "FILE_BUF_SIZE = 32768"

lemmas size_defs = BUF_SIZE_def NAME_SIZE_def FILE_BUF_SIZE_def

text \<open>A \<open>SOCKET\<close> is an unsigned handle.\<close>

type_synonym SOCKET = nat

section \<open>Enumerations\<close>

datatype ClientStatus =
    STATUS_INIT
  | STATUS_LOGOUT
  | STATUS_WAITING
  | STATUS_CHATTIG
  | STATUS_WHISPER
  | STATUS_FILE_SEND
  | STATUS_MAX

fun status_int :: "ClientStatus \<Rightarrow> int" where
  "status_int STATUS_INIT = 0"
| "status_int STATUS_LOGOUT = 1"
| "status_int STATUS_WAITING = 2"
| "status_int STATUS_CHATTIG = 3"
| "status_int STATUS_WHISPER = 4"
| "status_int STATUS_FILE_SEND = 5"
| "status_int STATUS_MAX = 6"

datatype Direction =
    USER_MAKE
  | USER_ENTER
  | ROOM_MAKE
  | ROOM_ENTER
  | ROOM_OUT
  | WHISPER
  | ROOM_INFO
  | ROOM_USER_INFO
  | FRIEND_INFO
  | FRIEND_ADD
  | FRIEND_GO
  | FRIEND_DELETE
  | LOG_OUT
  | FILE_SEND
  | USER_GOOD
  | USER_GOOD_INFO
  | DIRECTION_MAX
  | CALLCOUNT
  | BAN
  | EXIT
  | Direction_value int  \<comment> \<open>any other value of the four bytes\<close>

text \<open>The named values of \<open>enum Direction\<close>, in order of their number.\<close>

definition direction_table :: "(int \<times> Direction) list" where
  "direction_table =
     [(1, USER_MAKE), (2, USER_ENTER), (3, ROOM_MAKE), (4, ROOM_ENTER), (5, ROOM_OUT),
      (6, WHISPER), (7, ROOM_INFO), (8, ROOM_USER_INFO), (9, FRIEND_INFO), (10, FRIEND_ADD),
      (11, FRIEND_GO), (12, FRIEND_DELETE), (13, LOG_OUT), (14, FILE_SEND), (15, USER_GOOD),
      (16, USER_GOOD_INFO), (17, DIRECTION_MAX), (20, CALLCOUNT), (21, BAN), (22, EXIT)]"

definition direction_of_int :: "int \<Rightarrow> Direction" where
  "direction_of_int i =
     (case map_of direction_table i of Some d \<Rightarrow> d | None \<Rightarrow> Direction_value i)"

definition int_of_direction :: "Direction \<Rightarrow> int" where
  "int_of_direction d =
     (case d of
        Direction_value i \<Rightarrow> i
      | _ \<Rightarrow> (case map_of (map prod.swap direction_table) d of Some i \<Rightarrow> i | None \<Rightarrow> 0))"

lemma int_of_direction_of_int [simp]: "int_of_direction (direction_of_int i) = i"
  by (simp add: direction_of_int_def direction_table_def int_of_direction_def)

datatype LoginCheck = NOW_LOGOUT | NOW_LOGIN | NOW_LOG_MAX

datatype SendTo = SEND_ME | SEND_ROOM | SEND_FILE | SEND_MAX

section \<open>Texts\<close>

definition bytes :: "nat list \<Rightarrow> string" where
  "bytes ns = map char_of ns"

lemma length_bytes [simp]: "length (bytes ns) = length ns"
  by (simp add: bytes_def)

lemma nul_free_bytes: "nul_free (bytes ns) \<longleftrightarrow> (\<forall>n\<in>set ns. n mod 256 \<noteq> 0)"
proof -
  have "(CHR 0x00 = char_of n) = (n mod 256 = 0)" for n :: nat
  proof -
    have "(CHR 0x00 = char_of n) = (of_char (CHR 0x00) = (of_char (char_of n) :: nat))"
      by (simp only: of_char_eq_iff)
    also have "\<dots> = (n mod 256 = 0)" by (auto simp: of_char_of)
    finally show ?thesis .
  qed
  then show ?thesis unfolding nul_free_def bytes_def set_map image_iff by metis
qed

subsection \<open>\<open>common.h\<close>\<close>

text \<open>menu before login: 1 make account, 2 log in, 3 quit, 4 clear\<close>

definition loginBeforeMessage :: string where
  "loginBeforeMessage = bytes [
     49, 46, 176, 232, 193, 164, 187, 253, 188, 186, 32, 50, 46, 183, 206, 177, 215, 192,
     206, 199, 207, 177, 226, 32, 51, 46, 193, 190, 183, 225, 32, 52, 46, 196, 220, 188, 214,
     193, 246, 191, 236, 177, 226]"

text \<open>menu of the waiting room\<close>

definition waitRoomMessage :: string where
  "waitRoomMessage = bytes [
     49, 46, 185, 230, 32, 193, 164, 186, 184, 32, 186, 184, 177, 226, 32, 50, 46, 185, 230,
     32, 184, 184, 181, 233, 177, 226, 32, 51, 46, 185, 230, 32, 192, 212, 192, 229, 199,
     207, 177, 226, 32, 52, 46, 192, 175, 192, 250, 32, 193, 164, 186, 184, 32, 53, 46, 196,
     163, 177, 184, 32, 193, 164, 186, 184, 32, 54, 46, 196, 163, 177, 184, 32, 176, 252,
     184, 174, 32, 55, 46, 177, 211, 188, 211, 184, 187, 32, 56, 46, 183, 206, 177, 215, 190,
     198, 191, 244, 32, 49, 48, 46, 196, 220, 188, 214, 193, 246, 191, 236, 177, 226]"

text \<open>wrong command\<close>

definition errorMessage :: string where
  "errorMessage = bytes [
     192, 223, 184, 248, 181, 200, 32, 184, 237, 183, 201, 190, 238, 32, 192, 212, 180, 207,
     180, 217]"

text \<open>help line of a chat room\<close>

definition chatRoomMessage :: string where
  "chatRoomMessage = bytes [
     179, 170, 176, 161, 189, 195, 183, 193, 184, 233, 32, 92, 111, 117, 116, 192, 187, 32,
     196, 220, 188, 214, 193, 246, 191, 236, 177, 226, 180, 194, 32, 92, 99, 108, 101, 97,
     114, 184, 166, 32, 196, 163, 177, 184, 195, 223, 176, 161, 180, 194, 32, 92, 97, 100,
     100, 32, 180, 208, 179, 215, 192, 211, 192, 187, 32, 198, 196, 192, 207, 192, 252, 188,
     219, 192, 186, 92, 115, 101, 110, 100, 184, 166, 32, 192, 212, 183, 194, 199, 207, 188,
     188, 191, 228]"

subsection \<open>\<open>Server.cpp\<close> and \<open>BusinessService.cpp\<close>\<close>

text \<open>welcome, sent on accept\<close>

definition m_welcome :: string where
  "m_welcome = bytes [
     193, 162, 188, 211, 192, 187, 32, 200, 175, 191, 181, 199, 213, 180, 207, 180, 217, 33,
     10]"

text \<open>welcome after login\<close>

definition m_entered :: string where
  "m_entered = bytes [
     180, 212, 32, 192, 212, 192, 229, 192, 187, 32, 200, 175, 191, 181, 199, 213, 180, 207,
     180, 217, 33, 10]"

text \<open>has left\<close>

definition m_left :: string where
  "m_left = bytes [
     32, 180, 212, 192, 204, 32, 179, 170, 176, 172, 189, 192, 180, 207, 180, 217, 33]"

text \<open>account created\<close>

definition m_made :: string where
  "m_made = bytes [
     176, 232, 193, 164, 32, 187, 253, 188, 186, 32, 191, 207, 183, 225, 33, 10]"

text \<open>id is taken\<close>

definition m_idTaken :: string where
  "m_idTaken = bytes [
     193, 223, 186, 185, 181, 200, 32, 190, 198, 192, 204, 181, 240, 176, 161, 32, 192, 214,
     189, 192, 180, 207, 180, 217, 33, 10]"

text \<open>no such account\<close>

definition m_noAccount :: string where
  "m_noAccount = bytes [
     190, 248, 180, 194, 32, 176, 232, 193, 164, 192, 212, 180, 207, 180, 217, 32, 190, 198,
     192, 204, 181, 240, 184, 166, 32, 200, 174, 192, 206, 199, 207, 188, 188, 191, 228, 33,
     10]"

text \<open>no double login\<close>

definition m_doubleLogin :: string where
  "m_doubleLogin = bytes [
     193, 223, 186, 185, 32, 183, 206, 177, 215, 192, 206, 192, 186, 32, 190, 200, 181, 203,
     180, 207, 180, 217, 33, 10]"

text \<open>wrong password\<close>

definition m_badPassword :: string where
  "m_badPassword = bytes [
     186, 241, 185, 208, 185, 248, 200, 163, 32, 198, 178, 184, 178, 33, 10]"

text \<open>room name is taken\<close>

definition m_roomTaken :: string where
  "m_roomTaken = bytes [
     192, 204, 185, 204, 32, 192, 214, 180, 194, 32, 185, 230, 32, 192, 204, 184, 167, 192,
     212, 180, 207, 180, 217, 33, 10]"

text \<open>room opened\<close>

definition m_roomMade :: string where
  "m_roomMade = bytes [
     32, 185, 230, 192, 204, 32, 176, 179, 188, 179, 181, 199, 190, 250, 189, 192, 180, 207,
     180, 217, 46]"

text \<open>no such room\<close>

definition m_noRoom :: string where
  "m_noRoom = bytes [
     190, 248, 180, 194, 32, 185, 230, 32, 192, 212, 180, 207, 180, 217, 33, 10]"

text \<open>has joined\<close>

definition m_joined :: string where
  "m_joined = bytes [
     32, 180, 212, 192, 204, 32, 192, 212, 192, 229, 199, 207, 188, 204, 189, 192, 180, 207,
     180, 217, 46, 32]"

text \<open>no whisper to oneself\<close>

definition m_selfWhisper :: string where
  "m_selfWhisper = bytes [
     192, 218, 189, 197, 191, 161, 176, 212, 32, 194, 202, 193, 246, 184, 166, 32, 186, 184,
     179, 190, 188, 246, 32, 190, 248, 189, 192, 180, 207, 180, 217, 10]"

text \<open>whisper from\<close>

definition m_whisperFrom :: string where
  "m_whisperFrom = bytes [
     32, 180, 212, 191, 161, 176, 212, 32, 191, 194, 32, 177, 211, 188, 211, 184, 187, 32,
     58, 32]"

text \<open>cannot be found\<close>

definition m_notFound :: string where
  "m_notFound = bytes [
     32, 180, 212, 192, 187, 32, 195, 163, 192, 187, 32, 188, 246, 32, 190, 248, 189, 192,
     180, 207, 180, 217]"

text \<open>there is no room\<close>

definition m_noRooms :: string where
  "m_noRooms = bytes [
     184, 184, 181, 233, 190, 238, 193, 248, 32, 185, 230, 192, 204, 32, 190, 248, 189, 192,
     180, 207, 180, 217]"

text \<open>room list\<close>

definition m_roomList :: string where
  "m_roomList = bytes [
     185, 230, 32, 193, 164, 186, 184, 32, 184, 174, 189, 186, 198, 174]"

text \<open>counter for people\<close>

definition m_people :: string where
  "m_people = bytes [
     184, 237]"

text \<open>user list\<close>

definition m_userList :: string where
  "m_userList = bytes [
     192, 175, 192, 250, 32, 193, 164, 186, 184, 32, 184, 174, 189, 186, 198, 174]"

text \<open>waiting room\<close>

definition m_waitingRoom :: string where
  "m_waitingRoom = bytes [
     180, 235, 177, 226, 189, 199]"

text \<open>friend list\<close>

definition m_friendList :: string where
  "m_friendList = bytes [
     196, 163, 177, 184, 32, 193, 164, 186, 184, 32, 184, 174, 189, 186, 198, 174]"

text \<open>no friend registered\<close>

definition m_noFriends :: string where
  "m_noFriends = bytes [
     10, 181, 238, 183, 207, 181, 200, 32, 196, 163, 177, 184, 176, 161, 32, 190, 248, 189,
     192, 180, 207, 180, 217]"

text \<open>not connected\<close>

definition m_offline :: string where
  "m_offline = bytes [
     193, 162, 188, 211, 190, 200, 199, 212]"

text \<open>no such id, cannot add\<close>

definition m_noSuchId :: string where
  "m_noSuchId = bytes [
     190, 198, 192, 204, 181, 240, 32, 190, 248, 192, 189, 32, 196, 163, 195, 223, 32, 186,
     210, 176, 161, 180, 201]"

text \<open>added as friend\<close>

definition m_friendAdded :: string where
  "m_friendAdded = bytes [
     180, 212, 192, 204, 32, 196, 163, 177, 184, 195, 223, 176, 161, 32, 181, 199, 190, 250,
     189, 192, 180, 207, 180, 217]"

text \<open>adding failed\<close>

definition m_friendAddFailed :: string where
  "m_friendAddFailed = bytes [
     180, 212, 192, 204, 32, 196, 163, 177, 184, 195, 223, 176, 161, 32, 189, 199, 198, 208]"

text \<open>no such friend\<close>

definition m_friendUnknown :: string where
  "m_friendUnknown = bytes [
     196, 163, 177, 184, 193, 164, 186, 184, 184, 166, 32, 195, 163, 192, 187, 32, 188, 246,
     32, 190, 248, 189, 192, 180, 207, 180, 217, 10]"

text \<open>is in the waiting room\<close>

definition m_inWaitingRoom :: string where
  "m_inWaitingRoom = bytes [
     32, 180, 212, 192, 186, 32, 180, 235, 177, 226, 189, 199, 191, 161, 32, 192, 214, 189,
     192, 180, 207, 180, 217]"

text \<open>is not connected\<close>

definition m_notConnected :: string where
  "m_notConnected = bytes [
     32, 180, 212, 192, 186, 32, 193, 162, 188, 211, 193, 223, 192, 204, 32, 190, 198, 180,
     213, 180, 207, 180, 217]"

text \<open>deleted as friend\<close>

definition m_friendDeleted :: string where
  "m_friendDeleted = bytes [
     32, 180, 212, 192, 187, 32, 196, 163, 177, 184, 32, 187, 232, 193, 166, 199, 223, 189,
     192, 180, 207, 180, 217]"

text \<open>deleting failed\<close>

definition m_friendDeleteFailed :: string where
  "m_friendDeleteFailed = bytes [
     196, 163, 177, 184, 32, 187, 232, 193, 166, 189, 199, 198, 208, 10]"

text \<open>banned by the administrator\<close>

definition m_banned :: string where
  "m_banned = bytes [
     180, 231, 189, 197, 192, 186, 32, 176, 252, 184, 174, 192, 218, 191, 161, 192, 199, 199,
     216, 32, 176, 173, 197, 240, 181, 199, 190, 250, 189, 192, 180, 207, 180, 217]"

lemmas text_defs = loginBeforeMessage_def waitRoomMessage_def errorMessage_def chatRoomMessage_def
  m_welcome_def m_entered_def m_left_def m_made_def m_idTaken_def m_noAccount_def
  m_doubleLogin_def m_badPassword_def m_roomTaken_def m_roomMade_def m_noRoom_def m_joined_def
  m_selfWhisper_def m_whisperFrom_def m_notFound_def m_noRooms_def m_roomList_def m_people_def
  m_userList_def m_waitingRoom_def m_friendList_def m_noFriends_def m_offline_def m_noSuchId_def
  m_friendAdded_def m_friendAddFailed_def m_friendUnknown_def m_inWaitingRoom_def
  m_notConnected_def m_friendDeleted_def m_friendDeleteFailed_def m_banned_def

section \<open>Structures\<close>

text \<open>
  What a send or receive operation is about: \<open>WSABUF wsaBuf\<close> points either into a block of the
  character pool or to the structure's own \<open>buffer\<close>. The \<open>OVERLAPPED\<close> part belongs to the kernel and
  is left out; the code only zeroes it.
\<close>

datatype wsa_buf = NullBuf | PoolBuf nat | OwnBuf

record PER_IO_DATA =
  wsaBuf_buf :: wsa_buf
  wsaBuf_len :: nat
  buffer :: carray
  serverMode :: int
  recvByte :: int
  totByte :: int
  bodySize :: int
  recvBuffer :: nat

text \<open>
  The job queue's element. \<open>nowStatus\<close> holds whatever four bytes the packet carried. The member
  \<open>int job\<close> is never read or written by the server and is left out.
\<close>

record JOB_DATA =
  job_socket :: SOCKET
  job_direction :: Direction
  job_nowStatus :: int
  job_msg :: string

text \<open>The send queue's element; \<open>mySocket\<close> is left unassigned for room and file messages.\<close>

record Send_DATA =
  sd_msg :: string
  sd_mySocket :: "SOCKET option"
  sd_roomName :: string
  sd_direction :: SendTo
  sd_status :: ClientStatus

text \<open>A room; its mutex \<open>listCs\<close> is held around each use of the list.\<close>

record ROOM_DATA =
  userList :: "SOCKET list"

text \<open>The session of a logged-in client (\<open>BusinessService.h\<close>).\<close>

record PER_HANDLE_DATA =
  userName :: carray
  roomName :: carray
  userId :: carray
  status :: ClientStatus

end
