(* ===== verification/Pools.thy ===== *)
theory Pools
  imports Common
begin

text \<open>
  The two memory pools, \<open>CharPool\<close> (packets and message texts, \<open>src/Chat/Server/CharPool.*\<close>) and
  \<open>MPool\<close> (\<open>PER_IO_DATA\<close> structures, \<open>src/Chat/Server/MPool.*\<close>).

  Memory is byte addressed for \<open>CharPool\<close>: code writes past a block's end into the next block, and
  the model does the same as long as the write stays inside one allocated region. A read or write
  outside every region is \<open>HeapOverflow\<close>. For \<open>MPool\<close> a structure sits at each block address.
  \<open>malloc\<close> and \<open>new[]\<close> return memory no earlier region uses: the next region starts at the first
  address above all others.

  The contract of a pool is the locale \<open>block_allocator\<close>: the ghost set of blocks handed out is
  disjoint from the free queue, and blocks never overlap. Both pools are interpretations.
\<close>

named_theorems pool_frame \<open>what a pool operation leaves unchanged\<close>

section \<open>Regions and blocks\<close>

type_synonym regions = "(nat \<times> nat) list"  \<comment> \<open>start and length in bytes\<close>

definition in_region :: "regions \<Rightarrow> nat \<Rightarrow> nat \<Rightarrow> bool" where
  "in_region rs a n \<longleftrightarrow> list_ex (\<lambda>(b, m). b \<le> a \<and> a + n \<le> b + m) rs"

lemma in_region_iff: "in_region rs a n \<longleftrightarrow> (\<exists>b m. (b, m) \<in> set rs \<and> b \<le> a \<and> a + n \<le> b + m)"
  by (auto simp: in_region_def list_ex_iff)

lemma in_region_sub: "in_region rs a n \<Longrightarrow> a \<le> a' \<Longrightarrow> a' + n' \<le> a + n \<Longrightarrow> in_region rs a' n'"
  by (fastforce simp: in_region_iff)

lemma in_region_Cons: "in_region rs a n \<Longrightarrow> in_region (r # rs) a n"
  by (auto simp: in_region_iff)

text \<open>The addresses at which a pool with blocks of \<open>st\<close> bytes has a block.\<close>

definition block_starts :: "nat \<Rightarrow> regions \<Rightarrow> nat set" where
  "block_starts st rs = {b + st * k | b m k. (b, m) \<in> set rs \<and> st * Suc k \<le> m}"

fun regions_wf :: "nat \<Rightarrow> regions \<Rightarrow> bool" where
  "regions_wf brk [] = (0 < brk)"
| "regions_wf brk ((b, m) # rs) = (b + m \<le> brk \<and> regions_wf b rs)"

text \<open>
  Free blocks and handed-out blocks partition the blocks of the pool, and no block is in the queue
  twice.
\<close>

definition pool_inv :: "nat \<Rightarrow> regions \<Rightarrow> nat \<Rightarrow> nat list \<Rightarrow> nat set \<Rightarrow> bool" where
  "pool_inv st rs brk q out \<longleftrightarrow>
     regions_wf brk rs \<and> distinct q \<and> set q \<inter> out = {} \<and> set q \<union> out = block_starts st rs"

lemma regions_wf_pos: "regions_wf brk rs \<Longrightarrow> 0 < brk"
  by (induction rs arbitrary: brk) fastforce+

lemma regions_wf_bound: "regions_wf brk rs \<Longrightarrow> (b, m) \<in> set rs \<Longrightarrow> 0 < b \<and> b + m \<le> brk"
proof (induction rs arbitrary: brk)
  case (Cons r rs)
  then show ?case using regions_wf_pos by (cases r) fastforce
qed simp

lemma in_region_bound: "regions_wf brk rs \<Longrightarrow> in_region rs a n \<Longrightarrow> 0 < a \<and> a + n \<le> brk"
  by (fastforce simp: in_region_iff dest: regions_wf_bound)

lemma block_in_region: "a \<in> block_starts st rs \<Longrightarrow> in_region rs a st"
  by (force simp: block_starts_def in_region_iff)

lemma block_starts_Cons:
  "block_starts st ((b, m) # rs) = {b + st * k | k. st * Suc k \<le> m} \<union> block_starts st rs"
  by (auto simp: block_starts_def)

lemma stride_apart:
  fixes j k st :: nat
  assumes "j \<noteq> k"
  shows "b + st * j + st \<le> b + st * k \<or> b + st * k + st \<le> b + st * j"
proof -
  have "st * j + st \<le> st * k" if "j < k" for j k :: nat
    using mult_le_mono2 [of "Suc j" k st] that by simp
  with assms show ?thesis using nat_neq_iff [of j k] by auto
qed

lemma block_starts_apart:
  assumes "regions_wf brk rs" and "a \<in> block_starts st rs" and "c \<in> block_starts st rs" and "a \<noteq> c"
  shows "a + st \<le> c \<or> c + st \<le> a"
  using assms
proof (induction rs arbitrary: brk)
  case Nil
  then show ?case by (simp add: block_starts_def)
next
  case (Cons r rs)
  obtain b m where r: "r = (b, m)" by (cases r)
  let ?new = "{b + st * k | k. st * Suc k \<le> m}"
  have wf: "regions_wf b rs" using Cons.prems(1) r by simp
  have old: "x + st \<le> b" if "x \<in> block_starts st rs" for x
    using in_region_bound [OF wf block_in_region [OF that]] by simp
  consider "a \<in> ?new" "c \<in> ?new" | "a \<in> ?new" "c \<in> block_starts st rs"
    | "a \<in> block_starts st rs" "c \<in> ?new"
    | "a \<in> block_starts st rs" "c \<in> block_starts st rs"
    using Cons.prems(2,3) r by (auto simp: block_starts_Cons)
  then show ?case
  proof cases
    case 1
    then obtain j k where "a = b + st * j" "c = b + st * k" by auto
    with Cons.prems(4) show ?thesis using stride_apart [of j k b st] by auto
  next
    case 2
    then show ?thesis using old [of c] by auto
  next
    case 3
    then show ?thesis using old [of a] by auto
  next
    case 4
    then show ?thesis using Cons.IH [OF wf] Cons.prems(4) by blast
  qed
qed

lemma pool_inv_take: "pool_inv st rs brk (a # q) out \<Longrightarrow>
    a \<notin> out \<and> pool_inv st rs brk q (insert a out)"
  by (auto simp: pool_inv_def)

lemma pool_inv_put: "pool_inv st rs brk q out \<Longrightarrow> a \<in> out \<Longrightarrow>
    pool_inv st rs brk (q @ [a]) (out - {a})"
  by (auto simp: pool_inv_def)

lemma pool_inv_region: "pool_inv st rs brk q out \<Longrightarrow> a \<in> out \<or> a \<in> set q \<Longrightarrow> in_region rs a st"
  using block_in_region by (fastforce simp: pool_inv_def)

lemma pool_inv_apart: "pool_inv st rs brk q out \<Longrightarrow> a \<in> out \<Longrightarrow> c \<in> out \<Longrightarrow> a \<noteq> c \<Longrightarrow>
    a + st \<le> c \<or> c + st \<le> a"
  by (rule block_starts_apart [of brk rs]) (auto simp: pool_inv_def)

lemma pool_inv_more:
  assumes inv: "pool_inv st rs brk [] out" and "0 < st"
  shows "pool_inv st ((brk, st * n) # rs) (brk + st * n) (map (\<lambda>k. brk + st * k) [0..<n]) out"
proof -
  have wf: "regions_wf brk rs" and out: "out = block_starts st rs"
    using inv by (auto simp: pool_inv_def)
  have old: "x + st \<le> brk" if "x \<in> out" for x
    using in_region_bound [OF wf block_in_region] that out by simp
  have "{brk + st * k | k. st * Suc k \<le> st * n} = set (map (\<lambda>k. brk + st * k) [0..<n])"
    using \<open>0 < st\<close> by (auto simp del: mult_Suc_right simp: Suc_le_eq)
  moreover have "distinct (map (\<lambda>k. brk + st * k) [0..<n])"
    using \<open>0 < st\<close> by (auto simp: distinct_map inj_on_def)
  moreover have "set (map (\<lambda>k. brk + st * k) [0..<n]) \<inter> out = {}"
    using old \<open>0 < st\<close> by fastforce
  ultimately show ?thesis
    using wf out by (simp add: pool_inv_def block_starts_Cons)
qed

section \<open>The contract of a pool\<close>

fun malloc_many :: "('p \<Rightarrow> cpp_error + nat \<times> 'p) \<Rightarrow> nat \<Rightarrow> 'p \<Rightarrow> cpp_error + nat list \<times> 'p" where
  "malloc_many f 0 p = Inr ([], p)"
| "malloc_many f (Suc n) p =
     sbind (f p) (\<lambda>(a, p1). sbind (malloc_many f n p1) (\<lambda>(as, p2). Inr (a # as, p2)))"

locale block_allocator =
  fixes malloc :: "'p \<Rightarrow> cpp_error + nat \<times> 'p"
    and free :: "nat \<Rightarrow> 'p \<Rightarrow> cpp_error + 'p"
    and inv :: "'p \<Rightarrow> nat set \<Rightarrow> bool"
    and bsize :: nat
  assumes malloc_ok: "inv p out \<Longrightarrow> ok (malloc p) (\<lambda>(a, p'). a \<notin> out \<and> inv p' (insert a out))"
    and free_ok: "inv p out \<Longrightarrow> a \<in> out \<Longrightarrow> ok (free a p) (\<lambda>p'. inv p' (out - {a}))"
    and apart: "inv p out \<Longrightarrow> a \<in> out \<Longrightarrow> b \<in> out \<Longrightarrow> a \<noteq> b \<Longrightarrow> a + bsize \<le> b \<or> b + bsize \<le> a"
begin

lemma malloc_then_free:
  assumes "inv p out"
  shows "ok (sbind (malloc p) (\<lambda>(a, p'). free a p')) (\<lambda>p'. inv p' out)"
  unfolding ok_sbind
proof (rule ok_mono [OF malloc_ok [OF assms]])
  fix x assume x: "case x of (a, p') \<Rightarrow> a \<notin> out \<and> inv p' (insert a out)"
  obtain a p' where [simp]: "x = (a, p')" by (cases x)
  from x have inv': "inv p' (insert a out)" and new: "a \<notin> out" by simp_all
  have "ok (free a p') (\<lambda>p''. inv p'' (insert a out - {a}))"
    using inv' by (rule free_ok) simp
  moreover from new have "insert a out - {a} = out" by blast
  ultimately show "ok (case x of (a, p') \<Rightarrow> free a p') (\<lambda>p'. inv p' out)"
    by (simp only: prod.case \<open>x = (a, p')\<close>)
qed

text \<open>However many blocks are taken, all are new, and no two of them are the same.\<close>

lemma malloc_many_ok:
  assumes "inv p out"
  shows "ok (malloc_many malloc n p) (\<lambda>(as, p'). length as = n \<and> distinct as \<and> set as \<inter> out = {} \<and>
           inv p' (set as \<union> out))"
  using assms
proof (induction n arbitrary: p out)
  case (Suc n)
  obtain a p1 where a: "malloc p = Inr (a, p1)" "a \<notin> out" "inv p1 (insert a out)"
    using malloc_ok [OF Suc.prems] by (auto simp: ok_iff)
  obtain as p2 where "malloc_many malloc n p1 = Inr (as, p2)" "length as = n" "distinct as"
      "set as \<inter> insert a out = {}" "inv p2 (set as \<union> insert a out)"
    using Suc.IH [OF a(3)] by (auto simp: ok_iff)
  with a show ?case by simp
qed simp

lemma malloc_many_apart:
  assumes "inv p out" and "malloc_many malloc n p = Inr (as, p')"
    and "a \<in> set as" and "b \<in> set as \<union> out" and "a \<noteq> b"
  shows "a + bsize \<le> b \<or> b + bsize \<le> a"
proof -
  have "inv p' (set as \<union> out)" using malloc_many_ok [OF assms(1), of n] assms(2) by simp
  with assms(3-5) show ?thesis using apart by blast
qed

end

section \<open>\<open>CharPool\<close>\<close>

definition BLOCK_SIZE :: nat where "BLOCK_SIZE = 1024"
definition POOL_BLOCKS :: nat where "POOL_BLOCKS = 50000"
definition MORE_BLOCKS :: nat where "MORE_BLOCKS = 2000"

record CharPool =
  cp_mem :: "nat \<Rightarrow> char"
  cp_regions :: regions
  cp_brk :: nat
  poolQueue :: "nat list"

definition cp_read :: "CharPool \<Rightarrow> nat \<Rightarrow> nat \<Rightarrow> cpp_error + char list" where
  "cp_read p a n =
     (if in_region (cp_regions p) a n then Inr (map (cp_mem p) [a..<a + n]) else Inl HeapOverflow)"

definition mem_put :: "(nat \<Rightarrow> 'a) \<Rightarrow> nat \<Rightarrow> 'a list \<Rightarrow> (nat \<Rightarrow> 'a)" where
  "mem_put mem a bs = (\<lambda>x. if a \<le> x \<and> x < a + length bs then bs ! (x - a) else mem x)"

definition cp_write :: "CharPool \<Rightarrow> nat \<Rightarrow> char list \<Rightarrow> cpp_error + CharPool" where
  "cp_write p a bs =
     (if in_region (cp_regions p) a (length bs) then Inr (p\<lparr>cp_mem := mem_put (cp_mem p) a bs\<rparr>)
      else Inl HeapOverflow)"

text \<open>A C string at an address: byte after byte until a NUL, as long as the memory is allocated.\<close>

fun cp_scan :: "CharPool \<Rightarrow> nat \<Rightarrow> nat \<Rightarrow> cpp_error + string" where
  "cp_scan p a 0 = Inl Unterminated"
| "cp_scan p a (Suc n) =
     (if \<not> in_region (cp_regions p) a 1 then Inl Unterminated
      else if cp_mem p a = NUL then Inr []
      else sbind (cp_scan p (Suc a) n) (\<lambda>s. Inr (cp_mem p a # s)))"

definition cp_cstr :: "CharPool \<Rightarrow> nat \<Rightarrow> cpp_error + string" where
  "cp_cstr p a = cp_scan p a (Suc (cp_brk p - a))"

text \<open>The two ways the pool gets memory: \<open>n\<close> zeroed blocks, pushed in address order.\<close>

definition CharPool_grow :: "nat \<Rightarrow> CharPool \<Rightarrow> CharPool" where
  "CharPool_grow n p =
     p\<lparr>cp_mem := (\<lambda>x. if cp_brk p \<le> x \<and> x < cp_brk p + BLOCK_SIZE * n then NUL else cp_mem p x),
       cp_regions := (cp_brk p, BLOCK_SIZE * n) # cp_regions p,
       cp_brk := cp_brk p + BLOCK_SIZE * n,
       poolQueue := fold ConcurrentQueue_push
         (map (\<lambda>i. cp_brk p + BLOCK_SIZE * i) [0..<n]) (poolQueue p)\<rparr>"

text \<open>The constructor, on memory whose first free address is \<open>brk\<close>.\<close>

definition CharPool_new :: "(nat \<Rightarrow> char) \<Rightarrow> nat \<Rightarrow> CharPool" where
  "CharPool_new mem brk = CharPool_grow POOL_BLOCKS
     \<lparr>cp_mem = mem, cp_regions = [], cp_brk = brk, poolQueue = []\<rparr>"

definition CharPool_Malloc :: "CharPool \<Rightarrow> cpp_error + nat \<times> CharPool" where
  "CharPool_Malloc p =
     (let p1 = (if ConcurrentQueue_empty (poolQueue p) then CharPool_grow MORE_BLOCKS p else p) in
      sbind (ConcurrentQueue_top (poolQueue p1)) (\<lambda>(a, q). Inr (a, p1\<lparr>poolQueue := q\<rparr>)))"

text \<open>
  \<open>memset(freePoint, 0, sizeof(BLOCK_SIZE))\<close>: \<open>BLOCK_SIZE\<close> is the literal 1024, an \<open>int\<close>, so four
  bytes are cleared.
\<close>

definition CharPool_Free :: "nat \<Rightarrow> CharPool \<Rightarrow> cpp_error + CharPool" where
  "CharPool_Free a p =
     sbind (cp_write p a (replicate 4 NUL)) (\<lambda>p1.
     Inr (p1\<lparr>poolQueue := ConcurrentQueue_push a (poolQueue p1)\<rparr>))"

section \<open>\<open>MPool\<close>\<close>

text \<open>\<open>sizeof(PER_IO_DATA)\<close> on x64: 32 + 16 + 4096 + 4 + 3 * 2, padded to 4160, + 8.\<close>

definition sizeof_PER_IO_DATA :: nat where "sizeof_PER_IO_DATA = 4168"

record MPool =
  mp_mem :: "nat \<Rightarrow> PER_IO_DATA"
  mp_regions :: regions
  mp_brk :: nat
  mp_queue :: "nat list"

text \<open>A structure cleared with \<open>memset\<close>.\<close>

definition zero_io :: PER_IO_DATA where
  "zero_io = \<lparr>wsaBuf_buf = NullBuf, wsaBuf_len = 0, buffer = replicate BUF_SIZE NUL, serverMode = 0,
     recvByte = 0, totByte = 0, bodySize = 0, recvBuffer = 0\<rparr>"

definition MPool_grow :: "nat \<Rightarrow> MPool \<Rightarrow> MPool" where
  "MPool_grow n p =
     p\<lparr>mp_mem := (\<lambda>x. if mp_brk p \<le> x \<and> x < mp_brk p + sizeof_PER_IO_DATA * n then zero_io
                       else mp_mem p x),
       mp_regions := (mp_brk p, sizeof_PER_IO_DATA * n) # mp_regions p,
       mp_brk := mp_brk p + sizeof_PER_IO_DATA * n,
       mp_queue := fold ConcurrentQueue_push
         (map (\<lambda>i. mp_brk p + sizeof_PER_IO_DATA * i) [0..<n]) (mp_queue p)\<rparr>"

definition MPool_new :: "(nat \<Rightarrow> PER_IO_DATA) \<Rightarrow> nat \<Rightarrow> MPool" where
  "MPool_new mem brk = MPool_grow POOL_BLOCKS
     \<lparr>mp_mem = mem, mp_regions = [], mp_brk = brk, mp_queue = []\<rparr>"

definition MPool_Malloc :: "MPool \<Rightarrow> cpp_error + nat \<times> MPool" where
  "MPool_Malloc p =
     (let p1 = (if ConcurrentQueue_empty (mp_queue p) then MPool_grow MORE_BLOCKS p else p) in
      sbind (ConcurrentQueue_top (mp_queue p1)) (\<lambda>(a, q). Inr (a, p1\<lparr>mp_queue := q\<rparr>)))"

text \<open>Here \<open>memset\<close> clears the whole structure.\<close>

definition MPool_Free :: "nat \<Rightarrow> MPool \<Rightarrow> cpp_error + MPool" where
  "MPool_Free a p =
     (if in_region (mp_regions p) a sizeof_PER_IO_DATA then
        Inr (p\<lparr>mp_mem := (mp_mem p)(a := zero_io), mp_queue := ConcurrentQueue_push a (mp_queue p)\<rparr>)
      else Inl HeapOverflow)"

text \<open>Access to a structure through its pointer.\<close>

definition mp_get :: "MPool \<Rightarrow> nat \<Rightarrow> cpp_error + PER_IO_DATA" where
  "mp_get p a =
     (if in_region (mp_regions p) a sizeof_PER_IO_DATA then Inr (mp_mem p a) else Inl HeapOverflow)"

definition mp_set :: "nat \<Rightarrow> PER_IO_DATA \<Rightarrow> MPool \<Rightarrow> MPool" where
  "mp_set a io p = p\<lparr>mp_mem := (mp_mem p)(a := io)\<rparr>"

section \<open>Memory lemmas\<close>

lemma mem_put_same [simp]: "map (mem_put mem a bs) [a..<a + length bs] = bs"
  by (rule nth_equalityI) (simp_all add: mem_put_def)

lemma mem_put_inside: "a \<le> x \<Longrightarrow> x < a + length bs \<Longrightarrow> mem_put mem a bs x = bs ! (x - a)"
  by (simp add: mem_put_def)

lemma mem_put_outside: "x < a \<or> a + length bs \<le> x \<Longrightarrow> mem_put mem a bs x = mem x"
  by (auto simp: mem_put_def)

lemma map_mem_put_prefix: "n \<le> length bs \<Longrightarrow> map (mem_put mem a bs) [a..<a + n] = take n bs"
  by (rule nth_equalityI) (simp_all add: mem_put_def)

lemma ok_cp_read [simp]: "ok (cp_read p a n) P \<longleftrightarrow>
    in_region (cp_regions p) a n \<and> P (map (cp_mem p) [a..<a + n])"
  by (simp add: cp_read_def)

lemma ok_cp_write [simp]: "ok (cp_write p a bs) P \<longleftrightarrow>
    in_region (cp_regions p) a (length bs) \<and> P (p\<lparr>cp_mem := mem_put (cp_mem p) a bs\<rparr>)"
  by (simp add: cp_write_def)

text \<open>A text with its terminator in allocated memory is read back in full.\<close>

lemma cp_scan_text:
  assumes "map (cp_mem p) [a..<a + Suc (length s)] = s @ [NUL]" and "nul_free s"
    and "in_region (cp_regions p) a (Suc (length s))" and "length s < n"
  shows "cp_scan p a n = Inr s"
  using assms
proof (induction s arbitrary: a n)
  case Nil
  then obtain k where "n = Suc k" by (cases n) auto
  with Nil show ?case by simp
next
  case (Cons c s)
  obtain k where n: "n = Suc k" "length s < k" using Cons.prems(4) by (cases n) auto
  have split: "[a..<a + Suc (length (c # s))] = a # [Suc a..<Suc a + Suc (length s)]"
    by (simp add: upt_rec)
  have c: "cp_mem p a = c" and s: "map (cp_mem p) [Suc a..<Suc a + Suc (length s)] = s @ [NUL]"
    using Cons.prems(1) unfolding split by simp_all
  have "c \<noteq> NUL" and "nul_free s" using Cons.prems(2) by (auto simp: nul_free_def)
  moreover have "in_region (cp_regions p) a 1" and
      "in_region (cp_regions p) (Suc a) (Suc (length s))"
    using in_region_sub [OF Cons.prems(3)] by auto
  ultimately show ?case using Cons.IH [OF s, of k] n c by simp
qed

lemma cp_cstr_text:
  assumes "map (cp_mem p) [a..<a + Suc (length s)] = s @ [NUL]" and "nul_free s"
    and "in_region (cp_regions p) a (Suc (length s))" and "regions_wf (cp_brk p) (cp_regions p)"
  shows "cp_cstr p a = Inr s"
proof -
  have "length s < Suc (cp_brk p - a)" using in_region_bound [OF assms(4,3)] by arith
  then show ?thesis unfolding cp_cstr_def by (rule cp_scan_text [OF assms(1-3)])
qed

lemma cp_scan_nul_free: "cp_scan p a n = Inr s \<Longrightarrow> nul_free s"
proof (induction n arbitrary: a s)
  case (Suc n)
  then show ?case
    by (auto simp: sbind_Inr_iff nul_free_def split: if_splits)
qed simp

lemma cp_cstr_nul_free: "cp_cstr p a = Inr s \<Longrightarrow> nul_free s"
  unfolding cp_cstr_def by (rule cp_scan_nul_free)

section \<open>The pool invariants\<close>

definition cp_inv :: "CharPool \<Rightarrow> nat set \<Rightarrow> bool" where
  "cp_inv p out \<longleftrightarrow> pool_inv BLOCK_SIZE (cp_regions p) (cp_brk p) (poolQueue p) out"

definition mp_inv :: "MPool \<Rightarrow> nat set \<Rightarrow> bool" where
  "mp_inv p out \<longleftrightarrow> pool_inv sizeof_PER_IO_DATA (mp_regions p) (mp_brk p) (mp_queue p) out"

lemma BLOCK_SIZE_pos [simp]: "0 < BLOCK_SIZE" and sizeof_pos [simp]: "0 < sizeof_PER_IO_DATA"
  by (simp_all add: BLOCK_SIZE_def sizeof_PER_IO_DATA_def)

lemma MORE_BLOCKS_pos: "[0..<MORE_BLOCKS] = 0 # [1..<MORE_BLOCKS]"
  using upt_conv_Cons [of 0 MORE_BLOCKS] by (simp only: One_nat_def) (simp add: MORE_BLOCKS_def)

lemma CharPool_grow_queue: "poolQueue (CharPool_grow n p) =
    poolQueue p @ map (\<lambda>i. cp_brk p + BLOCK_SIZE * i) [0..<n]"
  unfolding CharPool_grow_def by (simp only: cq.contents_push_all) simp

lemma MPool_grow_queue: "mp_queue (MPool_grow n p) =
    mp_queue p @ map (\<lambda>i. mp_brk p + sizeof_PER_IO_DATA * i) [0..<n]"
  unfolding MPool_grow_def by (simp only: cq.contents_push_all) simp

lemma CharPool_grow_simps [simp]:
  "cp_regions (CharPool_grow n p) = (cp_brk p, BLOCK_SIZE * n) # cp_regions p"
  "cp_brk (CharPool_grow n p) = cp_brk p + BLOCK_SIZE * n"
  by (simp_all add: CharPool_grow_def)

lemma MPool_grow_simps [simp]:
  "mp_regions (MPool_grow n p) = (mp_brk p, sizeof_PER_IO_DATA * n) # mp_regions p"
  "mp_brk (MPool_grow n p) = mp_brk p + sizeof_PER_IO_DATA * n"
  by (simp_all add: MPool_grow_def)

lemma CharPool_grow_inv: "cp_inv p out \<Longrightarrow> poolQueue p = [] \<Longrightarrow> cp_inv (CharPool_grow n p) out"
  unfolding cp_inv_def CharPool_grow_queue CharPool_grow_simps
  by (simp add: pool_inv_more)

lemma MPool_grow_inv: "mp_inv p out \<Longrightarrow> mp_queue p = [] \<Longrightarrow> mp_inv (MPool_grow n p) out"
  unfolding mp_inv_def MPool_grow_queue MPool_grow_simps
  by (simp add: pool_inv_more)

lemma empty_pool_inv: "0 < brk \<Longrightarrow> pool_inv st [] brk [] {}"
  by (simp add: pool_inv_def block_starts_def)

lemma CharPool_new_inv: "0 < brk \<Longrightarrow> cp_inv (CharPool_new mem brk) {}"
  unfolding CharPool_new_def by (rule CharPool_grow_inv) (simp_all add: cp_inv_def empty_pool_inv)

lemma MPool_new_inv: "0 < brk \<Longrightarrow> mp_inv (MPool_new mem brk) {}"
  unfolding MPool_new_def by (rule MPool_grow_inv) (simp_all add: mp_inv_def empty_pool_inv)

lemma poolQueue_grow: "poolQueue p = [] \<Longrightarrow>
    poolQueue (CharPool_grow MORE_BLOCKS p) =
      cp_brk p # map (\<lambda>i. cp_brk p + BLOCK_SIZE * i) [1..<MORE_BLOCKS]"
  by (simp add: CharPool_grow_queue MORE_BLOCKS_pos)

lemma mp_queue_grow: "mp_queue p = [] \<Longrightarrow>
    mp_queue (MPool_grow MORE_BLOCKS p) =
      mp_brk p # map (\<lambda>i. mp_brk p + sizeof_PER_IO_DATA * i) [1..<MORE_BLOCKS]"
  by (simp add: MPool_grow_queue MORE_BLOCKS_pos)

text \<open>\<open>Malloc\<close> never fails: it grows the pool first when the queue is empty.\<close>

lemma CharPool_Malloc_cases:
  obtains a q where "poolQueue p = a # q" "CharPool_Malloc p = Inr (a, p\<lparr>poolQueue := q\<rparr>)"
  | "poolQueue p = []" "CharPool_Malloc p = Inr (cp_brk p, (CharPool_grow MORE_BLOCKS p)
       \<lparr>poolQueue := map (\<lambda>i. cp_brk p + BLOCK_SIZE * i) [1..<MORE_BLOCKS]\<rparr>)"
  by (cases "poolQueue p")
     (simp_all add: CharPool_Malloc_def ConcurrentQueue_empty_def ConcurrentQueue_top_def
        poolQueue_grow)

lemma MPool_Malloc_cases:
  obtains a q where "mp_queue p = a # q" "MPool_Malloc p = Inr (a, p\<lparr>mp_queue := q\<rparr>)"
  | "mp_queue p = []" "MPool_Malloc p = Inr (mp_brk p, (MPool_grow MORE_BLOCKS p)
       \<lparr>mp_queue := map (\<lambda>i. mp_brk p + sizeof_PER_IO_DATA * i) [1..<MORE_BLOCKS]\<rparr>)"
  by (cases "mp_queue p")
     (simp_all add: MPool_Malloc_def ConcurrentQueue_empty_def ConcurrentQueue_top_def
        mp_queue_grow)

lemma CharPool_Malloc_inv:
  assumes "cp_inv p out"
  shows "ok (CharPool_Malloc p) (\<lambda>(a, p'). a \<notin> out \<and> cp_inv p' (insert a out))"
proof (cases rule: CharPool_Malloc_cases [of p])
  case (1 a q)
  with assms pool_inv_take show ?thesis by (fastforce simp: cp_inv_def)
next
  case 2
  have "cp_inv (CharPool_grow MORE_BLOCKS p) out" using assms 2(1) by (rule CharPool_grow_inv)
  then show ?thesis
    using pool_inv_take 2 unfolding cp_inv_def poolQueue_grow [OF 2(1)] by fastforce
qed

lemma MPool_Malloc_inv:
  assumes "mp_inv p out"
  shows "ok (MPool_Malloc p) (\<lambda>(a, p'). a \<notin> out \<and> mp_inv p' (insert a out))"
proof (cases rule: MPool_Malloc_cases [of p])
  case (1 a q)
  with assms pool_inv_take show ?thesis by (fastforce simp: mp_inv_def)
next
  case 2
  have "mp_inv (MPool_grow MORE_BLOCKS p) out" using assms 2(1) by (rule MPool_grow_inv)
  then show ?thesis
    using pool_inv_take 2 unfolding mp_inv_def mp_queue_grow [OF 2(1)] by fastforce
qed

lemma cp_inv_region: "cp_inv p out \<Longrightarrow> a \<in> out \<Longrightarrow> n \<le> BLOCK_SIZE \<Longrightarrow>
    in_region (cp_regions p) a n"
  unfolding cp_inv_def
  by (rule in_region_sub [OF pool_inv_region, of BLOCK_SIZE]) auto

lemma mp_inv_region: "mp_inv p out \<Longrightarrow> a \<in> out \<Longrightarrow>
    in_region (mp_regions p) a sizeof_PER_IO_DATA"
  unfolding mp_inv_def by (blast intro: pool_inv_region)

lemma CharPool_Free_inv:
  assumes "cp_inv p out" and "a \<in> out"
  shows "ok (CharPool_Free a p) (\<lambda>p'. cp_inv p' (out - {a}))"
  using assms pool_inv_put cp_inv_region [OF assms, of 4]
  by (auto simp: CharPool_Free_def cp_inv_def ConcurrentQueue_push_def BLOCK_SIZE_def)

lemma MPool_Free_inv:
  assumes "mp_inv p out" and "a \<in> out"
  shows "ok (MPool_Free a p) (\<lambda>p'. mp_inv p' (out - {a}))"
  using assms pool_inv_put mp_inv_region [OF assms]
  by (auto simp: MPool_Free_def mp_inv_def ConcurrentQueue_push_def)

lemma cp_inv_apart: "cp_inv p out \<Longrightarrow> a \<in> out \<Longrightarrow> c \<in> out \<Longrightarrow> a \<noteq> c \<Longrightarrow>
    a + BLOCK_SIZE \<le> c \<or> c + BLOCK_SIZE \<le> a"
  unfolding cp_inv_def by (rule pool_inv_apart)

lemma mp_inv_apart: "mp_inv p out \<Longrightarrow> a \<in> out \<Longrightarrow> c \<in> out \<Longrightarrow> a \<noteq> c \<Longrightarrow>
    a + sizeof_PER_IO_DATA \<le> c \<or> c + sizeof_PER_IO_DATA \<le> a"
  unfolding mp_inv_def by (rule pool_inv_apart)

interpretation cpa: block_allocator CharPool_Malloc CharPool_Free cp_inv BLOCK_SIZE
  by (intro block_allocator.intro CharPool_Malloc_inv CharPool_Free_inv cp_inv_apart)

interpretation mpa: block_allocator MPool_Malloc MPool_Free mp_inv sizeof_PER_IO_DATA
  by (intro block_allocator.intro MPool_Malloc_inv MPool_Free_inv mp_inv_apart)

section \<open>What the operations leave unchanged\<close>

text \<open>
  A handed-out block keeps its contents when another block is taken or given back: the pool only
  touches the four bytes of the block that comes back and memory no region had before.
\<close>

lemma CharPool_Malloc_mem [pool_frame]:
  "CharPool_Malloc p = Inr (a, p') \<Longrightarrow> x < cp_brk p \<Longrightarrow> cp_mem p' x = cp_mem p x"
  by (cases rule: CharPool_Malloc_cases [of p]) (auto simp: CharPool_grow_def)

lemma CharPool_Malloc_region [pool_frame]:
  "CharPool_Malloc p = Inr (a, p') \<Longrightarrow> in_region (cp_regions p) b n \<Longrightarrow>
     in_region (cp_regions p') b n"
  by (cases rule: CharPool_Malloc_cases [of p]) (auto intro: in_region_Cons)

lemma CharPool_Free_mem [pool_frame]:
  "CharPool_Free a p = Inr p' \<Longrightarrow> x < a \<or> a + 4 \<le> x \<Longrightarrow> cp_mem p' x = cp_mem p x"
  by (auto simp: CharPool_Free_def cp_write_def mem_put_outside split: if_splits)

lemma CharPool_Free_regions [pool_frame]:
  "CharPool_Free a p = Inr p' \<Longrightarrow> cp_regions p' = cp_regions p \<and> cp_brk p' = cp_brk p"
  by (auto simp: CharPool_Free_def cp_write_def split: if_splits)

lemma cp_write_frame [pool_frame]:
  "cp_write p a bs = Inr p' \<Longrightarrow>
     cp_regions p' = cp_regions p \<and> cp_brk p' = cp_brk p \<and> poolQueue p' = poolQueue p"
  by (auto simp: cp_write_def split: if_splits)

lemma cp_inv_mem [simp]: "cp_inv (p\<lparr>cp_mem := m\<rparr>) out = cp_inv p out"
  by (simp add: cp_inv_def)

lemma mp_inv_set [simp]: "mp_inv (mp_set a io p) out = mp_inv p out"
  by (simp add: mp_inv_def mp_set_def)

lemma cp_inv_wf: "cp_inv p out \<Longrightarrow> regions_wf (cp_brk p) (cp_regions p)"
  by (simp add: cp_inv_def pool_inv_def)

lemma cp_inv_bound: "cp_inv p out \<Longrightarrow> a \<in> out \<Longrightarrow> a + BLOCK_SIZE \<le> cp_brk p"
  using in_region_bound [OF cp_inv_wf cp_inv_region] by blast

lemma ok_mp_get: "mp_inv p out \<Longrightarrow> a \<in> out \<Longrightarrow> mp_get p a = Inr (mp_mem p a)"
  by (simp add: mp_get_def mp_inv_region)

lemma mp_mem_set [simp]: "mp_mem (mp_set a io p) = (mp_mem p)(a := io)"
  and mp_regions_set [simp]: "mp_regions (mp_set a io p) = mp_regions p"
  and mp_queue_set [simp]: "mp_queue (mp_set a io p) = mp_queue p"
  and mp_brk_set [simp]: "mp_brk (mp_set a io p) = mp_brk p"
  by (simp_all add: mp_set_def)

lemma ok_Malloc_Inr:
  assumes "cp_inv p out"
  obtains a p' where "CharPool_Malloc p = Inr (a, p')" "a \<notin> out" "cp_inv p' (insert a out)"
  using CharPool_Malloc_inv [OF assms] by (auto simp: ok_iff)

lemma ok_MPool_Malloc_Inr:
  assumes "mp_inv p out"
  obtains a p' where "MPool_Malloc p = Inr (a, p')" "a \<notin> out" "mp_inv p' (insert a out)"
  using MPool_Malloc_inv [OF assms] by (auto simp: ok_iff)

section \<open>Properties\<close>

text \<open>
  However many blocks are taken from the character pool, growing it when it runs dry, each is
  new, and no two of them, nor one of them and a block handed out before, share a byte.
\<close>

theorem blocks_apart:
  assumes "cp_inv p out"
  shows "ok (malloc_many CharPool_Malloc n p) (\<lambda>(as, p').
    length as = n \<and> distinct as \<and> set as \<inter> out = {} \<and> cp_inv p' (set as \<union> out) \<and>
    (\<forall>a\<in>set as. \<forall>b\<in>set as \<union> out. a = b \<or> a + BLOCK_SIZE \<le> b \<or> b + BLOCK_SIZE \<le> a))"
proof -
  obtain as p' where r: "malloc_many CharPool_Malloc n p = Inr (as, p')" "length as = n" "distinct as"
      "set as \<inter> out = {}" "cp_inv p' (set as \<union> out)"
    using cpa.malloc_many_ok [OF assms, of n] by (auto simp: ok_iff)
  then show ?thesis using cpa.malloc_many_apart [OF assms r(1)] by auto
qed

theorem blocks_apart_witness:
  "ok (malloc_many CharPool_Malloc 3 (CharPool_new (\<lambda>_. NUL) 1)) (\<lambda>(as, p').
    length as = 3 \<and> distinct as \<and> set as \<inter> {} = {} \<and> cp_inv p' (set as \<union> {}) \<and>
    (\<forall>a\<in>set as. \<forall>b\<in>set as \<union> {}. a = b \<or> a + BLOCK_SIZE \<le> b \<or> b + BLOCK_SIZE \<le> a))"
  by (rule blocks_apart [OF CharPool_new_inv]) simp

text \<open>
  A block given back and taken again still holds what its last user wrote, from the fifth
  byte on: \<open>Free\<close> clears \<open>sizeof(BLOCK_SIZE)\<close> bytes, which is four.
\<close>

theorem free_leaves_text:
  assumes inv: "cp_inv p out" and a: "a \<in> out" and q: "poolQueue p = []"
  shows "ok (sbind (CharPool_Free a p) CharPool_Malloc) (\<lambda>(b, p').
    b = a \<and> (\<forall>i<BLOCK_SIZE. cp_mem p' (a + i) = (if i < 4 then NUL else cp_mem p (a + i))))"
  using cp_inv_region [OF assms(1,2), of 4] q
  by (simp add: CharPool_Free_def CharPool_Malloc_def ConcurrentQueue_push_def
      ConcurrentQueue_empty_def ConcurrentQueue_top_def mem_put_def BLOCK_SIZE_def)

definition one_block :: CharPool where
  "one_block = \<lparr>cp_mem = (\<lambda>_. CHR ''x''), cp_regions = [(1, 1024)], cp_brk = 1025, poolQueue = []\<rparr>"

lemma one_block_inv: "cp_inv one_block {1}"
proof -
  have "block_starts 1024 [(1, 1024)] = {1}" by (auto simp: block_starts_def)
  then show ?thesis by (simp add: cp_inv_def pool_inv_def one_block_def BLOCK_SIZE_def)
qed

theorem free_leaves_text_witness:
  "ok (sbind (CharPool_Free 1 one_block) CharPool_Malloc) (\<lambda>(b, p').
    b = 1 \<and> (\<forall>i<BLOCK_SIZE. cp_mem p' (1 + i) = (if i < 4 then NUL else cp_mem one_block (1 + i))))"
  by (rule free_leaves_text [OF one_block_inv]) (simp_all add: one_block_def)

end
