(* ===== verification/BytePool.thy ===== *)
theory BytePool
  imports Pools
begin

text \<open>
  What the code that fills blocks relies on, whichever character pool the block comes from: the
  server and the clients have a \<open>CharPool\<close> class each (\<open>src/Chat/Server/CharPool.cpp\<close>,
  \<open>src/Chat/Client/CharPool.cpp\<close>) with blocks of different sizes. The locale \<open>byte_pool\<close> adds to
  \<open>block_allocator\<close> which bytes an operation may change; its lemmas say that a block is the
  property of whoever took it.
\<close>

section \<open>Contents of blocks\<close>

text \<open>The blocks of \<open>out\<close> have the same bytes in both states.\<close>

definition same_on :: "nat \<Rightarrow> nat set \<Rightarrow> CharPool \<Rightarrow> CharPool \<Rightarrow> bool" where
  "same_on bsize out cp cp' \<longleftrightarrow>
     (\<forall>b\<in>out. \<forall>x. b \<le> x \<and> x < b + bsize \<longrightarrow> cp_mem cp' x = cp_mem cp x)"

lemma same_on_refl [simp]: "same_on bsize out cp cp"
  by (simp add: same_on_def)

lemma same_on_trans:
  "same_on bsize out a b \<Longrightarrow> same_on bsize out b c \<Longrightarrow> same_on bsize out a c"
  by (simp add: same_on_def)

lemma same_on_mono: "same_on bsize out a b \<Longrightarrow> out' \<subseteq> out \<Longrightarrow> same_on bsize out' a b"
  by (auto simp: same_on_def)

text \<open>The given bytes stand at an address.\<close>

definition holds :: "CharPool \<Rightarrow> nat \<Rightarrow> char list \<Rightarrow> bool" where
  "holds cp a bs \<longleftrightarrow> (\<forall>i<length bs. cp_mem cp (a + i) = bs ! i)"

lemma holds_map: "holds cp a bs \<longleftrightarrow> map (cp_mem cp) [a..<a + length bs] = bs"
  unfolding holds_def list_eq_iff_nth_eq by simp

lemma holds_read: "holds cp a bs \<Longrightarrow> in_region (cp_regions cp) a (length bs) \<Longrightarrow>
    cp_read cp a (length bs) = Inr bs"
  by (simp add: cp_read_def holds_map)

lemma holds_append: "holds cp a (xs @ ys) \<longleftrightarrow> holds cp a xs \<and> holds cp (a + length xs) ys"
proof
  assume h: "holds cp a (xs @ ys)"
  have "cp_mem cp (a + i) = xs ! i" if "i < length xs" for i
    using h that by (auto simp: holds_def nth_append dest: spec [of _ i])
  moreover have "cp_mem cp (a + length xs + i) = ys ! i" if "i < length ys" for i
    using h that by (auto simp: holds_def nth_append add.assoc dest: spec [of _ "length xs + i"])
  ultimately show "holds cp a xs \<and> holds cp (a + length xs) ys" by (simp add: holds_def)
next
  assume h: "holds cp a xs \<and> holds cp (a + length xs) ys"
  show "holds cp a (xs @ ys)"
    unfolding holds_def
  proof (intro allI impI)
    fix i assume i: "i < length (xs @ ys)"
    show "cp_mem cp (a + i) = (xs @ ys) ! i"
    proof (cases "i < length xs")
      case False
      then have "a + length xs + (i - length xs) = a + i" by simp
      with h i False show ?thesis
        by (auto simp: holds_def nth_append dest: spec [of _ "i - length xs"])
    qed (use h in \<open>simp add: holds_def nth_append\<close>)
  qed
qed

lemma holds_same_on:
  "holds cp a bs \<Longrightarrow> same_on bsize out cp cp' \<Longrightarrow> b \<in> out \<Longrightarrow> b \<le> a \<Longrightarrow>
     a + length bs \<le> b + bsize \<Longrightarrow> holds cp' a bs"
  by (simp add: holds_def same_on_def)

section \<open>The contract\<close>

locale byte_pool = block_allocator malloc free inv bsize
  for malloc :: "CharPool \<Rightarrow> cpp_error + nat \<times> CharPool"
    and free :: "nat \<Rightarrow> CharPool \<Rightarrow> cpp_error + CharPool"
    and inv :: "CharPool \<Rightarrow> nat set \<Rightarrow> bool"
    and bsize :: nat +
  assumes inv_region: "inv p out \<Longrightarrow> a \<in> out \<Longrightarrow> in_region (cp_regions p) a bsize"
    and inv_wf: "inv p out \<Longrightarrow> regions_wf (cp_brk p) (cp_regions p)"
    and inv_mem: "inv (p\<lparr>cp_mem := m\<rparr>) out = inv p out"
    and malloc_mem: "malloc p = Inr (a, p') \<Longrightarrow> x < cp_brk p \<Longrightarrow> cp_mem p' x = cp_mem p x"
    and free_mem: "free a p = Inr p' \<Longrightarrow> x < a \<or> a + bsize \<le> x \<Longrightarrow> cp_mem p' x = cp_mem p x"
begin

lemma sub_region:
  "inv p out \<Longrightarrow> a \<in> out \<Longrightarrow> a \<le> b \<Longrightarrow> b + n \<le> a + bsize \<Longrightarrow> in_region (cp_regions p) b n"
  using in_region_sub [OF inv_region] by blast

lemma malloc_Inr:
  assumes "inv p out"
  obtains a p' where "malloc p = Inr (a, p')" "a \<notin> out" "inv p' (insert a out)"
    "same_on bsize out p p'"
proof -
  obtain a p' where m: "malloc p = Inr (a, p')" "a \<notin> out" "inv p' (insert a out)"
    using malloc_ok [OF assms] by (auto simp: ok_iff)
  have "same_on bsize out p p'"
    unfolding same_on_def
  proof (intro ballI allI impI)
    fix b x assume "b \<in> out" and "b \<le> x \<and> x < b + bsize"
    then have "x < cp_brk p"
      using in_region_bound [OF inv_wf [OF assms] inv_region [OF assms]] by fastforce
    then show "cp_mem p' x = cp_mem p x" by (rule malloc_mem [OF m(1)])
  qed
  with m show thesis by (rule that)
qed

text \<open>A block someone else holds is out of reach of a write inside block \<open>a\<close>.\<close>

lemma other_block:
  assumes "inv p (insert a out)" and "a \<notin> out" and "c \<in> out" and "c \<le> x" and "x < c + bsize"
  shows "x < a \<or> a + bsize \<le> x"
  using apart [OF assms(1), of c a] assms(2-5) by (cases "c = a") auto

lemma write_block:
  assumes i: "inv p (insert a out)" and "a \<notin> out" and "a \<le> b" "b + length bs \<le> a + bsize"
  obtains p' where "cp_write p b bs = Inr p'" "inv p' (insert a out)" "same_on bsize out p p'"
    "holds p' b bs" "cp_regions p' = cp_regions p" "cp_brk p' = cp_brk p" "poolQueue p' = poolQueue p"
    "\<And>x. x < b \<or> b + length bs \<le> x \<Longrightarrow> cp_mem p' x = cp_mem p x"
proof
  let ?p' = "p\<lparr>cp_mem := mem_put (cp_mem p) b bs\<rparr>"
  show "cp_write p b bs = Inr ?p'"
    using sub_region [OF i insertI1 assms(3,4)] by (simp add: cp_write_def)
  show "inv ?p' (insert a out)" using i by (simp add: inv_mem)
  show "same_on bsize out p ?p'"
    unfolding same_on_def
  proof (intro ballI allI impI)
    fix c x assume "c \<in> out" and "c \<le> x \<and> x < c + bsize"
    then have "x < b \<or> b + length bs \<le> x"
      using other_block [OF i assms(2), of c x] assms(3,4) by auto
    then show "cp_mem ?p' x = cp_mem p x" by (simp add: mem_put_outside)
  qed
qed (auto simp: holds_def mem_put_def)

text \<open>Filling a block from its start, one field after the other.\<close>

lemma write_next:
  assumes i: "inv p (insert a out)" and "a \<notin> out" and h: "holds p a xs"
    and "length xs + length ys \<le> bsize"
  obtains p' where "cp_write p (a + length xs) ys = Inr p'" "inv p' (insert a out)"
    "same_on bsize out p p'" "holds p' a (xs @ ys)"
proof (rule write_block [OF i assms(2), of "a + length xs" ys])
  fix p' assume w: "cp_write p (a + length xs) ys = Inr p'" "inv p' (insert a out)"
    "same_on bsize out p p'" "holds p' (a + length xs) ys"
    and old: "\<And>x. x < a + length xs \<or> a + length xs + length ys \<le> x \<Longrightarrow> cp_mem p' x = cp_mem p x"
  have "holds p' a xs" using h old unfolding holds_def by simp
  with w show thesis by (intro that) (simp_all add: holds_append)
qed (use assms(4) in auto)

lemma free_block:
  assumes i: "inv p (insert a out)" and "a \<notin> out"
  obtains p' where "free a p = Inr p'" "inv p' out" "same_on bsize out p p'"
proof -
  obtain p' where f: "free a p = Inr p'" "inv p' (insert a out - {a})"
    using free_ok [OF i insertI1] by (auto simp: ok_iff)
  have "insert a out - {a} = out" using assms(2) by blast
  moreover have "same_on bsize out p p'"
    unfolding same_on_def
  proof (intro ballI allI impI)
    fix c x assume "c \<in> out" and "c \<le> x \<and> x < c + bsize"
    then have "x < a \<or> a + bsize \<le> x" using other_block [OF i assms(2)] by blast
    then show "cp_mem p' x = cp_mem p x" by (rule free_mem [OF f(1)])
  qed
  ultimately show thesis using f that by simp
qed

text \<open>The two integers after the size field of a received packet, and what follows them.\<close>

lemma packet_fields:
  assumes inv: "inv p (insert rb out)" and "10 \<le> bsize"
    and body: "holds p (rb + 2) (bytes_of_int st @ bytes_of_int dir @ msg)"
  shows "cp_read p (rb + 2) 4 = Inr (bytes_of_int st)"
    and "cp_read p (rb + 6) 4 = Inr (bytes_of_int dir)"
    and "holds p (rb + 10) msg"
proof -
  have h: "holds p (rb + 2) (bytes_of_int st)" "holds p (rb + 6) (bytes_of_int dir)"
    "holds p (rb + 10) msg"
    using body by (simp_all add: holds_append add.commute add.left_commute)
  then show "holds p (rb + 10) msg" by simp
  have "in_region (cp_regions p) (rb + k) 4" if "k = 2 \<or> k = 6" for k
    by (rule sub_region [OF inv insertI1]) (use that assms(2) in auto)
  from this [of 2] this [of 6] show "cp_read p (rb + 2) 4 = Inr (bytes_of_int st)"
    and "cp_read p (rb + 6) 4 = Inr (bytes_of_int dir)"
    using holds_read [OF h(1)] holds_read [OF h(2)] by (simp_all del: add_2_eq_Suc')
qed

text \<open>
  The copy of \<open>DataCopy\<close>: from the eleventh byte of a received packet into a new block, after which
  the packet's block goes back; the new block then reads as the text of the packet.
\<close>

lemma copy_text:
  assumes i: "inv p (insert rb out)" and rb: "rb \<notin> out" and msg: "nul_free msg"
    and len: "length msg + 21 \<le> bsize" and body: "holds p (rb + 10) (msg @ [NUL])"
  obtains m p1 d p2 p3 where "malloc p = Inr (m, p1)"
    "cp_read p1 (rb + 10) (length msg + 11) = Inr d" "cp_write p1 m d = Inr p2"
    "free rb p2 = Inr p3" "m \<notin> out" "inv p3 (insert m out)" "same_on bsize out p p3"
    "cp_cstr p3 m = Inr msg"
proof -
  let ?B = "length msg + 11"
  obtain m p1 where m: "malloc p = Inr (m, p1)" "m \<notin> insert rb out"
      "inv p1 (insert m (insert rb out))" "same_on bsize (insert rb out) p p1"
    using malloc_Inr [OF i] .
  have tx: "holds p1 (rb + 10) (msg @ [NUL])"
    using body m(4) by (rule holds_same_on [where b = rb]) (use len in simp_all)
  let ?d = "map (cp_mem p1) [rb + 10..<rb + 10 + ?B]"
  have rd: "cp_read p1 (rb + 10) ?B = Inr ?d"
    unfolding cp_read_def using sub_region [OF m(3), of rb "rb + 10" ?B] len by simp
  have split: "?d = (msg @ [NUL]) @ drop (Suc (length msg)) ?d" (is "?d = ?t @ ?r")
  proof -
    have "?d = take (Suc (length msg)) ?d @ ?r" by (rule append_take_drop_id [symmetric])
    also have "take (Suc (length msg)) ?d = ?t"
      using tx unfolding holds_map by (simp add: take_map take_upt del: upt_Suc)
    finally show ?thesis .
  qed
  obtain p2 where w: "cp_write p1 m ?d = Inr p2" "inv p2 (insert m (insert rb out))"
      "same_on bsize (insert rb out) p1 p2" "holds p2 m ?d"
    by (rule write_block [OF m(3,2), of m ?d]) (use len in auto)
  have rbm: "rb \<notin> insert m out" using rb m(2) by auto
  have i2: "inv p2 (insert rb (insert m out))" using w(2) by (simp add: insert_commute)
  obtain p3 where f: "free rb p2 = Inr p3" "inv p3 (insert m out)" "same_on bsize (insert m out) p2 p3"
    using free_block [OF i2 rbm] .
  have "holds p3 m ?d" by (rule holds_same_on [OF w(4) f(3)]) (use len in auto)
  then have t: "holds p3 m ?t" by (subst (asm) split) (simp only: holds_append)
  have "cp_cstr p3 m = Inr msg"
  proof (rule cp_cstr_text)
    show "map (cp_mem p3) [m..<m + Suc (length msg)] = ?t" using holds_map [of p3 m ?t] t by simp
    show "in_region (cp_regions p3) m (Suc (length msg))"
      by (rule sub_region [OF f(2) insertI1]) (use len in auto)
  qed (use msg inv_wf [OF f(2)] in auto)
  moreover have "same_on bsize out p p3"
    using m(4) w(3) f(3) by (auto simp: same_on_def)
  ultimately show thesis using that [OF m(1) rd w(1) f(1)] m(2) f(2) by blast
qed

end

section \<open>The server's pool\<close>

interpretation cpb: byte_pool CharPool_Malloc CharPool_Free cp_inv BLOCK_SIZE
proof unfold_locales
  fix a x p p' assume f: "CharPool_Free a p = Inr p'" and "x < a \<or> a + BLOCK_SIZE \<le> x"
  then have "x < a \<or> a + 4 \<le> x" by (auto simp: BLOCK_SIZE_def)
  then show "cp_mem p' x = cp_mem p x" by (rule CharPool_Free_mem [OF f])
qed (auto intro: cp_inv_region cp_inv_wf CharPool_Malloc_mem)

end
