(* ===== verification/Iocp.thy ===== *)
theory Iocp
  imports BytePool
begin

text \<open>
  \<open>IocpService\<close> (\<open>src/Chat/Server/IocpService.*\<close>): building packets, posting sends and receives.

  The network is what happens to the posted operations, so the model records them: \<open>wire\<close> is the list
  of Winsock calls in the order the code makes them, a send with the bytes of its \<open>WSABUF\<close>, and of the
  structures given back after their completion. The state \<open>net\<close> holds this list and the two pools.

  \<open>copy(msg, msg + len, packet + 10)\<close> reads \<open>len\<close> = \<open>strlen(msg) + 11\<close> bytes, ten more than the text
  and its terminator. What lies there is unknown: it is the parameter \<open>past\<close>.
\<close>

section \<open>State\<close>

datatype wsa_op =
    WSASend SOCKET "char list" nat   \<comment> \<open>socket, bytes, the \<open>PER_IO_DATA\<close> used\<close>
  | WSARecv SOCKET nat
  | CloseSocket SOCKET
  | Freed nat                        \<comment> \<open>the completed \<open>PER_IO_DATA\<close> goes back to its pool\<close>

record net =
  charPool :: CharPool
  ioPool :: MPool
  wire :: "wsa_op list"

section \<open>Operations\<close>

definition OP_RECV :: int where "OP_RECV = 1"
definition OP_SEND :: int where "OP_SEND = 2"
definition OP_RECV_MORE :: int where "OP_RECV_MORE = 3"

lemmas op_defs = OP_RECV_def OP_SEND_def OP_RECV_MORE_def

text \<open>\<open>uint2 len = min((uint2)strlen(msg) + 11, BUF_SIZE)\<close>\<close>

definition packet_len :: "string \<Rightarrow> nat" where
  "packet_len msg = min (length (upto_nul msg) mod 65536 + 11) BUF_SIZE"

text \<open>The bytes that \<open>copy(msg, msg + len, \<dots>)\<close> reads.\<close>

definition text_bytes :: "(nat \<Rightarrow> char) \<Rightarrow> string \<Rightarrow> char list" where
  "text_bytes past msg = take (packet_len msg) (upto_nul msg @ NUL # map past [0..<10])"

text \<open>The writes into the packet, in the order of the code: size, status, text, direction.\<close>

definition fill_packet ::
    "(nat \<Rightarrow> char) \<Rightarrow> string \<Rightarrow> ClientStatus \<Rightarrow> nat \<Rightarrow> CharPool \<Rightarrow> cpp_error + CharPool" where
  "fill_packet past msg st packet cp =
     sbind (cp_write cp packet (bytes_of_short (int (packet_len msg)))) (\<lambda>cp.
     sbind (cp_write cp (packet + 2) (bytes_of_int (status_int st))) (\<lambda>cp.
     sbind (cp_write cp (packet + 10) (text_bytes past msg)) (\<lambda>cp.
     cp_write cp (packet + 6) (replicate 4 NUL))))"

definition SendToOneMsg ::
    "(nat \<Rightarrow> char) \<Rightarrow> string \<Rightarrow> SOCKET \<Rightarrow> ClientStatus \<Rightarrow> net \<Rightarrow> cpp_error + net" where
  "SendToOneMsg past msg mySock st n =
     sbind (MPool_Malloc (ioPool n)) (\<lambda>(ioInfo, mp).
     sbind (CharPool_Malloc (charPool n)) (\<lambda>(packet, cp).
     sbind (fill_packet past msg st packet cp) (\<lambda>cp.
     sbind (mp_get mp ioInfo) (\<lambda>io.
     sbind (cp_read cp packet (packet_len msg)) (\<lambda>bs.
     Inr (n\<lparr>charPool := cp,
            ioPool := mp_set ioInfo (io\<lparr>wsaBuf_buf := PoolBuf packet, wsaBuf_len := packet_len msg,
                                        serverMode := OP_SEND\<rparr>) mp,
            wire := wire n @ [WSASend mySock bs ioInfo]\<rparr>))))))"

text \<open>The lambda of \<open>SendToRoomMsg\<close> does the same for one member and also clears \<open>recvByte\<close>.\<close>

definition send_room_member ::
    "(nat \<Rightarrow> char) \<Rightarrow> string \<Rightarrow> ClientStatus \<Rightarrow> SOCKET \<Rightarrow> net \<Rightarrow> cpp_error + net" where
  "send_room_member past msg st sock n =
     sbind (MPool_Malloc (ioPool n)) (\<lambda>(ioInfo, mp).
     sbind (CharPool_Malloc (charPool n)) (\<lambda>(packet, cp).
     sbind (fill_packet past msg st packet cp) (\<lambda>cp.
     sbind (mp_get mp ioInfo) (\<lambda>io.
     sbind (cp_read cp packet (packet_len msg)) (\<lambda>bs.
     Inr (n\<lparr>charPool := cp,
            ioPool := mp_set ioInfo (io\<lparr>wsaBuf_buf := PoolBuf packet, wsaBuf_len := packet_len msg,
                                        serverMode := OP_SEND, recvByte := 0\<rparr>) mp,
            wire := wire n @ [WSASend sock bs ioInfo]\<rparr>))))))"

fun SendToRoomMsg ::
    "(nat \<Rightarrow> char) \<Rightarrow> string \<Rightarrow> SOCKET list \<Rightarrow> ClientStatus \<Rightarrow> net \<Rightarrow> cpp_error + net" where
  "SendToRoomMsg past msg [] st n = Inr n"
| "SendToRoomMsg past msg (s # ss) st n =
     sbind (send_room_member past msg st s n) (SendToRoomMsg past msg ss st)"

definition RecvMore :: "SOCKET \<Rightarrow> nat \<Rightarrow> net \<Rightarrow> cpp_error + net" where
  "RecvMore sock ioInfo n =
     sbind (mp_get (ioPool n) ioInfo) (\<lambda>io.
     Inr (n\<lparr>ioPool := mp_set ioInfo (io\<lparr>wsaBuf_len := BUF_SIZE, buffer := replicate BUF_SIZE NUL,
              wsaBuf_buf := OwnBuf, serverMode := OP_RECV_MORE\<rparr>) (ioPool n),
            wire := wire n @ [WSARecv sock ioInfo]\<rparr>))"

definition Recv :: "SOCKET \<Rightarrow> net \<Rightarrow> cpp_error + net" where
  "Recv sock n =
     sbind (MPool_Malloc (ioPool n)) (\<lambda>(ioInfo, mp).
     sbind (mp_get mp ioInfo) (\<lambda>io.
     Inr (n\<lparr>ioPool := mp_set ioInfo (io\<lparr>wsaBuf_len := BUF_SIZE, wsaBuf_buf := OwnBuf,
              serverMode := OP_RECV, recvByte := 0, totByte := 0, bodySize := 0\<rparr>) mp,
            wire := wire n @ [WSARecv sock ioInfo]\<rparr>)))"

section \<open>The wire format\<close>

text \<open>
  What a packet is meant to be: two bytes of total size, four of status, four of direction, the
  text and its NUL.
\<close>

definition wire_packet :: "int \<Rightarrow> int \<Rightarrow> string \<Rightarrow> char list" where
  "wire_packet st dir msg =
     bytes_of_short (int (length msg + 11)) @ bytes_of_int st @ bytes_of_int dir @ msg @ [NUL]"

lemma length_wire_packet [simp]: "length (wire_packet st dir msg) = length msg + 11"
  by (simp add: wire_packet_def)

text \<open>The longest text whose packet, with the ten extra bytes, fits a block.\<close>

definition MAX_TEXT :: nat where "MAX_TEXT = 1003"

lemma packet_len_short: "nul_free msg \<Longrightarrow> length msg \<le> MAX_TEXT \<Longrightarrow>
    packet_len msg = length msg + 11"
  by (simp add: packet_len_def upto_nul_id MAX_TEXT_def BUF_SIZE_def)

lemma text_bytes_short: "nul_free msg \<Longrightarrow> length msg \<le> MAX_TEXT \<Longrightarrow>
    text_bytes past msg = msg @ NUL # map past [0..<10]"
proof -
  assume msg: "nul_free msg" "length msg \<le> MAX_TEXT"
  have "length (msg @ NUL # map past [0..<10]) \<le> length msg + 11" by (simp only: list.size length_append length_map length_upt)
  then show ?thesis
    by (simp only: text_bytes_def packet_len_short [OF msg] upto_nul_id [OF msg(1)] take_all)
qed

lemma le_bytes_0: "le_bytes n 0 = replicate n NUL"
  by (induction n) (simp_all add: char_of_def)

lemma bytes_of_int_0: "bytes_of_int 0 = replicate 4 NUL"
  by (simp add: bytes_of_int_def le_bytes_0)

section \<open>Filling a packet\<close>

text \<open>The block after the four writes: the packet and the ten stray bytes behind it.\<close>

lemma fill_packet_ok:
  assumes inv: "cp_inv cp out" and a: "a \<in> out"
    and msg: "nul_free msg" "length msg \<le> MAX_TEXT"
  shows "ok (fill_packet past msg st a cp) (\<lambda>cp'.
    cp_inv cp' out \<and>
    map (cp_mem cp') [a..<a + (length msg + 11)] = wire_packet (status_int st) 0 msg \<and>
    (\<forall>x. x < a \<or> a + BLOCK_SIZE \<le> x \<longrightarrow> cp_mem cp' x = cp_mem cp x) \<and>
    cp_regions cp' = cp_regions cp \<and> poolQueue cp' = poolQueue cp)"
proof -
  let ?L = "bytes_of_short (int (length msg + 11))" and ?S = "bytes_of_int (status_int st)"
  let ?T = "msg @ NUL # map past [0..<10]"
  let ?m = "mem_put (mem_put (mem_put (mem_put (cp_mem cp) a ?L) (a + 2) ?S) (a + 10) ?T) (a + 6)
              (replicate 4 NUL)"
  have reg: "in_region (cp_regions cp) b n" if "a \<le> b" "b + n \<le> a + BLOCK_SIZE" for b n
    using in_region_sub [OF cp_inv_region [OF inv a le_refl]] that by blast
  have "map ?m [a..<a + (length msg + 11)] = wire_packet (status_int st) 0 msg"
  proof (rule nth_equalityI)
    fix i assume "i < length (map ?m [a..<a + (length msg + 11)])"
    then have i: "i < length msg + 11" by simp
    consider "i < 2" | "2 \<le> i" "i < 6" | "6 \<le> i" "i < 10" | "10 \<le> i" by linarith
    then show "map ?m [a..<a + (length msg + 11)] ! i = wire_packet (status_int st) 0 msg ! i"
      using i by cases
        (auto simp: wire_packet_def bytes_of_int_0 mem_put_def nth_append nth_Cons')
  qed simp
  moreover have "\<forall>x. x < a \<or> a + BLOCK_SIZE \<le> x \<longrightarrow> ?m x = cp_mem cp x"
    using msg(2) by (auto simp: mem_put_def MAX_TEXT_def BLOCK_SIZE_def)
  ultimately show ?thesis
    using reg inv msg
    by (simp add: fill_packet_def packet_len_short text_bytes_short BLOCK_SIZE_def MAX_TEXT_def)
qed

text \<open>
  A text of more than 1003 bytes does not fit: when the memory behind the block is allocated,
  no error is seen, and the text, its terminator and the ten bytes read behind it go on in the next
  block, whoever holds it.
\<close>

theorem long_text_overruns_block:
  assumes inv: "cp_inv cp out" and a: "a \<in> out"
    and msg: "nul_free msg" "MAX_TEXT < length msg" "length msg + 11 \<le> BUF_SIZE"
    and reg: "in_region (cp_regions cp) a (length msg + 21)"
  shows "ok (fill_packet past msg st a cp) (\<lambda>cp'. \<forall>j. BLOCK_SIZE \<le> j \<and> j < length msg + 21 \<longrightarrow>
    cp_mem cp' (a + j) = (msg @ NUL # map past [0..<10]) ! (j - 10))"
proof -
  have len: "packet_len msg = length msg + 11"
    using msg by (simp add: packet_len_def upto_nul_id BUF_SIZE_def)
  have "length (msg @ NUL # map past [0..<10]) \<le> length msg + 11"
    by (simp only: list.size length_append length_map length_upt)
  then have T: "text_bytes past msg = msg @ NUL # map past [0..<10]"
    by (simp only: text_bytes_def len upto_nul_id [OF msg(1)] take_all)
  have "in_region (cp_regions cp) b n" if "a \<le> b" "b + n \<le> a + (length msg + 21)" for b n
    using in_region_sub [OF reg that] .
  moreover have "mem_put m (a + 10) (text_bytes past msg) (a + j) =
      (msg @ NUL # map past [0..<10]) ! (j - 10)" if "BLOCK_SIZE \<le> j" "j < length msg + 21" for m j
    using that unfolding T by (simp add: mem_put_def BLOCK_SIZE_def)
  moreover have "mem_put m (a + 6) (replicate 4 NUL) (a + j) = m (a + j)" if "BLOCK_SIZE \<le> j" for m j
    using that by (simp add: mem_put_def BLOCK_SIZE_def)
  ultimately show ?thesis
    using msg(2) by (simp add: fill_packet_def T MAX_TEXT_def)
qed

definition two_blocks :: CharPool where
  "two_blocks = \<lparr>cp_mem = (\<lambda>_. CHR ''x''), cp_regions = [(1, 2048)], cp_brk = 2049, poolQueue = []\<rparr>"

lemma two_blocks_inv: "cp_inv two_blocks {1, 1025}"
proof -
  have "block_starts 1024 [(1, 2048)] = {1, 1025}" by (auto simp: block_starts_def)
  then show ?thesis by (simp add: cp_inv_def pool_inv_def two_blocks_def BLOCK_SIZE_def)
qed

theorem long_text_overruns_block_witness:
  "ok (fill_packet (\<lambda>_. NUL) (replicate 1100 (CHR ''y'')) STATUS_WAITING 1 two_blocks)
     (\<lambda>cp'. cp_mem cp' 1025 = CHR ''y'')"
proof -
  have "ok (fill_packet (\<lambda>_. NUL) (replicate 1100 (CHR ''y'')) STATUS_WAITING 1 two_blocks) (\<lambda>cp'.
      \<forall>j. BLOCK_SIZE \<le> j \<and> j < length (replicate 1100 (CHR ''y'')) + 21 \<longrightarrow>
        cp_mem cp' (1 + j) = (replicate 1100 (CHR ''y'') @ NUL # map (\<lambda>_. NUL) [0..<10]) ! (j - 10))"
    by (rule long_text_overruns_block [OF two_blocks_inv])
       (simp_all add: nul_free_def MAX_TEXT_def BUF_SIZE_def two_blocks_def in_region_def)
  then show ?thesis by (rule ok_mono) (auto simp: BLOCK_SIZE_def nth_append dest: spec [of _ 1024])
qed

section \<open>Sending\<close>

text \<open>What went out: the sends of the log, without the structures used.\<close>

fun sends :: "wsa_op list \<Rightarrow> (SOCKET \<times> char list) list" where
  "sends [] = []"
| "sends (WSASend s bs _ # ops) = (s, bs) # sends ops"
| "sends (_ # ops) = sends ops"

lemma sends_append [simp]: "sends (xs @ ys) = sends xs @ sends ys"
  by (induction xs rule: sends.induct) auto

text \<open>The blocks of \<open>out\<close> keep their contents.\<close>

abbreviation same_blocks :: "nat set \<Rightarrow> CharPool \<Rightarrow> CharPool \<Rightarrow> bool" where
  "same_blocks \<equiv> same_on BLOCK_SIZE"

lemmas same_blocks_trans = same_on_trans [of BLOCK_SIZE]
lemmas same_blocks_mono = same_on_mono [of BLOCK_SIZE]

lemma Malloc_same_blocks:
  "cp_inv p out \<Longrightarrow> CharPool_Malloc p = Inr (a, p') \<Longrightarrow> same_blocks out p p'"
  by (rule cpb.malloc_Inr [of p out]) auto

text \<open>The pools of a \<open>net\<close>, with the ghost sets of handed-out blocks.\<close>

definition net_inv :: "net \<Rightarrow> nat set \<Rightarrow> nat set \<Rightarrow> bool" where
  "net_inv n co mo \<longleftrightarrow> cp_inv (charPool n) co \<and> mp_inv (ioPool n) mo"

text \<open>The common part of the two senders: a packet in a new block, posted with a new structure.\<close>

lemma packet_block_ok:
  assumes inv: "cp_inv cp co" and msg: "nul_free msg" "length msg \<le> MAX_TEXT"
  shows "\<exists>a cp1 cp2. CharPool_Malloc cp = Inr (a, cp1) \<and> fill_packet past msg st a cp1 = Inr cp2 \<and>
    a \<notin> co \<and> cp_inv cp2 (insert a co) \<and> same_blocks co cp cp2 \<and>
    cp_read cp2 a (packet_len msg) = Inr (wire_packet (status_int st) 0 msg)"
proof -
  obtain a cp1 where m: "CharPool_Malloc cp = Inr (a, cp1)" "a \<notin> co" "cp_inv cp1 (insert a co)"
    using ok_Malloc_Inr [OF inv] by blast
  obtain cp2 where f: "fill_packet past msg st a cp1 = Inr cp2" "cp_inv cp2 (insert a co)"
      "map (cp_mem cp2) [a..<a + (length msg + 11)] = wire_packet (status_int st) 0 msg"
      "\<forall>x. x < a \<or> a + BLOCK_SIZE \<le> x \<longrightarrow> cp_mem cp2 x = cp_mem cp1 x"
      "cp_regions cp2 = cp_regions cp1"
    using fill_packet_ok [OF m(3) _ msg, of a past st] by (auto simp: ok_iff)
  have "same_blocks co cp1 cp2"
    unfolding same_on_def
  proof (intro ballI allI impI)
    fix b x assume "b \<in> co" and x: "b \<le> x \<and> x < b + BLOCK_SIZE"
    then have "b + BLOCK_SIZE \<le> a \<or> a + BLOCK_SIZE \<le> b"
      using cp_inv_apart [OF m(3), of b a] m(2) by auto
    with x f(4) show "cp_mem cp2 x = cp_mem cp1 x" by auto
  qed
  then have "same_blocks co cp cp2" using Malloc_same_blocks [OF inv m(1)] same_blocks_trans by blast
  moreover have "in_region (cp_regions cp2) a (packet_len msg)"
    using cp_inv_region [OF f(2)] msg
    by (simp add: packet_len_short [OF msg] BLOCK_SIZE_def MAX_TEXT_def)
  ultimately show ?thesis using m f by (auto simp: cp_read_def packet_len_short [OF msg])
qed

definition posted ::
    "net \<Rightarrow> nat set \<Rightarrow> nat set \<Rightarrow> (SOCKET \<times> char list) list \<Rightarrow> net \<Rightarrow> bool" where
  "posted n co mo ss n' \<longleftrightarrow>
     (\<exists>co' mo'. co \<subseteq> co' \<and> mo \<subseteq> mo' \<and> net_inv n' co' mo') \<and>
     same_blocks co (charPool n) (charPool n') \<and>
     (\<forall>b\<in>mo. mp_mem (ioPool n') b = mp_mem (ioPool n) b) \<and>
     sends (wire n') = sends (wire n) @ ss"

lemma MPool_Malloc_mem:
  "mp_inv p out \<Longrightarrow> MPool_Malloc p = Inr (a, p') \<Longrightarrow> b \<in> out \<Longrightarrow> mp_mem p' b = mp_mem p b"
proof (cases rule: MPool_Malloc_cases [of p])
  case 2
  assume inv: "mp_inv p out" and "MPool_Malloc p = Inr (a, p')" and b: "b \<in> out"
  have "b + sizeof_PER_IO_DATA \<le> mp_brk p"
    using in_region_bound [OF _ mp_inv_region [OF inv b]] inv by (auto simp: mp_inv_def pool_inv_def)
  then have "b < mp_brk p" using sizeof_pos by linarith
  with 2 \<open>MPool_Malloc p = Inr (a, p')\<close> show ?thesis by (auto simp: MPool_grow_def)
qed auto

text \<open>The state after one packet has been posted, by either sender.\<close>

definition packet_posted ::
    "net \<Rightarrow> nat set \<Rightarrow> nat set \<Rightarrow> SOCKET \<Rightarrow> char list \<Rightarrow> net \<Rightarrow> bool" where
  "packet_posted n co mo sock bs n' \<longleftrightarrow>
     (\<exists>i a mp io.
        i \<notin> mo \<and> a \<notin> co \<and> cp_inv (charPool n') (insert a co) \<and> mp_inv mp (insert i mo) \<and>
        same_blocks co (charPool n) (charPool n') \<and>
        MPool_Malloc (ioPool n) = Inr (i, mp) \<and> (\<forall>b\<in>mo. mp_mem mp b = mp_mem (ioPool n) b) \<and>
        ioPool n' = mp_set i io mp \<and> serverMode io = OP_SEND \<and> wsaBuf_buf io = PoolBuf a \<and>
        buffer io = buffer (mp_mem mp i) \<and>
        wire n' = wire n @ [WSASend sock bs i])"

lemma send_posts:
  assumes inv: "net_inv n co mo" and msg: "nul_free msg" "length msg \<le> MAX_TEXT"
  shows "ok (SendToOneMsg past msg sock st n)
           (packet_posted n co mo sock (wire_packet (status_int st) 0 msg))"
    and "ok (send_room_member past msg st sock n)
           (packet_posted n co mo sock (wire_packet (status_int st) 0 msg))"
proof -
  obtain i mp where mp: "MPool_Malloc (ioPool n) = Inr (i, mp)" "i \<notin> mo" "mp_inv mp (insert i mo)"
    using inv by (auto simp: net_inv_def elim: ok_MPool_Malloc_Inr)
  obtain a cp1 cp2 where cp: "CharPool_Malloc (charPool n) = Inr (a, cp1)"
      "fill_packet past msg st a cp1 = Inr cp2" "a \<notin> co" "cp_inv cp2 (insert a co)"
      "same_blocks co (charPool n) cp2"
      "cp_read cp2 a (packet_len msg) = Inr (wire_packet (status_int st) 0 msg)"
    using packet_block_ok [OF _ msg] inv unfolding net_inv_def by blast
  have mem: "mp_mem mp b = mp_mem (ioPool n) b" if "b \<in> mo" for b
    using MPool_Malloc_mem [OF _ mp(1) that] inv by (simp add: net_inv_def)
  have get: "mp_get mp i = Inr (mp_mem mp i)" using ok_mp_get [OF mp(3)] by simp
  have post: "packet_posted n co mo sock (wire_packet (status_int st) 0 msg)
      (n\<lparr>charPool := cp2, ioPool := mp_set i io mp,
         wire := wire n @ [WSASend sock (wire_packet (status_int st) 0 msg) i]\<rparr>)"
    if "serverMode io = OP_SEND" "wsaBuf_buf io = PoolBuf a" "buffer io = buffer (mp_mem mp i)" for io
    unfolding packet_posted_def
    using mp cp(3-5) mem that
    by (intro exI [of _ i] exI [of _ a] exI [of _ mp] exI [of _ io]) simp
  show "ok (SendToOneMsg past msg sock st n)
          (packet_posted n co mo sock (wire_packet (status_int st) 0 msg))"
    and "ok (send_room_member past msg st sock n)
          (packet_posted n co mo sock (wire_packet (status_int st) 0 msg))"
    unfolding SendToOneMsg_def send_room_member_def
    using mp(1) cp(1,2,6) get post by simp_all
qed

lemma packet_posted_posted:
  assumes "net_inv n co mo" and "packet_posted n co mo sock bs n'"
  shows "posted n co mo [(sock, bs)] n'"
proof -
  obtain i a mp io where p: "i \<notin> mo" "a \<notin> co" "cp_inv (charPool n') (insert a co)"
      "mp_inv mp (insert i mo)" "same_blocks co (charPool n) (charPool n')"
      "\<forall>b\<in>mo. mp_mem mp b = mp_mem (ioPool n) b" "ioPool n' = mp_set i io mp"
      "wire n' = wire n @ [WSASend sock bs i]"
    using assms(2) unfolding packet_posted_def by blast
  then show ?thesis
    unfolding posted_def net_inv_def
    by (intro conjI exI [of _ "insert a co"] exI [of _ "insert i mo"]) auto
qed

lemma posted_one:
  assumes inv: "net_inv n co mo" and msg: "nul_free msg" "length msg \<le> MAX_TEXT"
  shows "ok (SendToOneMsg past msg sock st n)
           (posted n co mo [(sock, wire_packet (status_int st) 0 msg)])"
    and "ok (send_room_member past msg st sock n)
           (posted n co mo [(sock, wire_packet (status_int st) 0 msg)])"
  using send_posts [OF inv msg] packet_posted_posted [OF inv] by (blast intro: ok_mono)+

lemma posted_refl: "net_inv n co mo \<Longrightarrow> posted n co mo [] n"
  by (auto simp: posted_def)

lemma posted_trans:
  assumes "posted n co mo ss n1"
    and "\<And>co1 mo1. net_inv n1 co1 mo1 \<Longrightarrow> ok m (posted n1 co1 mo1 ts)"
  shows "ok m (posted n co mo (ss @ ts))"
proof -
  obtain co1 mo1 where 1: "co \<subseteq> co1" "mo \<subseteq> mo1" "net_inv n1 co1 mo1"
    using assms(1) by (auto simp: posted_def)
  have "posted n co mo (ss @ ts) n2" if "posted n1 co1 mo1 ts n2" for n2
    unfolding posted_def
  proof (intro conjI ballI)
    show "\<exists>co' mo'. co \<subseteq> co' \<and> mo \<subseteq> mo' \<and> net_inv n2 co' mo'"
      using 1(1,2) that unfolding posted_def by (meson order_trans)
    show "same_blocks co (charPool n) (charPool n2)"
    proof (rule same_blocks_trans)
      show "same_blocks co (charPool n) (charPool n1)" using assms(1) by (simp add: posted_def)
      show "same_blocks co (charPool n1) (charPool n2)"
        using that 1(1) by (auto simp: posted_def intro: same_blocks_mono)
    qed
    show "mp_mem (ioPool n2) b = mp_mem (ioPool n) b" if "b \<in> mo" for b
      using assms(1) \<open>posted n1 co1 mo1 ts n2\<close> 1(2) that unfolding posted_def by auto
    show "sends (wire n2) = sends (wire n) @ ss @ ts"
      using assms(1) that by (simp add: posted_def)
  qed
  then show ?thesis using assms(2) [OF 1(3)] by (rule ok_mono [rotated])
qed

text \<open>A room message goes to every member of the list, once, in order, with the same bytes.\<close>

lemma posted_room:
  assumes "net_inv n co mo" and msg: "nul_free msg" "length msg \<le> MAX_TEXT"
  shows "ok (SendToRoomMsg past msg ss st n)
           (posted n co mo (map (\<lambda>s. (s, wire_packet (status_int st) 0 msg)) ss))"
  using assms(1)
proof (induction ss arbitrary: n co mo)
  case Nil
  then show ?case by (simp add: posted_refl)
next
  case (Cons s ss)
  obtain n1 where n1: "send_room_member past msg st s n = Inr n1"
      "posted n co mo [(s, wire_packet (status_int st) 0 msg)] n1"
    using posted_one(2) [OF Cons.prems msg, of past st s] unfolding ok_iff by blast
  show ?case using posted_trans [OF n1(2) Cons.IH] n1(1) by simp
qed

text \<open>Posting a receive.\<close>

lemma Recv_ok:
  assumes "net_inv n co mo"
  shows "ok (Recv sock n) (\<lambda>n'. \<exists>i. i \<notin> mo \<and> net_inv n' co (insert i mo) \<and>
    charPool n' = charPool n \<and> wire n' = wire n @ [WSARecv sock i] \<and>
    serverMode (mp_mem (ioPool n') i) = OP_RECV \<and> bodySize (mp_mem (ioPool n') i) = 0 \<and>
    recvByte (mp_mem (ioPool n') i) = 0 \<and>
    (\<forall>b\<in>mo. mp_mem (ioPool n') b = mp_mem (ioPool n) b))"
proof -
  obtain i mp where mp: "MPool_Malloc (ioPool n) = Inr (i, mp)" "i \<notin> mo" "mp_inv mp (insert i mo)"
    using assms by (auto simp: net_inv_def elim: ok_MPool_Malloc_Inr)
  moreover have "mp_mem mp b = mp_mem (ioPool n) b" if "b \<in> mo" for b
    using MPool_Malloc_mem [OF _ mp(1) that] assms by (simp add: net_inv_def)
  ultimately show ?thesis
    using assms ok_mp_get [OF mp(3)] by (auto simp: Recv_def net_inv_def)
qed

lemma RecvMore_ok:
  assumes "net_inv n co mo" and "i \<in> mo"
  shows "ok (RecvMore sock i n) (\<lambda>n'. net_inv n' co mo \<and> charPool n' = charPool n \<and>
    wire n' = wire n @ [WSARecv sock i] \<and>
    mp_mem (ioPool n') i = (mp_mem (ioPool n) i)\<lparr>wsaBuf_len := BUF_SIZE,
      buffer := replicate BUF_SIZE NUL, wsaBuf_buf := OwnBuf, serverMode := OP_RECV_MORE\<rparr>)"
  using assms ok_mp_get [of "ioPool n" mo i] by (simp add: RecvMore_def net_inv_def)

section \<open>Ownership\<close>

text \<open>
  A structure belongs to a posted operation from the call that posts it until the thread that handles
  its completion gives it back. The invariant of the two pools: every structure handed out belongs to
  a posted receive (\<open>R\<close>) or to a posted send, and every packet block handed out belongs to exactly one
  posted send (\<open>S\<close>) or was lost (\<open>L\<close>: a failed send gives back its structure only). So no block is
  used twice or freed twice.
\<close>

fun pending_from :: "nat set \<Rightarrow> wsa_op list \<Rightarrow> nat set" where
  "pending_from P [] = P"
| "pending_from P (op # ops) =
     pending_from
       (case op of
          WSASend _ _ i \<Rightarrow> insert i P
        | WSARecv _ i \<Rightarrow> insert i P
        | CloseSocket _ \<Rightarrow> P
        | Freed i \<Rightarrow> P - {i}) ops"

definition pending :: "net \<Rightarrow> nat set" where
  "pending n = pending_from {} (wire n)"

lemma pending_from_append [simp]:
  "pending_from P (xs @ ys) = pending_from (pending_from P xs) ys"
  by (induction xs arbitrary: P) auto

text \<open>Every structure has its buffer of \<open>BUF_SIZE\<close> bytes: the type of the array.\<close>

definition io_typed :: "MPool \<Rightarrow> bool" where
  "io_typed p \<longleftrightarrow> (\<forall>a. length (buffer (mp_mem p a)) = BUF_SIZE)"

definition owns :: "net \<Rightarrow> nat set \<Rightarrow> (nat \<rightharpoonup> nat) \<Rightarrow> nat set \<Rightarrow> bool" where
  "owns n R S L \<longleftrightarrow>
     net_inv n (ran S \<union> L) (R \<union> dom S) \<and> R \<inter> dom S = {} \<and> ran S \<inter> L = {} \<and> inj_on S (dom S) \<and>
     pending n = R \<union> dom S \<and> io_typed (ioPool n) \<and>
     (\<forall>i\<in>R. serverMode (mp_mem (ioPool n) i) = OP_RECV \<and> wsaBuf_buf (mp_mem (ioPool n) i) = OwnBuf) \<and>
     (\<forall>i a. S i = Some a \<longrightarrow> serverMode (mp_mem (ioPool n) i) = OP_SEND \<and>
        wsaBuf_buf (mp_mem (ioPool n) i) = PoolBuf a)"

definition net_ok :: "net \<Rightarrow> bool" where
  "net_ok n \<longleftrightarrow> (\<exists>R S L. owns n R S L)"

lemma net_ok_inv:
  assumes "net_ok n"
  obtains co mo where "net_inv n co mo"
  using assms by (auto simp: net_ok_def owns_def)

lemma io_typed_Malloc: "io_typed p \<Longrightarrow> MPool_Malloc p = Inr (a, p') \<Longrightarrow> io_typed p'"
  by (cases rule: MPool_Malloc_cases [of p])
     (auto simp: io_typed_def MPool_grow_def zero_io_def)

lemma io_typed_set: "io_typed p \<Longrightarrow> length (buffer io) = BUF_SIZE \<Longrightarrow> io_typed (mp_set i io p)"
  by (simp add: io_typed_def)

lemma inj_on_map_upd:
  "inj_on S (dom S) \<Longrightarrow> a \<notin> ran S \<Longrightarrow> inj_on (S(i \<mapsto> a)) (dom (S(i \<mapsto> a)))"
  by (auto simp: inj_on_def ran_def dom_def)

lemma ran_unset:
  assumes "inj_on S (dom S)" and "S i = Some a"
  shows "ran (S(i := None)) = ran S - {a}"
proof (intro equalityI subsetI)
  fix b assume "b \<in> ran (S(i := None))"
  then obtain j where "j \<noteq> i" "S j = Some b" by (auto simp: ran_def split: if_splits)
  moreover from this have "b \<noteq> a" using assms by (auto simp: inj_on_def dom_def)
  ultimately show "b \<in> ran S - {a}" by (auto simp: ran_def)
next
  fix b assume "b \<in> ran S - {a}"
  then obtain j where "S j = Some b" "b \<noteq> a" by (auto simp: ran_def)
  then have "(S(i := None)) j = Some b" using assms(2) by auto
  then show "b \<in> ran (S(i := None))" by (rule ranI)
qed

lemma owns_send:
  assumes o: "owns n R S L" and p: "packet_posted n (ran S \<union> L) (R \<union> dom S) sock bs n'"
  shows "net_ok n'"
proof -
  obtain i a mp io where q: "i \<notin> R \<union> dom S" "a \<notin> ran S \<union> L"
      "cp_inv (charPool n') (insert a (ran S \<union> L))"
      "mp_inv mp (insert i (R \<union> dom S))" "MPool_Malloc (ioPool n) = Inr (i, mp)"
      "\<forall>b\<in>R \<union> dom S. mp_mem mp b = mp_mem (ioPool n) b"
      "ioPool n' = mp_set i io mp" "serverMode io = OP_SEND" "wsaBuf_buf io = PoolBuf a"
      "buffer io = buffer (mp_mem mp i)" "wire n' = wire n @ [WSASend sock bs i]"
    using p unfolding packet_posted_def by blast
  have typed: "io_typed mp" using o q(5) io_typed_Malloc by (auto simp: owns_def)
  have "S i = None" using q(1) by auto
  then have "ran (S(i \<mapsto> a)) = insert a (ran S)" by (rule ran_map_upd)
  then have ran: "ran (S(i \<mapsto> a)) \<union> L = insert a (ran S \<union> L)" by simp
  have dom: "R \<union> dom (S(i \<mapsto> a)) = insert i (R \<union> dom S)" by auto
  have "owns n' R (S(i \<mapsto> a)) L"
    unfolding owns_def net_inv_def ran dom
  proof (intro conjI)
    show "inj_on (S(i \<mapsto> a)) (dom (S(i \<mapsto> a)))"
      using o q(2) by (intro inj_on_map_upd) (simp_all add: owns_def)
    show "ran (S(i \<mapsto> a)) \<inter> L = {}"
      using o q(2) \<open>ran (S(i \<mapsto> a)) = insert a (ran S)\<close> by (auto simp: owns_def)
    show "io_typed (ioPool n')"
      unfolding q(7) using typed q(10) by (intro io_typed_set) (simp_all add: io_typed_def)
    show "pending n' = insert i (R \<union> dom S)" using o by (simp add: pending_def q(11) owns_def)
    show "\<forall>i\<in>R. serverMode (mp_mem (ioPool n') i) = OP_RECV \<and>
        wsaBuf_buf (mp_mem (ioPool n') i) = OwnBuf"
      using o q(1,6) by (auto simp: q(7) owns_def)
    show "\<forall>j b. (S(i \<mapsto> a)) j = Some b \<longrightarrow> serverMode (mp_mem (ioPool n') j) = OP_SEND \<and>
        wsaBuf_buf (mp_mem (ioPool n') j) = PoolBuf b"
    proof (intro allI impI)
      fix j b assume j: "(S(i \<mapsto> a)) j = Some b"
      show "serverMode (mp_mem (ioPool n') j) = OP_SEND \<and>
          wsaBuf_buf (mp_mem (ioPool n') j) = PoolBuf b"
      proof (cases "j = i")
        case True
        with j q(8,9) show ?thesis by (simp add: q(7))
      next
        case False
        with j have "S j = Some b" by simp
        moreover from this have "mp_mem mp j = mp_mem (ioPool n) j" using q(6) by auto
        ultimately show ?thesis using o False by (simp add: q(7) owns_def)
      qed
    qed
  qed (use o q in \<open>auto simp: owns_def\<close>)
  then show ?thesis by (auto simp: net_ok_def)
qed

lemma net_ok_one:
  assumes n: "net_ok n" and msg: "nul_free msg" "length msg \<le> MAX_TEXT"
  shows "ok (SendToOneMsg past msg sock st n) net_ok"
    and "ok (send_room_member past msg st sock n) net_ok"
proof -
  obtain R S L where o: "owns n R S L" using n by (auto simp: net_ok_def)
  then have inv: "net_inv n (ran S \<union> L) (R \<union> dom S)" by (simp add: owns_def)
  show "ok (SendToOneMsg past msg sock st n) net_ok"
    and "ok (send_room_member past msg st sock n) net_ok"
    using send_posts [OF inv msg] owns_send [OF o] by (blast intro: ok_mono)+
qed

lemma net_ok_room:
  assumes "net_ok n" and msg: "nul_free msg" "length msg \<le> MAX_TEXT"
  shows "ok (SendToRoomMsg past msg ss st n) net_ok"
  using assms(1)
proof (induction ss arbitrary: n)
  case (Cons s ss)
  have "ok (send_room_member past msg st s n) (\<lambda>n'. ok (SendToRoomMsg past msg ss st n') net_ok)"
    using net_ok_one(2) [OF Cons.prems msg] Cons.IH by (rule ok_mono)
  then show ?case by simp
qed simp

lemma net_ok_recv:
  assumes "net_ok n"
  shows "ok (Recv sock n) (\<lambda>n'. net_ok n' \<and> sends (wire n') = sends (wire n))"
proof -
  obtain R S L where o: "owns n R S L" using assms by (auto simp: net_ok_def)
  then have inv: "mp_inv (ioPool n) (R \<union> dom S)" by (simp add: owns_def net_inv_def)
  obtain i mp where mp: "MPool_Malloc (ioPool n) = Inr (i, mp)" "i \<notin> R \<union> dom S"
      "mp_inv mp (insert i (R \<union> dom S))"
    using ok_MPool_Malloc_Inr [OF inv] by blast
  have mem: "mp_mem mp b = mp_mem (ioPool n) b" if "b \<in> R \<union> dom S" for b
    using MPool_Malloc_mem [OF inv mp(1) that] .
  have typed: "io_typed mp" using o mp(1) io_typed_Malloc by (auto simp: owns_def)
  let ?io = "(mp_mem mp i)\<lparr>wsaBuf_len := BUF_SIZE, wsaBuf_buf := OwnBuf, serverMode := OP_RECV,
      recvByte := 0, totByte := 0, bodySize := 0\<rparr>"
  let ?n' = "n\<lparr>ioPool := mp_set i ?io mp, wire := wire n @ [WSARecv sock i]\<rparr>"
  have run: "Recv sock n = Inr ?n'" using mp(1) ok_mp_get [OF mp(3)] by (simp add: Recv_def)
  have "mp_inv mp (insert i R \<union> dom S)" using mp(3) by simp
  moreover have "io_typed (mp_set i ?io mp)"
    using typed by (intro io_typed_set) (simp_all add: io_typed_def)
  moreover have "i \<noteq> j" if "S j = Some b" for j b using mp(2) that by auto
  ultimately have "owns ?n' (insert i R) S L"
    using o mp(2) mem by (auto simp: owns_def net_inv_def pending_def domI)
  then show ?thesis unfolding run by (auto simp: net_ok_def)
qed

text \<open>Giving structures and blocks back.\<close>

definition give_back :: "nat \<Rightarrow> net \<Rightarrow> cpp_error + net" where
  "give_back i n =
     sbind (MPool_Free i (ioPool n)) (\<lambda>mp. Inr (n\<lparr>ioPool := mp, wire := wire n @ [Freed i]\<rparr>))"

lemma MPool_Free_eq:
  assumes "mp_inv p out" and "i \<in> out"
  shows "MPool_Free i p = Inr (p\<lparr>mp_mem := (mp_mem p)(i := zero_io), mp_queue := mp_queue p @ [i]\<rparr>)"
    and "mp_inv (p\<lparr>mp_mem := (mp_mem p)(i := zero_io), mp_queue := mp_queue p @ [i]\<rparr>) (out - {i})"
proof -
  show eq: "MPool_Free i p = Inr (p\<lparr>mp_mem := (mp_mem p)(i := zero_io), mp_queue := mp_queue p @ [i]\<rparr>)"
    using mp_inv_region [OF assms] by (simp add: MPool_Free_def ConcurrentQueue_push_def)
  show "mp_inv (p\<lparr>mp_mem := (mp_mem p)(i := zero_io), mp_queue := mp_queue p @ [i]\<rparr>) (out - {i})"
    using mpa.free_ok [OF assms] unfolding eq by simp
qed

lemma io_typed_zero: "io_typed p \<Longrightarrow> io_typed (p\<lparr>mp_mem := (mp_mem p)(i := zero_io), mp_queue := q\<rparr>)"
  by (simp add: io_typed_def zero_io_def)

text \<open>A receive ends: its structure is free again.\<close>

lemma give_back_recv:
  assumes o: "owns n R S L" and i: "i \<in> R"
  obtains n' where "give_back i n = Inr n'" "owns n' (R - {i}) S L"
    "sends (wire n') = sends (wire n)"
proof -
  have inv: "mp_inv (ioPool n) (R \<union> dom S)" "i \<in> R \<union> dom S"
    using o i by (simp_all add: owns_def net_inv_def)
  have eq: "R \<union> dom S - {i} = R - {i} \<union> dom S" using o i by (auto simp: owns_def)
  note free = MPool_Free_eq [OF inv]
  have "i \<noteq> j" if "S j = Some a" for j a using o i that by (auto simp: owns_def)
  then have "owns (n\<lparr>ioPool := (ioPool n)\<lparr>mp_mem := (mp_mem (ioPool n))(i := zero_io),
      mp_queue := mp_queue (ioPool n) @ [i]\<rparr>, wire := wire n @ [Freed i]\<rparr>) (R - {i}) S L"
    using o free(2) eq by (auto simp: owns_def net_inv_def pending_def intro: io_typed_zero)
  then show thesis using that free(1) by (simp add: give_back_def)
qed

text \<open>A send ends: the packet block is free (\<open>a\<close> removed from \<open>S\<close>) or lost.\<close>

lemma give_back_send:
  assumes o: "owns n R S L" and i: "S i = Some a"
    and cp: "cp_inv cp (ran (S(i := None)) \<union> L')" and L': "L' = L \<or> L' = insert a L"
  obtains n' where "give_back i (n\<lparr>charPool := cp\<rparr>) = Inr n'" "owns n' R (S(i := None)) L'"
    "sends (wire n') = sends (wire n)"
proof -
  have inv: "mp_inv (ioPool n) (R \<union> dom S)" "i \<in> R \<union> dom S"
    using o i by (auto simp: owns_def net_inv_def)
  have iR: "i \<notin> R" using o i by (auto simp: owns_def)
  have ran: "ran (S(i := None)) = ran S - {a}"
    using o i by (intro ran_unset) (simp_all add: owns_def)
  have eq: "R \<union> dom S - {i} = R \<union> dom (S(i := None))" using iR by auto
  note free = MPool_Free_eq [OF inv]
  have "inj_on (S(i := None)) (dom (S(i := None)))"
    using o by (auto simp: owns_def inj_on_def dom_def split: if_splits)
  moreover have "ran (S(i := None)) \<inter> L' = {}" using o L' unfolding ran by (auto simp: owns_def)
  ultimately have "owns (n\<lparr>charPool := cp, ioPool := (ioPool n)\<lparr>mp_mem := (mp_mem (ioPool n))(i := zero_io),
      mp_queue := mp_queue (ioPool n) @ [i]\<rparr>, wire := wire n @ [Freed i]\<rparr>) R (S(i := None)) L'"
    using o free(2) cp iR unfolding eq
    by (auto simp: owns_def net_inv_def pending_def intro: io_typed_zero)
  then show thesis using that free(1) by (simp add: give_back_def)
qed

end
