(* ===== verification/Packet.thy ===== *)
theory Packet
  imports Iocp
begin

text \<open>
  Reading packets out of receive buffers: \<open>BusinessService::PacketReading\<close> and
  \<open>BusinessService::DataCopy\<close> (\<open>src/Chat/Server/BusinessService.cpp\<close>) and the loop of
  \<open>RecvThread\<close> around them (\<open>src/Chat/Server/Server.cpp\<close>).

  \<open>PacketReading\<close> takes the number of bytes at the front of \<open>buffer\<close>, copies one packet (or the part
  that has arrived) to a block of the character pool, moves the rest to the front of the buffer and
  returns how many bytes are left; a negative result asks for another receive. All arithmetic is
  done in \<open>int\<close>; \<open>bodySize\<close>, \<open>recvByte\<close> and the result are \<open>short\<close>.

  The loop may run forever, so it is a partial function whose \<open>None\<close> means that it does not end.
\<close>

section \<open>The code\<close>

definition PacketReading ::
    "PER_IO_DATA \<Rightarrow> int \<Rightarrow> CharPool \<Rightarrow> cpp_error + int \<times> PER_IO_DATA \<times> CharPool" where
  "PacketReading io bytesTrans cp =
     (if serverMode io = OP_RECV then
        (if bytesTrans \<ge> 2 then
           sbind (slice (buffer io) 0 2) (\<lambda>h.
           sbind (CharPool_Malloc cp) (\<lambda>(rb, cp).
           let io = io\<lparr>bodySize := short_of_bytes h, recvBuffer := rb\<rparr> in
           if bytesTrans - bodySize io > 0 then
             sbind (slice (buffer io) 0 (bodySize io)) (\<lambda>d.
             sbind (cp_write cp rb d) (\<lambda>cp.
             sbind (slice (buffer io) (bodySize io) bytesTrans) (\<lambda>t.
             Inr (short_of (bytesTrans - bodySize io),
                  io\<lparr>buffer := overwrite (buffer io) 0 t\<rparr>, cp))))
           else if bytesTrans - bodySize io = 0 then
             sbind (slice (buffer io) 0 (bodySize io)) (\<lambda>d.
             sbind (cp_write cp rb d) (\<lambda>cp.
             Inr (0, io, cp)))
           else
             sbind (slice (buffer io) 0 bytesTrans) (\<lambda>d.
             sbind (cp_write cp rb d) (\<lambda>cp.
             Inr (short_of (bytesTrans - bodySize io),
                  io\<lparr>recvByte := short_of bytesTrans\<rparr>, cp)))))
         else if bytesTrans = 1 then
           sbind (slice (buffer io) 0 bytesTrans) (\<lambda>d.
           Inr (-1,
                io\<lparr>bodySize := short_of_bytes (overwrite (bytes_of_short (bodySize io)) 0 d),
                   recvByte := short_of bytesTrans, totByte := 0\<rparr>, cp))
         else Inr (0, io, cp))
      else
        (let io = io\<lparr>serverMode := OP_RECV\<rparr> in
         if recvByte io < 2 then
           (if recvByte io < 0 then Inl IndexOverflow
            else
              sbind (slice (buffer io) 0 (2 - recvByte io)) (\<lambda>h.
              sbind (CharPool_Malloc cp) (\<lambda>(rb, cp).
              let io = io\<lparr>bodySize := short_of_bytes
                             (overwrite (bytes_of_short (bodySize io)) (nat (recvByte io)) h),
                          recvBuffer := rb\<rparr> in
              sbind (slice (buffer io) (2 - recvByte io) (bodySize io + 2 - recvByte io)) (\<lambda>d.
              sbind (cp_write cp (rb + 2) d) (\<lambda>cp.
              if bytesTrans - bodySize io > 0 then
                sbind (slice (buffer io) (bodySize io - recvByte io) bytesTrans) (\<lambda>t.
                Inr (short_of (bytesTrans - (bodySize io - recvByte io)),
                     io\<lparr>buffer := overwrite (buffer io) 0 t\<rparr>, cp))
              else Inr (0, io, cp))))))
         else
           sbind (slice (buffer io) 0 (bodySize io - recvByte io)) (\<lambda>d.
           sbind (cp_write cp (recvBuffer io + nat (recvByte io)) d) (\<lambda>cp.
           if bytesTrans - bodySize io > 0 then
             sbind (slice (buffer io) (bodySize io - recvByte io) bytesTrans) (\<lambda>t.
             Inr (short_of (bytesTrans - (bodySize io - recvByte io)),
                  io\<lparr>buffer := overwrite (buffer io) 0 t\<rparr>, cp))
           else if bytesTrans - bodySize io = 0 then Inr (0, io, cp)
           else
             sbind (slice (buffer io) 2 bytesTrans) (\<lambda>t.
             let io' = io\<lparr>buffer := overwrite (buffer io) 0 t, recvByte := short_of bytesTrans\<rparr> in
             Inr (short_of (bytesTrans - (bodySize io' - recvByte io')), io', cp))))))"

text \<open>
  \<open>min(ioInfo->bodySize, (DWORD)BUF_SIZE)\<close> compares as \<open>DWORD\<close>: a negative size counts as huge.
\<close>

definition copy_len :: "PER_IO_DATA \<Rightarrow> nat" where
  "copy_len io = min (nat (bodySize io mod 4294967296)) BUF_SIZE"

definition DataCopy ::
    "PER_IO_DATA \<Rightarrow> CharPool \<Rightarrow> cpp_error + (string \<times> int \<times> Direction) \<times> CharPool" where
  "DataCopy io cp =
     sbind (cp_read cp (recvBuffer io + 2) 4) (\<lambda>st.
     sbind (cp_read cp (recvBuffer io + 6) 4) (\<lambda>dir.
     sbind (CharPool_Malloc cp) (\<lambda>(msg, cp).
     sbind (cp_read cp (recvBuffer io + 10) (copy_len io)) (\<lambda>d.
     sbind (cp_write cp msg d) (\<lambda>cp.
     sbind (CharPool_Free (recvBuffer io) cp) (\<lambda>cp.
     sbind (cp_cstr cp msg) (\<lambda>str.
     sbind (CharPool_Free msg cp) (\<lambda>cp.
     Inr ((str, int_of_bytes st, direction_of_int (int_of_bytes dir)), cp)))))))))"

text \<open>
  The packet loop of \<open>RecvThread\<close> on one completed receive: the last result of \<open>PacketReading\<close>
  (0, or negative when another receive is needed), and the jobs for the job queue.
\<close>

partial_function (option) recv_loop ::
    "SOCKET \<Rightarrow> PER_IO_DATA \<Rightarrow> int \<Rightarrow> CharPool \<Rightarrow> JOB_DATA list \<Rightarrow>
     (cpp_error + int \<times> PER_IO_DATA \<times> CharPool \<times> JOB_DATA list) option" where
  "recv_loop sock io remainByte cp packetQueue =
     (case PacketReading io remainByte cp of
        Inl e \<Rightarrow> Some (Inl e)
      | Inr (r, io1, cp1) \<Rightarrow>
          (if r \<ge> 0 then
             (case DataCopy io1 cp1 of
                Inl e \<Rightarrow> Some (Inl e)
              | Inr ((msg, st, dir), cp2) \<Rightarrow>
                  (let q = packetQueue @ [\<lparr>job_socket = sock, job_direction = dir,
                                           job_nowStatus = st, job_msg = msg\<rparr>] in
                   if r = 0 then Some (Inr (0, io1, cp2, q))
                   else recv_loop sock io1 r cp2 q))
           else Some (Inr (r, io1, cp1, packetQueue))))"

section \<open>Whole packets\<close>

lemma slice_0 [simp]: "n \<le> length b \<Longrightarrow> slice b 0 (int n) = Inr (take n b)"
  by (simp add: slice_def)

lemma slice_mid [simp]: "m \<le> n \<Longrightarrow> n \<le> length b \<Longrightarrow>
    slice b (int m) (int n) = Inr (take (n - m) (drop m b))"
  by (simp add: slice_def flip: of_nat_diff)

lemma slice_neg: "j < i \<Longrightarrow> slice b i j = Inl BadCopy"
  by (simp add: slice_def)

lemma take_wire_packet:
  "take 2 (wire_packet st dir msg) = bytes_of_short (int (length msg + 11))"
  by (simp add: wire_packet_def)

lemma write_same_blocks:
  assumes "cp_inv cp (insert a out)" and "a \<notin> out" and "a \<le> b" "b + length bs \<le> a + BLOCK_SIZE"
  obtains cp' where "cp_write cp b bs = Inr cp'" "cp_inv cp' (insert a out)" "same_blocks out cp cp'"
    "holds cp' b bs"
  using cpb.write_block [OF assms] by metis

text \<open>One packet at the front of the buffer, with or without more bytes behind it.\<close>

lemma packet_front:
  assumes "length buf = BUF_SIZE" and buf: "take n buf = wire_packet st dir msg @ rest"
    and n: "n = length msg + 11 + length rest" "n \<le> BUF_SIZE"
  shows "slice buf 0 2 = Inr (bytes_of_short (int (length msg + 11)))"
    and "slice buf 0 (int (length msg + 11)) = Inr (wire_packet st dir msg)"
    and "slice buf (int (length msg + 11)) (int n) = Inr rest"
    and "short_of_bytes (bytes_of_short (int (length msg + 11))) = int (length msg + 11)"
    and "short_of (int n - int (length msg + 11)) = int (length rest)"
proof -
  let ?P = "wire_packet st dir msg" and ?B = "length msg + 11"
  have P: "take ?B buf = ?P"
    using arg_cong [OF buf, of "take ?B"] n by (simp add: min_def)
  have h: "take 2 buf = bytes_of_short (int ?B)"
    using arg_cong [OF P, of "take 2"] by (simp add: min_def take_wire_packet)
  have rest: "take (length rest) (drop ?B buf) = rest"
    using arg_cong [OF buf, of "drop ?B"] n by (simp add: drop_take)
  show "slice buf 0 2 = Inr (bytes_of_short (int ?B))"
    using slice_0 [of 2 buf] h assms(1) by (simp add: BUF_SIZE_def)
  show "slice buf 0 (int ?B) = Inr ?P" using slice_0 [of ?B buf] P n assms(1) by simp
  show "slice buf (int ?B) (int n) = Inr rest"
    using slice_mid [of ?B n buf] rest n assms(1) by simp
  show "short_of_bytes (bytes_of_short (int ?B)) = int ?B"
    using n by (simp add: short_of_bytes_inverse short_of_id BUF_SIZE_def)
  show "short_of (int n - int ?B) = int (length rest)"
    using n by (simp add: short_of_id BUF_SIZE_def)
qed

lemma PacketReading_packet:
  assumes inv: "cp_inv cp out" and mode: "serverMode io = OP_RECV"
    and len: "length (buffer io) = BUF_SIZE" "length msg \<le> MAX_TEXT"
    and buf: "take n (buffer io) = wire_packet st dir msg @ rest"
    and n: "n = length msg + 11 + length rest" "n \<le> BUF_SIZE"
  shows "\<exists>rb io' cp'. PacketReading io (int n) cp = Inr (int (length rest), io', cp') \<and>
    rb \<notin> out \<and> cp_inv cp' (insert rb out) \<and> same_blocks out cp cp' \<and>
    recvBuffer io' = rb \<and> bodySize io' = int (length msg + 11) \<and> serverMode io' = OP_RECV \<and>
    length (buffer io') = BUF_SIZE \<and> take (length rest) (buffer io') = rest \<and>
    holds cp' rb (wire_packet st dir msg)"
proof -
  let ?P = "wire_packet st dir msg" and ?B = "length msg + 11"
  note front = packet_front [OF len(1) buf n]
  obtain a cp1 where m: "CharPool_Malloc cp = Inr (a, cp1)" "a \<notin> out" "cp_inv cp1 (insert a out)"
    using ok_Malloc_Inr [OF inv] by blast
  have fits: "length ?P \<le> BLOCK_SIZE" using len(2) by (simp add: MAX_TEXT_def BLOCK_SIZE_def)
  obtain cp2 where w: "cp_write cp1 a ?P = Inr cp2" "cp_inv cp2 (insert a out)"
      "same_blocks out cp1 cp2" "holds cp2 a ?P"
    by (rule write_same_blocks [OF m(3,2), of a ?P]) (use fits in auto)
  have sb: "same_blocks out cp cp2" using Malloc_same_blocks [OF inv m(1)] w(3) same_blocks_trans by blast
  show ?thesis
  proof (cases "rest = []")
    case True
    then have "int n = int ?B" using n by simp
    then have "PacketReading io (int n) cp =
        Inr (0, io\<lparr>bodySize := int ?B, recvBuffer := a\<rparr>, cp2)"
      using mode front m(1) w(1) by (simp add: PacketReading_def)
    with True m w sb len mode show ?thesis by auto
  next
    case False
    then have "0 < int n - int ?B" using n by simp
    then have "PacketReading io (int n) cp = Inr (int (length rest),
        io\<lparr>bodySize := int ?B, recvBuffer := a, buffer := overwrite (buffer io) 0 rest\<rparr>, cp2)"
      using mode front m(1) w(1) by (simp add: PacketReading_def)
    with m w sb len n mode show ?thesis
      by (intro exI [of _ a] exI [of _ "io\<lparr>bodySize := int ?B, recvBuffer := a,
            buffer := overwrite (buffer io) 0 rest\<rparr>"] exI [of _ cp2])
         (simp add: overwrite_def)
  qed
qed

section \<open>Copying the message out\<close>

lemma copy_len_packet: "length msg \<le> MAX_TEXT \<Longrightarrow> bodySize io = int (length msg + 11) \<Longrightarrow>
    copy_len io = length msg + 11"
  by (simp add: copy_len_def MAX_TEXT_def BUF_SIZE_def)

lemma DataCopy_packet:
  assumes inv: "cp_inv cp (insert rb out)" and rb: "rb \<notin> out" "recvBuffer io = rb"
    and size: "bodySize io = int (length msg + 11)" and msg: "nul_free msg" "length msg \<le> MAX_TEXT"
    and body: "holds cp (rb + 2) (bytes_of_int st @ bytes_of_int dir @ msg @ [NUL])"
  shows "\<exists>cp'. DataCopy io cp =
      Inr ((msg, int32_of st, direction_of_int (int32_of dir)), cp') \<and>
    cp_inv cp' out \<and> same_blocks out cp cp'"
proof -
  have "10 \<le> BLOCK_SIZE" by (simp add: BLOCK_SIZE_def)
  note fields = cpb.packet_fields [OF inv this body]
  have len: "length msg + 21 \<le> BLOCK_SIZE" using msg(2) by (simp add: MAX_TEXT_def BLOCK_SIZE_def)
  obtain m p1 d p2 p3 where c: "CharPool_Malloc cp = Inr (m, p1)"
      "cp_read p1 (rb + 10) (length msg + 11) = Inr d" "cp_write p1 m d = Inr p2"
      "CharPool_Free rb p2 = Inr p3" "m \<notin> out" "cp_inv p3 (insert m out)" "same_blocks out cp p3"
      "cp_cstr p3 m = Inr msg"
    using cpb.copy_text [OF inv rb(1) msg(1) len fields(3)] .
  obtain p4 where f: "CharPool_Free m p3 = Inr p4" "cp_inv p4 out" "same_blocks out p3 p4"
    using cpb.free_block [OF c(6,5)] .
  have "DataCopy io cp = Inr ((msg, int32_of st, direction_of_int (int32_of dir)), p4)"
    using fields(1,2) c(1-4,8) f(1) rb(2) copy_len_packet [OF msg(2) size]
    by (simp add: DataCopy_def int_of_bytes_inverse)
  with f(2) same_blocks_trans [OF c(7) f(3)] show ?thesis by blast
qed

section \<open>The loop on whole packets\<close>

type_synonym message = "int \<times> int \<times> string"  \<comment> \<open>status, direction, text\<close>

definition packet_of :: "message \<Rightarrow> char list" where
  "packet_of m = (case m of (st, dir, msg) \<Rightarrow> wire_packet st dir msg)"

definition job_of :: "SOCKET \<Rightarrow> message \<Rightarrow> JOB_DATA" where
  "job_of sock m = (case m of (st, dir, msg) \<Rightarrow>
     \<lparr>job_socket = sock, job_direction = direction_of_int (int32_of dir),
      job_nowStatus = int32_of st, job_msg = msg\<rparr>)"

definition sendable :: "message \<Rightarrow> bool" where
  "sendable m \<longleftrightarrow> (case m of (st, dir, msg) \<Rightarrow> nul_free msg \<and> length msg \<le> MAX_TEXT)"

text \<open>One round of the loop.\<close>

lemma recv_loop_step:
  assumes inv: "cp_inv cp out" and mode: "serverMode io = OP_RECV"
    and len: "length (buffer io) = BUF_SIZE" "n \<le> BUF_SIZE"
    and m: "sendable m"
    and buf: "take n (buffer io) = packet_of m @ rest" "n = length (packet_of m) + length rest"
  shows "\<exists>io' cp'. cp_inv cp' out \<and> same_blocks out cp cp' \<and> serverMode io' = OP_RECV \<and>
    length (buffer io') = BUF_SIZE \<and> take (length rest) (buffer io') = rest \<and>
    recv_loop sock io (int n) cp q =
      (if rest = [] then Some (Inr (0, io', cp', q @ [job_of sock m]))
       else recv_loop sock io' (int (length rest)) cp' (q @ [job_of sock m]))"
proof -
  obtain st dir msg where M: "m = (st, dir, msg)" by (cases m)
  have msg: "nul_free msg" "length msg \<le> MAX_TEXT" using m M by (auto simp: sendable_def)
  have P: "packet_of m = wire_packet st dir msg" using M by (simp add: packet_of_def)
  obtain rb io1 cp1 where r: "PacketReading io (int n) cp = Inr (int (length rest), io1, cp1)"
      "rb \<notin> out" "cp_inv cp1 (insert rb out)" "same_blocks out cp cp1" "recvBuffer io1 = rb"
      "bodySize io1 = int (length msg + 11)" "serverMode io1 = OP_RECV"
      "length (buffer io1) = BUF_SIZE" "take (length rest) (buffer io1) = rest"
      "holds cp1 rb (wire_packet st dir msg)"
    using PacketReading_packet [OF inv mode len(1) msg(2), of n st dir rest] buf len(2) P by auto
  have "holds cp1 (rb + 2) (bytes_of_int st @ bytes_of_int dir @ msg @ [NUL])"
    using r(10) holds_append [of cp1 rb "bytes_of_short (int (length msg + 11))"]
    by (simp add: wire_packet_def)
  then obtain cp2 where c: "DataCopy io1 cp1 =
        Inr ((msg, int32_of st, direction_of_int (int32_of dir)), cp2)"
      "cp_inv cp2 out" "same_blocks out cp1 cp2"
    using DataCopy_packet [OF r(3,2,5,6) msg] by blast
  have "same_blocks out cp cp2" using r(4) c(3) same_blocks_trans by blast
  with r c M show ?thesis
    by (intro exI [of _ io1] exI [of _ cp2])
       (simp add: recv_loop.simps [of sock io "int n" cp q] job_of_def Let_def)
qed

text \<open>
  Any number of whole packets in one receive: the loop ends, every packet becomes one job, in
  order, and all blocks are back in the pool.
\<close>

lemma recv_loop_packets:
  assumes "cp_inv cp out" and "serverMode io = OP_RECV" and "length (buffer io) = BUF_SIZE"
    and "ms \<noteq> []" and "\<forall>m\<in>set ms. sendable m"
    and "take n (buffer io) = concat (map packet_of ms)"
    and "n = length (concat (map packet_of ms))" and "n \<le> BUF_SIZE"
  shows "\<exists>io' cp'. recv_loop sock io (int n) cp q =
      Some (Inr (0, io', cp', q @ map (job_of sock) ms)) \<and> cp_inv cp' out \<and>
      same_blocks out cp cp' \<and> serverMode io' = OP_RECV \<and> length (buffer io') = BUF_SIZE"
  using assms
proof (induction ms arbitrary: io cp q n)
  case Nil
  then show ?case by simp
next
  case (Cons m ms)
  let ?rest = "concat (map packet_of ms)"
  obtain io1 cp1 where s: "cp_inv cp1 out" "same_blocks out cp cp1" "serverMode io1 = OP_RECV"
      "length (buffer io1) = BUF_SIZE" "take (length ?rest) (buffer io1) = ?rest"
      "recv_loop sock io (int n) cp q =
        (if ?rest = [] then Some (Inr (0, io1, cp1, q @ [job_of sock m]))
         else recv_loop sock io1 (int (length ?rest)) cp1 (q @ [job_of sock m]))"
    using recv_loop_step [OF Cons.prems(1-3,8), of m ?rest sock q] Cons.prems(5-7) by auto
  show ?case
  proof (cases "ms = []")
    case True
    with s show ?thesis by (intro exI [of _ io1] exI [of _ cp1]) simp
  next
    case False
    then obtain m' ms' where ms: "ms = m' # ms'" by (cases ms) auto
    obtain st dir msg where "m' = (st, dir, msg)" by (cases m')
    then have "packet_of m' \<noteq> []" by (auto simp: packet_of_def wire_packet_def)
    with ms have ne: "?rest \<noteq> []" by auto
    obtain io' cp' where "recv_loop sock io1 (int (length ?rest)) cp1 (q @ [job_of sock m]) =
        Some (Inr (0, io', cp', (q @ [job_of sock m]) @ map (job_of sock) ms))"
        "cp_inv cp' out" "same_blocks out cp1 cp'" "serverMode io' = OP_RECV"
        "length (buffer io') = BUF_SIZE"
      using Cons.IH [OF s(1,3,4) False _ s(5) refl, of "q @ [job_of sock m]"] Cons.prems(5-8)
      by auto
    with s ne show ?thesis
      by (intro exI [of _ io'] exI [of _ cp']) (auto intro: same_blocks_trans)
  qed
qed

end
