(* ===== verification/Vo.thy ===== *)
theory Vo
  imports Common
begin

text \<open>
  The value objects passed to the database (\<open>src/Chat/Server/Vo.h\<close>, \<open>Vo.cpp\<close>): fixed character arrays
  written with \<open>strncpy\<close>, read as C strings. The class hierarchy is a hierarchy of records. All copy
  and move constructors and assignments of a class do the same and are one definition; each array
  is copied with \<open>strncpy\<close> from the same array of the other object, so the copy stops at its first
  NUL. \<open>vo = move(selectUser(vo))\<close> copies an object onto itself and is modelled as this copy.
\<close>

named_theorems vo_simps \<open>what the getters read after the setters\<close>

section \<open>Classes\<close>

record Vo =
  userId_v :: carray
  nickName_v :: carray

record UserVo = Vo +
  password_v :: carray

record LogVo = Vo +
  roomName_v :: carray
  msg_v :: carray
  status_v :: int
  direction_v :: int
  filename_v :: carray
  nickname2_v :: carray  \<comment> \<open>\<open>LogVo\<close> has a second \<open>nickname\<close> beside the one of \<open>Vo\<close>\<close>
  bytes_v :: int

record RelationVo = Vo +
  relationto_v :: carray
  relationcode_v :: int

section \<open>Constructors and copies\<close>

definition UserVo_new :: UserVo where
  "UserVo_new = \<lparr>userId_v = strncpy 20 '''', nickName_v = strncpy 20 '''', password_v = strncpy 10 ''''\<rparr>"

definition LogVo_new :: LogVo where
  "LogVo_new = \<lparr>userId_v = strncpy 20 '''', nickName_v = strncpy 20 '''', roomName_v = strncpy 20 '''',
     msg_v = strncpy 512 '''', status_v = 0, direction_v = 0, filename_v = strncpy 100 '''',
     nickname2_v = strncpy 20 '''', bytes_v = 0\<rparr>"

definition RelationVo_new :: RelationVo where
  "RelationVo_new = \<lparr>userId_v = strncpy 20 '''', nickName_v = strncpy 20 '''',
     relationto_v = strncpy 20 '''', relationcode_v = 0\<rparr>"

definition Vo_copy :: "'a Vo_scheme \<Rightarrow> 'a Vo_scheme" where
  "Vo_copy vo = vo\<lparr>userId_v := strncpy 20 (upto_nul (userId_v vo)),
                  nickName_v := strncpy 20 (upto_nul (nickName_v vo))\<rparr>"

definition UserVo_copy :: "UserVo \<Rightarrow> UserVo" where
  "UserVo_copy vo = (Vo_copy vo)\<lparr>password_v := strncpy 10 (upto_nul (password_v vo))\<rparr>"

definition LogVo_copy :: "LogVo \<Rightarrow> LogVo" where
  "LogVo_copy vo = (Vo_copy vo)
     \<lparr>roomName_v := strncpy 20 (upto_nul (roomName_v vo)),
      msg_v := strncpy 512 (upto_nul (msg_v vo)),
      status_v := status_v vo, direction_v := direction_v vo, bytes_v := bytes_v vo,
      filename_v := strncpy 100 (upto_nul (filename_v vo)),
      nickname2_v := strncpy 20 (upto_nul (nickname2_v vo))\<rparr>"

definition RelationVo_copy :: "RelationVo \<Rightarrow> RelationVo" where
  "RelationVo_copy vo = (Vo_copy vo)
     \<lparr>relationto_v := strncpy 20 (upto_nul (relationto_v vo)),
      relationcode_v := relationcode_v vo\<rparr>"

section \<open>Setters and getters\<close>

text \<open>\<open>setUserId\<close> copies ten bytes into an array of twenty, \<open>setFilename\<close> twenty into a hundred.\<close>

definition setUserId :: "string \<Rightarrow> 'a Vo_scheme \<Rightarrow> 'a Vo_scheme" where
  "setUserId s vo = vo\<lparr>userId_v := strncpy_into 10 s (userId_v vo)\<rparr>"

definition setNickName :: "string \<Rightarrow> 'a Vo_scheme \<Rightarrow> 'a Vo_scheme" where
  "setNickName s vo = vo\<lparr>nickName_v := strncpy_into 20 s (nickName_v vo)\<rparr>"

definition getUserId :: "'a Vo_scheme \<Rightarrow> cpp_error + string" where
  "getUserId vo = cstr (userId_v vo)"

definition getNickName :: "'a Vo_scheme \<Rightarrow> cpp_error + string" where
  "getNickName vo = cstr (nickName_v vo)"

definition setPassword :: "string \<Rightarrow> UserVo \<Rightarrow> UserVo" where
  "setPassword s vo = vo\<lparr>password_v := strncpy_into 10 s (password_v vo)\<rparr>"

definition getPassword :: "UserVo \<Rightarrow> cpp_error + string" where
  "getPassword vo = cstr (password_v vo)"

definition setRoomName :: "string \<Rightarrow> LogVo \<Rightarrow> LogVo" where
  "setRoomName s vo = vo\<lparr>roomName_v := strncpy_into 20 s (roomName_v vo)\<rparr>"

definition getRoomName :: "LogVo \<Rightarrow> cpp_error + string" where
  "getRoomName vo = cstr (roomName_v vo)"

definition setMsg :: "string \<Rightarrow> LogVo \<Rightarrow> LogVo" where
  "setMsg s vo = vo\<lparr>msg_v := strncpy_into 512 s (msg_v vo)\<rparr>"

definition getMsg :: "LogVo \<Rightarrow> cpp_error + string" where
  "getMsg vo = cstr (msg_v vo)"

definition setStatus :: "int \<Rightarrow> LogVo \<Rightarrow> LogVo" where
  "setStatus i vo = vo\<lparr>status_v := i\<rparr>"

definition setDirection :: "int \<Rightarrow> LogVo \<Rightarrow> LogVo" where
  "setDirection i vo = vo\<lparr>direction_v := i\<rparr>"

definition setFilename :: "string \<Rightarrow> LogVo \<Rightarrow> LogVo" where
  "setFilename s vo = vo\<lparr>filename_v := strncpy_into 20 s (filename_v vo)\<rparr>"

definition getFilename :: "LogVo \<Rightarrow> cpp_error + string" where
  "getFilename vo = cstr (filename_v vo)"

definition setBytes :: "int \<Rightarrow> LogVo \<Rightarrow> LogVo" where
  "setBytes i vo = vo\<lparr>bytes_v := i\<rparr>"

definition setRelationto :: "string \<Rightarrow> RelationVo \<Rightarrow> RelationVo" where
  "setRelationto s vo = vo\<lparr>relationto_v := strncpy_into 20 s (relationto_v vo)\<rparr>"

definition getRelationto :: "RelationVo \<Rightarrow> cpp_error + string" where
  "getRelationto vo = cstr (relationto_v vo)"

definition setRelationcode :: "int \<Rightarrow> RelationVo \<Rightarrow> RelationVo" where
  "setRelationcode i vo = vo\<lparr>relationcode_v := i\<rparr>"

lemmas vo_defs = UserVo_new_def LogVo_new_def RelationVo_new_def setUserId_def setNickName_def
  getUserId_def getNickName_def setPassword_def getPassword_def setRoomName_def getRoomName_def
  setMsg_def getMsg_def setStatus_def setDirection_def setFilename_def getFilename_def
  setBytes_def setRelationto_def getRelationto_def setRelationcode_def

section \<open>Facts\<close>

text \<open>Twenty bytes into an array of twenty: the new string, if it leaves room for its NUL.\<close>

lemma strncpy_into_full [vo_simps]: "length b = n \<Longrightarrow> strncpy_into n s b = strncpy n s"
  by (simp add: strncpy_into_def)

text \<open>
  Ten bytes into a cleared array of twenty: there is always a terminator, and what is read back is
  the first ten characters.
\<close>

lemma cstr_strncpy_into [vo_simps]:
  assumes "nul_free s" and "n < m"
  shows "cstr (strncpy_into n s (strncpy m '''')) = Inr (take n s)"
proof -
  have "strncpy_into n s (strncpy m '''') = take n s @ replicate (m - min n (length s)) NUL"
    using assms(2) by (auto simp: strncpy_into_def strncpy_def replicate_add [symmetric])
  also have "\<dots> = take n s @ NUL # replicate (m - min n (length s) - 1) NUL"
    using assms(2) by (simp flip: replicate_Suc)
  finally show ?thesis
    using nul_free_take [OF assms(1)] by (simp add: cstr_def upto_nul_append)
qed

lemma cstr_empty [vo_simps, simp]: "0 < n \<Longrightarrow> cstr (strncpy n '''') = Inr ''''"
  using cstr_strncpy [of "''''" n] by simp

text \<open>A copied array reads like the original.\<close>

lemma cstr_copy: "cstr b = Inr s \<Longrightarrow> length b = n \<Longrightarrow> cstr (strncpy n (upto_nul b)) = Inr s"
  by (auto simp: cstr_Inr_iff upto_nul_strncpy NUL_in_strncpy length_upto_nul_less
      take_all [OF length_upto_nul_le])

definition UserVo_wf :: "UserVo \<Rightarrow> bool" where
  "UserVo_wf vo \<longleftrightarrow>
     length (userId_v vo) = 20 \<and> length (nickName_v vo) = 20 \<and> length (password_v vo) = 10"

definition LogVo_wf :: "LogVo \<Rightarrow> bool" where
  "LogVo_wf vo \<longleftrightarrow>
     length (userId_v vo) = 20 \<and> length (nickName_v vo) = 20 \<and> length (roomName_v vo) = 20 \<and>
     length (msg_v vo) = 512 \<and> length (filename_v vo) = 100 \<and> length (nickname2_v vo) = 20"

definition RelationVo_wf :: "RelationVo \<Rightarrow> bool" where
  "RelationVo_wf vo \<longleftrightarrow>
     length (userId_v vo) = 20 \<and> length (nickName_v vo) = 20 \<and> length (relationto_v vo) = 20"

lemma UserVo_copy_reads:
  assumes "UserVo_wf vo"
  shows "getUserId vo = Inr u \<Longrightarrow> getUserId (UserVo_copy vo) = Inr u"
    and "getNickName vo = Inr u \<Longrightarrow> getNickName (UserVo_copy vo) = Inr u"
    and "getPassword vo = Inr u \<Longrightarrow> getPassword (UserVo_copy vo) = Inr u"
  using assms
  by (simp_all add: UserVo_wf_def vo_defs UserVo_copy_def Vo_copy_def cstr_copy)

lemma RelationVo_copy_reads:
  assumes "RelationVo_wf vo"
  shows "getUserId vo = Inr u \<Longrightarrow> getUserId (RelationVo_copy vo) = Inr u"
    and "getNickName vo = Inr u \<Longrightarrow> getNickName (RelationVo_copy vo) = Inr u"
    and "getRelationto vo = Inr u \<Longrightarrow> getRelationto (RelationVo_copy vo) = Inr u"
  using assms
  by (simp_all add: RelationVo_wf_def vo_defs RelationVo_copy_def Vo_copy_def cstr_copy)

lemma LogVo_copy_reads:
  assumes "LogVo_wf vo"
  shows "getUserId vo = Inr u \<Longrightarrow> getUserId (LogVo_copy vo) = Inr u"
    and "getNickName vo = Inr u \<Longrightarrow> getNickName (LogVo_copy vo) = Inr u"
    and "getRoomName vo = Inr u \<Longrightarrow> getRoomName (LogVo_copy vo) = Inr u"
    and "getMsg vo = Inr u \<Longrightarrow> getMsg (LogVo_copy vo) = Inr u"
    and "getFilename vo = Inr u \<Longrightarrow> getFilename (LogVo_copy vo) = Inr u"
  using assms
  by (simp_all add: LogVo_wf_def vo_defs LogVo_copy_def Vo_copy_def cstr_copy)

section \<open>Properties\<close>

text \<open>
  What the getters return after the setters of a new object: an id is cut to ten
  characters, a file name to twenty; a password of ten characters, a nickname or relation of twenty
  and a message of 512 have no terminator left and cannot be read.
\<close>

theorem setters_read:
  assumes "nul_free s"
  shows "getUserId (setUserId s UserVo_new) = Inr (take 10 s) \<and>
    getFilename (setFilename s LogVo_new) = Inr (take 20 s) \<and>
    getPassword (setPassword s UserVo_new) = (if length s < 10 then Inr s else Inl Unterminated) \<and>
    getNickName (setNickName s UserVo_new) = (if length s < 20 then Inr s else Inl Unterminated) \<and>
    getRoomName (setRoomName s LogVo_new) = (if length s < 20 then Inr s else Inl Unterminated) \<and>
    getMsg (setMsg s LogVo_new) = (if length s < 512 then Inr s else Inl Unterminated) \<and>
    getRelationto (setRelationto s RelationVo_new) =
      (if length s < 20 then Inr s else Inl Unterminated)"
  using assms by (auto simp: vo_defs vo_simps cstr_strncpy cstr_strncpy_long)

theorem setters_read_witness:
  "getUserId (setUserId ''choiinsung1'' UserVo_new) = Inr ''choiinsung'' \<and>
   getPassword (setPassword ''0123456789'' UserVo_new) = Inl Unterminated"
  using setters_read [of "''choiinsung1''"] setters_read [of "''0123456789''"]
  by (simp add: nul_free_def)

text \<open>
  Copying or assigning an object of any of the three classes keeps what its getters return.
\<close>

theorem copies_read:
  assumes "LogVo_wf l" and "UserVo_wf v" and "RelationVo_wf r"
  shows "(\<forall>u. getUserId l = Inr u \<longrightarrow> getUserId (LogVo_copy l) = Inr u) \<and>
    (\<forall>u. getNickName l = Inr u \<longrightarrow> getNickName (LogVo_copy l) = Inr u) \<and>
    (\<forall>u. getRoomName l = Inr u \<longrightarrow> getRoomName (LogVo_copy l) = Inr u) \<and>
    (\<forall>u. getMsg l = Inr u \<longrightarrow> getMsg (LogVo_copy l) = Inr u) \<and>
    (\<forall>u. getFilename l = Inr u \<longrightarrow> getFilename (LogVo_copy l) = Inr u) \<and>
    (\<forall>u. getUserId v = Inr u \<longrightarrow> getUserId (UserVo_copy v) = Inr u) \<and>
    (\<forall>u. getPassword v = Inr u \<longrightarrow> getPassword (UserVo_copy v) = Inr u) \<and>
    (\<forall>u. getNickName v = Inr u \<longrightarrow> getNickName (UserVo_copy v) = Inr u) \<and>
    (\<forall>u. getNickName r = Inr u \<longrightarrow> getNickName (RelationVo_copy r) = Inr u) \<and>
    (\<forall>u. getRelationto r = Inr u \<longrightarrow> getRelationto (RelationVo_copy r) = Inr u)"
  using LogVo_copy_reads [OF assms(1)] UserVo_copy_reads [OF assms(2)]
    RelationVo_copy_reads [OF assms(3)] by simp

theorem copies_read_witness:
  "getMsg (LogVo_copy (setMsg ''hi'' LogVo_new)) = Inr ''hi'' \<and>
   getPassword (UserVo_copy (setPassword ''pw'' UserVo_new)) = Inr ''pw'' \<and>
   getRelationto (RelationVo_copy (setRelationto ''bob'' RelationVo_new)) = Inr ''bob''"
proof -
  have "LogVo_wf (setMsg ''hi'' LogVo_new)" "UserVo_wf (setPassword ''pw'' UserVo_new)"
    "RelationVo_wf (setRelationto ''bob'' RelationVo_new)"
    by (simp_all add: LogVo_wf_def UserVo_wf_def RelationVo_wf_def vo_defs vo_simps)
  moreover have "getMsg (setMsg ''hi'' LogVo_new) = Inr ''hi''"
    "getPassword (setPassword ''pw'' UserVo_new) = Inr ''pw''"
    "getRelationto (setRelationto ''bob'' RelationVo_new) = Inr ''bob''"
    by (simp_all add: vo_defs vo_simps cstr_strncpy nul_free_def)
  ultimately show ?thesis
    using copies_read [of "setMsg ''hi'' LogVo_new" "setPassword ''pw'' UserVo_new"
        "setRelationto ''bob'' RelationVo_new"] by blast
qed

end
