(* ===== verification/Dao.thy ===== *)
theory Dao
  imports Vo
begin

text \<open>
  The database layer (\<open>src/Chat/Server/Dao.cpp\<close>). Every operation allocates a statement handle, binds
  its parameters, executes one SQL statement and, for the selects, fetches rows into local arrays.

  The SQL server is not part of the repository: it is the parameter \<open>exec\<close>, which takes a database
  state and a statement and yields the new state, the return code of \<open>SQLExecute\<close> and the results of
  the successive \<open>SQLFetch\<close> calls. A character column is copied to its bound buffer with a
  terminator, truncated to the buffer's size minus one (the documented behaviour of \<open>SQL_C_CHAR\<close>).
  After a failed fetch a buffer keeps what it held: at first the unknown contents \<open>junk\<close> of the stack.
  The columns read are \<open>not null\<close> in \<open>src/Chat/chatTable.sql\<close>.

  Each operation holds the \<open>Dao\<close> mutex for its whole body, so it is one step.
\<close>

section \<open>ODBC\<close>

datatype sql_value = SqlText string | SqlInt int

record stmt =
  query :: string
  params :: "sql_value list"
  cols :: "nat list"  \<comment> \<open>sizes of the bound column buffers\<close>

datatype fetch =
    NO_DATA
  | ROW "nat \<Rightarrow> string"  \<comment> \<open>the value of each column\<close>
  | FETCH_ERR

record 'db odbc =
  exec :: "'db \<Rightarrow> stmt \<Rightarrow> 'db \<times> int \<times> (nat \<Rightarrow> fetch)"
  junk :: "nat list \<Rightarrow> carray list"

text \<open>What the bound buffers hold after a fetch.\<close>

definition bind_col :: "nat \<Rightarrow> string \<Rightarrow> carray" where
  "bind_col n s = strncpy n (take (n - 1) s)"

definition fetch_cols :: "nat list \<Rightarrow> fetch \<Rightarrow> carray list \<Rightarrow> carray list" where
  "fetch_cols ns f bufs =
     (case f of
        ROW r \<Rightarrow> map (\<lambda>i. bind_col (ns ! i) (r i)) [0..<length ns]
      | _ \<Rightarrow> bufs)"

text \<open>
  An array as the source of a \<open>strncpy\<close> of \<open>m\<close> bytes: read up to its first NUL, or past its end when
  it has none and is shorter than \<open>m\<close>.
\<close>

definition strncpy_src :: "nat \<Rightarrow> carray \<Rightarrow> cpp_error + string" where
  "strncpy_src m b = (if NUL \<in> set b \<or> m \<le> length b then Inr (upto_nul b) else Inl Unterminated)"

definition SQLExecute ::
    "('db, 'z) odbc_scheme \<Rightarrow> 'db \<Rightarrow> string \<Rightarrow> sql_value list \<Rightarrow> nat list \<Rightarrow>
     'db \<times> int \<times> (nat \<Rightarrow> fetch)" where
  "SQLExecute env db q ps cs = exec env db \<lparr>query = q, params = ps, cols = cs\<rparr>"

section \<open>Accounts\<close>

definition q_selectUser :: string where
  "q_selectUser = ''select userid,password,nickname from cso_id with (nolock) where userid = ? ''"

definition selectUser ::
    "('db, 'z) odbc_scheme \<Rightarrow> UserVo \<Rightarrow> 'db \<Rightarrow> cpp_error + UserVo \<times> 'db" where
  "selectUser env vo db =
     sbind (getUserId vo) (\<lambda>uid.
     let (db, _, f) = SQLExecute env db q_selectUser [SqlText uid] [10, 10, 20] in
     case f 0 of
       NO_DATA \<Rightarrow> Inr (setUserId '''' vo, db)
     | r \<Rightarrow>
         let b = fetch_cols [10, 10, 20] r (junk env [10, 10, 20]) in
         sbind (strncpy_src 10 (b ! 1)) (\<lambda>password.
         sbind (strncpy_src 20 (b ! 2)) (\<lambda>nickname.
         Inr (setNickName nickname (setPassword password vo), db))))"

definition q_UpdateUser :: string where
  "q_UpdateUser = ''update cso_id set lastlogdate = getdate()  where userid = ? ''"

definition UpdateUser :: "('db, 'z) odbc_scheme \<Rightarrow> LogVo \<Rightarrow> 'db \<Rightarrow> cpp_error + 'db" where
  "UpdateUser env vo db =
     sbind (getUserId vo) (\<lambda>uid.
     let (db, _, _) = SQLExecute env db q_UpdateUser [SqlText uid] [] in Inr db)"

definition q_InsertUser :: string where
  "q_InsertUser =
     ''insert into cso_id(userid, password , nickname , regdate) values(? ,? ,? ,getdate() ) ''"

definition InsertUser :: "('db, 'z) odbc_scheme \<Rightarrow> UserVo \<Rightarrow> 'db \<Rightarrow> cpp_error + 'db" where
  "InsertUser env vo db =
     sbind (getUserId vo) (\<lambda>uid.
     sbind (getPassword vo) (\<lambda>pw.
     sbind (getNickName vo) (\<lambda>nick.
     let (db, _, _) = SQLExecute env db q_InsertUser [SqlText uid, SqlText pw, SqlText nick] []
     in Inr db)))"

section \<open>Logs\<close>

definition q_InsertLogin :: string where
  "q_InsertLogin =
     ''insert into cso_login(userid, logindate , nickname) values(? ,getdate() ,? ) ''"

definition InsertLogin :: "('db, 'z) odbc_scheme \<Rightarrow> LogVo \<Rightarrow> 'db \<Rightarrow> cpp_error + 'db" where
  "InsertLogin env vo db =
     sbind (getUserId vo) (\<lambda>uid.
     sbind (getNickName vo) (\<lambda>nick.
     let (db, _, _) = SQLExecute env db q_InsertLogin [SqlText uid, SqlText nick] [] in Inr db))"

definition q_InsertDirection :: string where
  "q_InsertDirection = ''insert into cso_direction(nickname, logdate, status, direction , message) '' @
     ''values(? ,getdate() ,? ,? ,? ) ''"

definition InsertDirection :: "('db, 'z) odbc_scheme \<Rightarrow> LogVo \<Rightarrow> 'db \<Rightarrow> cpp_error + 'db" where
  "InsertDirection env vo db =
     sbind (getNickName vo) (\<lambda>nick.
     sbind (getMsg vo) (\<lambda>msg.
     let (db, _, _) = SQLExecute env db q_InsertDirection
           [SqlText nick, SqlInt (status_v vo), SqlInt (direction_v vo), SqlText msg] []
     in Inr db))"

definition q_InsertChatting :: string where
  "q_InsertChatting =
     ''insert into cso_chatting(nickname,logdate,roomname,message)  values(? ,getdate() , ? , ?)''"

definition InsertChatting :: "('db, 'z) odbc_scheme \<Rightarrow> LogVo \<Rightarrow> 'db \<Rightarrow> cpp_error + 'db" where
  "InsertChatting env vo db =
     sbind (getNickName vo) (\<lambda>nick.
     sbind (getRoomName vo) (\<lambda>room.
     sbind (getMsg vo) (\<lambda>msg.
     let (db, _, _) = SQLExecute env db q_InsertChatting [SqlText nick, SqlText room, SqlText msg] []
     in Inr db)))"

definition q_InsertFiles :: string where
  "q_InsertFiles = ''insert into cso_filerecv  values(? , ? , getdate() , ?)''"

definition InsertFiles :: "('db, 'z) odbc_scheme \<Rightarrow> LogVo \<Rightarrow> 'db \<Rightarrow> cpp_error + int \<times> 'db" where
  "InsertFiles env vo db =
     sbind (getNickName vo) (\<lambda>nick.
     sbind (getFilename vo) (\<lambda>file.
     let (db, res, _) = SQLExecute env db q_InsertFiles
           [SqlText nick, SqlText file, SqlInt (bytes_v vo)] []
     in Inr (res, db)))"

section \<open>Relations\<close>

definition q_InsertRelation :: string where
  "q_InsertRelation = ''insert into cso_relation  values(? , ? , ? ,getdate())''"

definition InsertRelation ::
    "('db, 'z) odbc_scheme \<Rightarrow> RelationVo \<Rightarrow> 'db \<Rightarrow> cpp_error + int \<times> 'db" where
  "InsertRelation env vo db =
     sbind (getUserId vo) (\<lambda>uid.
     sbind (getRelationto vo) (\<lambda>to.
     let (db, res, _) = SQLExecute env db q_InsertRelation
           [SqlText uid, SqlText to, SqlInt (relationcode_v vo)] []
     in Inr (res, db)))"

definition q_findUserId :: string where
  "q_findUserId = ''select userid, nickname from cso_id  with (nolock) where nickname = ? ''"

definition findUserId ::
    "('db, 'z) odbc_scheme \<Rightarrow> RelationVo \<Rightarrow> 'db \<Rightarrow> cpp_error + RelationVo \<times> 'db" where
  "findUserId env vo db =
     sbind (getNickName vo) (\<lambda>nick.
     let (db, _, f) = SQLExecute env db q_findUserId [SqlText nick] [10, 20] in
     case f 0 of
       NO_DATA \<Rightarrow> Inr (setRelationto '''' RelationVo_new, db)
     | r \<Rightarrow>
         let b = fetch_cols [10, 20] r (junk env [10, 20]) in
         sbind (strncpy_src 20 (b ! 0)) (\<lambda>userid.
         sbind (strncpy_src 20 (b ! 1)) (\<lambda>nickname.
         Inr (setNickName nickname (setRelationto userid RelationVo_new), db))))"

text \<open>One row of \<open>selectFriends\<close>; \<open>push_back\<close> stores a copy.\<close>

definition friend_row :: "carray list \<Rightarrow> cpp_error + RelationVo" where
  "friend_row b =
     sbind (strncpy_src 10 (b ! 0)) (\<lambda>userid.
     sbind (strncpy_src 20 (b ! 1)) (\<lambda>to.
     sbind (strncpy_src 20 (b ! 2)) (\<lambda>nickname.
     Inr (RelationVo_copy
       (setNickName nickname (setRelationto to (setUserId userid RelationVo_new)))))))"

text \<open>
  \<open>while (SQLFetch(hStmt) != SQL_NO_DATA)\<close>: a fetch that fails is not \<open>SQL_NO_DATA\<close>, so the loop goes
  on; \<open>None\<close> means that it never ends.
\<close>

partial_function (option) fetch_friends ::
    "(nat \<Rightarrow> fetch) \<Rightarrow> nat \<Rightarrow> carray list \<Rightarrow> RelationVo list \<Rightarrow>
     (cpp_error + RelationVo list) option" where
  "fetch_friends f i b vec =
     (case f i of
        NO_DATA \<Rightarrow> Some (Inr vec)
      | r \<Rightarrow>
          (let b1 = fetch_cols [10, 10, 20] r b in
           case friend_row b1 of
             Inl e \<Rightarrow> Some (Inl e)
           | Inr vo \<Rightarrow> fetch_friends f (Suc i) b1 (vec @ [vo])))"

definition q_selectFriends :: string where
  "q_selectFriends = ''select T1.relationfrom, T1.relationto, T2.nickname from cso_relation T1 with '' @
     ''(nolock), cso_id T2 with (nolock)'' @ [CHR 0x09] @ ''where T1.relationto = T2.userid'' @
     [CHR 0x09] @ ''and T1.relationfrom = ? and T1.relationcode = 1''"

definition selectFriends ::
    "('db, 'z) odbc_scheme \<Rightarrow> RelationVo \<Rightarrow> 'db \<Rightarrow> cpp_error + RelationVo list \<times> 'db" where
  "selectFriends env vo db =
     sbind (getUserId vo) (\<lambda>uid.
     let (db, _, f) = SQLExecute env db q_selectFriends [SqlText uid] [10, 10, 20] in
     case fetch_friends f 0 (junk env [10, 10, 20]) [] of
       None \<Rightarrow> Inl Diverges
     | Some r \<Rightarrow> sbind r (\<lambda>vec. Inr (vec, db)))"

definition q_selectOneFriend :: string where
  "q_selectOneFriend = ''select T1.relationfrom, T1.relationto, T2.nickname from cso_relation T1 with '' @
     ''(nolock) , cso_id T2'' @ [CHR 0x09] @ ''with (nolock) where T1.relationto = T2.userid'' @
     [CHR 0x09] @ ''and T1.relationfrom = ? and T2.nickname = ? and T1.relationcode = 1''"

definition selectOneFriend ::
    "('db, 'z) odbc_scheme \<Rightarrow> RelationVo \<Rightarrow> 'db \<Rightarrow> cpp_error + RelationVo \<times> 'db" where
  "selectOneFriend env vo db =
     sbind (getUserId vo) (\<lambda>uid.
     sbind (getRelationto vo) (\<lambda>to.
     let (db, _, f) = SQLExecute env db q_selectOneFriend [SqlText uid, SqlText to] [20, 20, 20] in
     case f 0 of
       NO_DATA \<Rightarrow> Inr (RelationVo_new, db)
     | r \<Rightarrow>
         let b = fetch_cols [20, 20, 20] r (junk env [20, 20, 20]) in
         sbind (strncpy_src 10 (b ! 0)) (\<lambda>userid.
         sbind (strncpy_src 20 (b ! 1)) (\<lambda>relationto.
         sbind (strncpy_src 20 (b ! 2)) (\<lambda>nickname.
         Inr (setNickName nickname (setRelationto relationto (setUserId userid RelationVo_new)),
              db))))))"

definition q_DeleteRelation :: string where
  "q_DeleteRelation = ''delete from cso_relation where relationfrom = ? and relationcode = ? and '' @
     ''relationto = (select userid from cso_id where nickname = ?)''"

definition DeleteRelation ::
    "('db, 'z) odbc_scheme \<Rightarrow> RelationVo \<Rightarrow> 'db \<Rightarrow> cpp_error + int \<times> 'db" where
  "DeleteRelation env vo db =
     sbind (getUserId vo) (\<lambda>uid.
     sbind (getNickName vo) (\<lambda>nick.
     let (db, res, _) = SQLExecute env db q_DeleteRelation
           [SqlText uid, SqlInt (relationcode_v vo), SqlText nick] []
     in Inr (res, db)))"

section \<open>What the code relies on\<close>

text \<open>
  Result sets are finite and no fetch fails. This is what the code expects of the server, not what
  every server does: without it \<open>selectFriends\<close> may loop forever.
\<close>

definition rows_ok :: "(nat \<Rightarrow> fetch) \<Rightarrow> bool" where
  "rows_ok f \<longleftrightarrow> (\<forall>i. f i \<noteq> FETCH_ERR) \<and> (\<exists>n. f n = NO_DATA)"

definition sql_ok :: "('db, 'z) odbc_scheme \<Rightarrow> bool" where
  "sql_ok env \<longleftrightarrow> (\<forall>db st. rows_ok (snd (snd (exec env db st))))"

text \<open>The string a fetch leaves in a buffer of \<open>n\<close> bytes.\<close>

definition column :: "nat \<Rightarrow> string \<Rightarrow> string" where
  "column n s = upto_nul (take (n - 1) s)"

lemma strncpy_src_bind [simp]: "0 < n \<Longrightarrow> strncpy_src m (bind_col n s) = Inr (column n s)"
proof -
  assume "0 < n"
  then have NUL: "NUL \<in> set (bind_col n s)" by (simp add: bind_col_def NUL_in_strncpy)
  have "upto_nul (xs @ replicate k NUL) = upto_nul xs" for xs :: string and k
    by (induction xs) (auto simp: upto_nul_def)
  moreover have "take n (take (n - 1) s) = take (n - 1) s" by (rule take_all) simp
  ultimately have "upto_nul (bind_col n s) = column n s"
    by (simp add: bind_col_def strncpy_def column_def)
  with NUL show ?thesis by (simp add: strncpy_src_def)
qed

lemma column_props [simp]: "nul_free (column n s)" "0 < n \<Longrightarrow> length (column n s) < n"
  unfolding column_def
  using length_upto_nul_le [of "take (n - 1) s"] by auto

lemma cstr_column: "0 < n \<Longrightarrow> n \<le> m \<Longrightarrow> cstr (strncpy m (column n s)) = Inr (column n s)"
  using column_props(2) [of n s] by (intro cstr_strncpy) (simp_all del: column_props(2))

lemma fetch_cols_ROW [simp]: "i < length ns \<Longrightarrow> fetch_cols ns (ROW r) b ! i = bind_col (ns ! i) (r i)"
  by (simp add: fetch_cols_def)

lemma sql_ok_fetch: "sql_ok env \<Longrightarrow> SQLExecute env db q ps cs = (db', res, f) \<Longrightarrow> rows_ok f"
  unfolding sql_ok_def SQLExecute_def by (metis snd_conv)

lemma rows_ok_cases:
  assumes "rows_ok f"
  obtains "f i = NO_DATA" | r where "f i = ROW r"
  using assms by (cases "f i") (auto simp: rows_ok_def)

section \<open>Each operation succeeds on readable arguments\<close>

lemma logs_ok:
  "ok (UpdateUser env vo db) (\<lambda>_. True) \<longleftrightarrow> NUL \<in> set (userId_v vo)"
  "ok (InsertLogin env vo db) (\<lambda>_. True) \<longleftrightarrow> NUL \<in> set (userId_v vo) \<and> NUL \<in> set (nickName_v vo)"
  "ok (InsertDirection env vo db) (\<lambda>_. True) \<longleftrightarrow> NUL \<in> set (nickName_v vo) \<and> NUL \<in> set (msg_v vo)"
  "ok (InsertChatting env vo db) (\<lambda>_. True) \<longleftrightarrow>
     NUL \<in> set (nickName_v vo) \<and> NUL \<in> set (roomName_v vo) \<and> NUL \<in> set (msg_v vo)"
  "ok (InsertFiles env vo db) (\<lambda>_. True) \<longleftrightarrow> NUL \<in> set (nickName_v vo) \<and> NUL \<in> set (filename_v vo)"
  by (simp_all add: UpdateUser_def InsertLogin_def InsertDirection_def InsertChatting_def
      InsertFiles_def vo_defs Let_def split_beta)

lemma InsertUser_ok:
  "ok (InsertUser env vo' db) (\<lambda>_. True) \<longleftrightarrow>
     NUL \<in> set (userId_v vo') \<and> NUL \<in> set (password_v vo') \<and> NUL \<in> set (nickName_v vo')"
  by (simp add: InsertUser_def vo_defs Let_def split_beta)

lemma relations_ok:
  "ok (InsertRelation env vo db) (\<lambda>_. True) \<longleftrightarrow>
     NUL \<in> set (userId_v vo) \<and> NUL \<in> set (relationto_v vo)"
  "ok (DeleteRelation env vo db) (\<lambda>_. True) \<longleftrightarrow>
     NUL \<in> set (userId_v vo) \<and> NUL \<in> set (nickName_v vo)"
  by (simp_all add: InsertRelation_def DeleteRelation_def vo_defs Let_def split_beta)

section \<open>The selects\<close>

lemma selectUser_cases:
  assumes "sql_ok env" and "NUL \<in> set (userId_v vo)"
  obtains db' where "selectUser env vo db = Inr (setUserId '''' vo, db')"
  | db' pw nick where "selectUser env vo db = Inr (setNickName nick (setPassword pw vo), db')"
      "nul_free pw" "length pw < 10" "nul_free nick" "length nick < 20"
proof -
  obtain uid where uid: "getUserId vo = Inr uid" using assms(2) by (simp add: vo_defs cstr_def)
  obtain db' res f where q: "SQLExecute env db q_selectUser [SqlText uid] [10, 10, 20] = (db', res, f)"
    by (metis prod.collapse)
  show thesis
  proof (cases rule: rows_ok_cases [OF sql_ok_fetch [OF assms(1) q], of 0])
    case 1
    with uid q that(1) show thesis by (simp add: selectUser_def)
  next
    case (2 r)
    with uid q show thesis
      by (intro that(2) [of "column 20 (r 2)" "column 10 (r 1)"]) (simp_all add: selectUser_def)
  qed
qed

lemma findUserId_cases:
  assumes "sql_ok env" and "NUL \<in> set (nickName_v vo)"
  obtains db' where "findUserId env vo db = Inr (setRelationto '''' RelationVo_new, db')"
  | db' uid nick where
      "findUserId env vo db = Inr (setNickName nick (setRelationto uid RelationVo_new), db')"
      "nul_free uid" "length uid < 10" "nul_free nick" "length nick < 20"
proof -
  obtain n where n: "getNickName vo = Inr n" using assms(2) by (simp add: vo_defs cstr_def)
  obtain db' res f where q: "SQLExecute env db q_findUserId [SqlText n] [10, 20] = (db', res, f)"
    by (metis prod.collapse)
  show thesis
  proof (cases rule: rows_ok_cases [OF sql_ok_fetch [OF assms(1) q], of 0])
    case 1
    with n q that(1) show thesis by (simp add: findUserId_def)
  next
    case (2 r)
    with n q show thesis
      by (intro that(2) [of "column 20 (r 1)" "column 10 (r 0)"]) (simp_all add: findUserId_def)
  qed
qed

lemma selectOneFriend_cases:
  assumes "sql_ok env" and "NUL \<in> set (userId_v vo)" and "NUL \<in> set (relationto_v vo)"
  obtains db' where "selectOneFriend env vo db = Inr (RelationVo_new, db')"
  | db' uid to nick where "selectOneFriend env vo db =
        Inr (setNickName nick (setRelationto to (setUserId uid RelationVo_new)), db')"
      "nul_free nick" "length nick < 20"
proof -
  obtain u where u: "getUserId vo = Inr u" using assms(2) by (simp add: vo_defs cstr_def)
  obtain t where t: "getRelationto vo = Inr t" using assms(3) by (simp add: vo_defs cstr_def)
  obtain db' res f where
    q: "SQLExecute env db q_selectOneFriend [SqlText u, SqlText t] [20, 20, 20] = (db', res, f)"
    by (metis prod.collapse)
  show thesis
  proof (cases rule: rows_ok_cases [OF sql_ok_fetch [OF assms(1) q], of 0])
    case 1
    with u t q that(1) show thesis by (simp add: selectOneFriend_def)
  next
    case (2 r)
    with u t q show thesis
      by (intro that(2) [of "column 20 (r 2)" "column 20 (r 1)" "column 20 (r 0)"])
         (simp_all add: selectOneFriend_def)
  qed
qed

text \<open>The friend list: one object per row, in order; the loop ends when the rows do.\<close>

definition friend_of :: "(nat \<Rightarrow> string) \<Rightarrow> RelationVo" where
  "friend_of r = RelationVo_copy (setNickName (column 20 (r 2))
     (setRelationto (column 10 (r 1)) (setUserId (column 10 (r 0)) RelationVo_new)))"

lemma friend_row_ROW: "friend_row (fetch_cols [10, 10, 20] (ROW r) b) = Inr (friend_of r)"
  by (simp add: friend_row_def friend_of_def)

lemma fetch_friends_rows:
  assumes "\<forall>k<n. f (i + k) = ROW (r k)" and "f (i + n) = NO_DATA"
  shows "fetch_friends f i b vec = Some (Inr (vec @ map (\<lambda>k. friend_of (r k)) [0..<n]))"
  using assms
proof (induction n arbitrary: i b vec r)
  case 0
  then show ?case by (subst fetch_friends.simps) simp
next
  case (Suc n)
  have "f i = ROW (r 0)" using Suc.prems(1) by force
  moreover have "fetch_friends f (Suc i) b' (vec @ [friend_of (r 0)]) =
      Some (Inr ((vec @ [friend_of (r 0)]) @ map (\<lambda>k. friend_of (r (Suc k))) [0..<n]))" for b'
    using Suc.prems by (intro Suc.IH) force+
  moreover have "map (\<lambda>k. friend_of (r k)) [0..<Suc n] =
      friend_of (r 0) # map (\<lambda>k. friend_of (r (Suc k))) [0..<n]"
    by (simp add: upt_conv_Cons map_Suc_upt [symmetric] del: upt_Suc)
  ultimately show ?case
    by (subst fetch_friends.simps) (simp add: friend_row_ROW Let_def)
qed

text \<open>A fetch that keeps failing keeps the loop going.\<close>

lemma fetch_friends_error:
  assumes "\<forall>k\<ge>i. f k = FETCH_ERR" and "friend_row b = Inr vo"
  shows "fetch_friends f i b vec = None"
proof (rule ccontr)
  assume "fetch_friends f i b vec \<noteq> None"
  then obtain y where y: "fetch_friends f i b vec = Some y" by auto
  let ?P = "\<lambda>f i b vec y. (\<forall>k\<ge>i. f k = FETCH_ERR) \<longrightarrow> friend_row b \<noteq> Inr vo"
  have "?P f i b vec y"
  proof (rule fetch_friends.raw_induct [where P = ?P, OF _ y], intro impI notI)
    fix rec f i b vec y
    assume IH: "\<And>f i b vec y. rec f i b vec = Some y \<Longrightarrow> ?P f i b vec y"
      and body: "(case f i of NO_DATA \<Rightarrow> Some (Inr vec)
        | r \<Rightarrow> (let b1 = fetch_cols [10, 10, 20] r b in
            case friend_row b1 of Inl e \<Rightarrow> Some (Inl e)
            | Inr vo \<Rightarrow> rec f (Suc i) b1 (vec @ [vo]))) = Some y"
      and err: "\<forall>k\<ge>i. f k = FETCH_ERR" and vo: "friend_row b = Inr vo"
    then have "rec f (Suc i) b (vec @ [vo]) = Some y" by (simp add: fetch_cols_def Let_def)
    with IH err vo show False by (auto dest: Suc_leD)
  qed
  with assms show False by blast
qed

lemma first_NO_DATA:
  assumes "rows_ok f"
  obtains n r where "\<forall>k<n. f k = ROW (r k)" "f n = NO_DATA"
proof -
  define n where "n = (LEAST n. f n = NO_DATA)"
  have n: "f n = NO_DATA"
    using assms LeastI_ex [of "\<lambda>n. f n = NO_DATA"] by (simp add: n_def rows_ok_def)
  have "\<exists>q. f k = ROW q" if "k < n" for k
    using assms not_less_Least [OF that [unfolded n_def]] by (cases "f k") (auto simp: rows_ok_def)
  then obtain r where "\<forall>k<n. f k = ROW (r k)" by metis
  with n that show thesis by blast
qed

definition friend_ok :: "RelationVo \<Rightarrow> bool" where
  "friend_ok vo \<longleftrightarrow> NUL \<in> set (nickName_v vo)"

lemma friend_of_ok: "friend_ok (friend_of r)"
  by (simp add: friend_ok_def friend_of_def RelationVo_copy_def Vo_copy_def vo_defs NUL_in_strncpy
      strncpy_into_full RelationVo_new_def upto_nul_strncpy less_imp_le)

lemma selectFriends_ok:
  assumes "sql_ok env" and "NUL \<in> set (userId_v vo)"
  shows "ok (selectFriends env vo db) (\<lambda>(vec, db'). \<forall>v\<in>set vec. friend_ok v)"
proof -
  obtain u where u: "getUserId vo = Inr u" using assms(2) by (simp add: vo_defs cstr_def)
  obtain db' res f where
    q: "SQLExecute env db q_selectFriends [SqlText u] [10, 10, 20] = (db', res, f)"
    by (metis prod.collapse)
  obtain n r where "\<forall>k<n. f k = ROW (r k)" "f n = NO_DATA"
    using first_NO_DATA [OF sql_ok_fetch [OF assms(1) q]] .
  then have "fetch_friends f 0 (junk env [10, 10, 20]) [] =
      Some (Inr (map (\<lambda>k. friend_of (r k)) [0..<n]))"
    using fetch_friends_rows [of n f 0 r] by simp
  with u q show ?thesis by (simp add: selectFriends_def friend_of_ok)
qed

section \<open>Properties\<close>

text \<open>
  \<open>selectFriends\<close> returns one object for every row of the result, in order, with the
  nickname and the friend's id as they fit the fetch buffers.
\<close>

theorem selectFriends_rows:
  assumes "SQLExecute env db q_selectFriends [SqlText me] [10, 10, 20] = (db', res, f)"
    and "getUserId vo = Inr me" and "\<forall>k<n. f k = ROW (r k)" and "f n = NO_DATA"
  shows "ok (selectFriends env vo db) (\<lambda>(vec, db2). db2 = db' \<and>
    map getNickName vec = map (\<lambda>k. Inr (column 20 (r k 2))) [0..<n] \<and>
    map getRelationto vec = map (\<lambda>k. Inr (column 10 (r k 1))) [0..<n])"
proof -
  have l10: "length (column 10 s) < 10" for s
    using column_props(2) [of 10 s] by simp
  have l: "length (column 20 s) < 20" "length (column 10 s) < 20" for s
    using less_trans [OF l10 [of s], of 20] by simp_all
  have "getNickName (friend_of q) = Inr (column 20 (q 2))"
    "getRelationto (friend_of q) = Inr (column 10 (q 1))" for q
    using l by (simp_all add: friend_of_def RelationVo_copy_def Vo_copy_def vo_defs vo_simps
        upto_nul_strncpy cstr_strncpy less_imp_le)
  moreover have "fetch_friends f 0 (junk env [10, 10, 20]) [] =
      Some (Inr (map (\<lambda>k. friend_of (r k)) [0..<n]))"
    using fetch_friends_rows [of n f 0 r] assms(3,4) by simp
  ultimately show ?thesis using assms(1,2) by (simp add: selectFriends_def)
qed

definition two_friends :: "unit odbc" where
  "two_friends =
     \<lparr>exec = (\<lambda>db st. (db, 1, \<lambda>i. if i < 2 then ROW (\<lambda>c. if c = 2 then ''Bob'' else ''bob'') else NO_DATA)),
      junk = (\<lambda>ns. [])\<rparr>"

theorem selectFriends_rows_witness:
  "ok (selectFriends two_friends (setUserId ''ann'' RelationVo_new) ()) (\<lambda>(vec, db).
     map getNickName vec = [Inr ''Bob'', Inr ''Bob''] \<and>
     map getRelationto vec = [Inr ''bob'', Inr ''bob''])"
proof -
  let ?f = "\<lambda>i::nat. if i < 2 then ROW (\<lambda>c. if c = 2 then ''Bob'' else ''bob'') else NO_DATA"
  have q: "SQLExecute two_friends () q_selectFriends [SqlText ''ann''] [10, 10, 20] = ((), 1, ?f)"
    by (simp add: SQLExecute_def two_friends_def)
  have u: "getUserId (setUserId ''ann'' RelationVo_new) = Inr ''ann''"
    by (simp add: vo_defs vo_simps cstr_strncpy_into nul_free_def)
  have "ok (selectFriends two_friends (setUserId ''ann'' RelationVo_new) ())
      (\<lambda>(vec, db). map getNickName vec = map (\<lambda>k. Inr (column 20 ''Bob'')) [0..<2] \<and>
        map getRelationto vec = map (\<lambda>k. Inr (column 10 ''bob'')) [0..<2])"
    using selectFriends_rows [OF q u, of 2 "\<lambda>k c. if c = 2 then ''Bob'' else ''bob''"] by simp
  moreover have "column 20 ''Bob'' = ''Bob''" "column 10 ''bob'' = ''bob''"
    by (simp_all add: column_def upto_nul_def)
  ultimately show ?thesis by (simp add: upt_rec split_beta)
qed

end
