(* ===== verification/FileSvc.thy ===== *)
theory FileSvc
  imports Dao
begin

text \<open>
  \<open>FileService\<close> (\<open>src/Chat/Server/FileService.cpp\<close>): receiving a file over UDP and sending one to the
  members of a room.

  The UDP socket is its queue of datagrams not yet received; a receive with nothing queued waits
  forever (\<open>Blocked\<close>). A datagram longer than the buffer makes \<open>recvfrom\<close> return -1. The datagrams
  sent are logged with their destination. The disk maps paths to contents. Whether \<open>fopen\<close> can
  create a file and whether \<open>connect\<close> accepts an address are parameters of the environment.
\<close>

section \<open>State\<close>

record udp =
  udp_in :: "char list list"
  udp_out :: "(string \<times> char list) list"
  disk :: "(string \<times> char list) list"

record 'db fenv = "'db odbc" +
  can_create :: "string \<Rightarrow> bool"
  can_connect :: "string \<Rightarrow> bool"

section \<open>Receiving\<close>

text \<open>The loop of \<open>RecvFile\<close>: \<open>acc\<close> is what \<open>fwrite\<close> has written; an empty or oversized datagram ends it.\<close>

fun recv_chunks :: "bool \<Rightarrow> char list list \<Rightarrow> char list \<Rightarrow> cpp_error + char list \<times> char list list" where
  "recv_chunks opened [] acc = Inl Blocked"
| "recv_chunks opened (d # ds) acc =
     (if d = [] \<or> FILE_BUF_SIZE < length d then Inr (acc, ds)
      else if \<not> opened then Inl NullPointer
      else recv_chunks opened ds (acc @ d))"

text \<open>\<open>ftell\<close> returns a \<open>long\<close> of 32 bits, -1 when the position does not fit.\<close>

definition ftell :: "char list \<Rightarrow> int" where
  "ftell bs = (if length bs < 2147483648 then int (length bs) else -1)"

text \<open>
  \<open>fileName[readBytes] = '\0'\<close> needs a name of fewer than \<open>BUF_SIZE\<close> bytes, and the path
  \<open>Downloads/\<close> plus name must fit the \<open>BUF_SIZE\<close> bytes of \<open>fileDir\<close>.
\<close>

definition RecvFile ::
    "('db, 'z) fenv_scheme \<Rightarrow> string \<Rightarrow> udp \<Rightarrow> 'db \<Rightarrow> cpp_error + string \<times> udp \<times> 'db" where
  "RecvFile env username u db =
     (case udp_in u of
        [] \<Rightarrow> Inl Blocked
      | d # ds \<Rightarrow>
          if BUF_SIZE \<le> length d then Inl IndexOverflow
          else
            let fileName = upto_nul d; fileDir = ''Downloads'' @ ''/'' @ fileName in
            if BUF_SIZE \<le> length fileDir then Inl IndexOverflow
            else
              sbind (recv_chunks (can_create env fileDir) ds []) (\<lambda>(bs, ds').
              if \<not> can_create env fileDir then Inl NullPointer
              else
                let vo = setBytes (ftell bs) (setNickName username (setFilename fileName LogVo_new)) in
                sbind (InsertFiles env vo db) (\<lambda>(_, db).
                Inr (fileDir,
                     u\<lparr>udp_in := ds', disk := (fileDir, bs) # am_erase fileDir (disk u)\<rparr>, db))))"

section \<open>Sending\<close>

text \<open>
  The read loop for one member on the unread part of the file: every \<open>fread\<close> result is sent, the
  last one with no bytes.
\<close>

function file_chunks :: "char list \<Rightarrow> char list list" where
  "file_chunks bs =
     (if bs = [] then [[]] else take FILE_BUF_SIZE bs # file_chunks (drop FILE_BUF_SIZE bs))"
  by pat_completeness auto
termination
  by (relation "measure length") (auto simp: FILE_BUF_SIZE_def)

declare file_chunks.simps [simp del]

text \<open>
  All members share \<open>fp\<close>, and the loop for one member reads it to its end: \<open>rest\<close> is what is left to
  read. A failed \<open>connect\<close> skips the member.
\<close>

fun SendToRoomFile ::
    "('db, 'z) fenv_scheme \<Rightarrow> char list \<Rightarrow> string \<Rightarrow> SOCKET list \<Rightarrow> (SOCKET \<times> string) list \<Rightarrow> udp \<Rightarrow>
     cpp_error + udp" where
  "SendToRoomFile env rest dir [] liveSocket u = Inr u"
| "SendToRoomFile env rest dir (s # ss) liveSocket u =
     sbind (am_at liveSocket s) (\<lambda>ip.
     if \<not> can_connect env ip then SendToRoomFile env rest dir ss liveSocket u
     else
       sbind (cstr (strncpy BUF_SIZE dir)) (\<lambda>fileName.
       SendToRoomFile env [] dir ss liveSocket
         (u\<lparr>udp_out := udp_out u @ map (Pair ip) (fileName # file_chunks rest)\<rparr>)))"

section \<open>Facts\<close>

lemma concat_file_chunks: "concat (file_chunks bs) = bs"
proof (induction bs rule: file_chunks.induct)
  case (1 bs)
  then show ?case by (subst file_chunks.simps) simp
qed

lemma file_chunks_Nil [simp]: "file_chunks [] = [[]]"
  by (subst file_chunks.simps) simp

text \<open>A file that is received the way it is sent arrives whole.\<close>

lemma recv_chunks_file:
  "recv_chunks True (file_chunks bs @ ds) acc = Inr (acc @ bs, ds)"
proof (induction bs arbitrary: acc rule: file_chunks.induct)
  case (1 bs)
  show ?case
  proof (cases "bs = []")
    case False
    then have "take FILE_BUF_SIZE bs \<noteq> []" by (simp add: FILE_BUF_SIZE_def)
    with False 1 show ?thesis by (subst file_chunks.simps) simp
  qed simp
qed

lemma SendToRoomFile_done:
  assumes "\<forall>s\<in>set ss. \<exists>ip. map_of live s = Some ip \<and> can_connect env ip"
    and "nul_free dir" and "length dir < BUF_SIZE"
  shows "SendToRoomFile env [] dir ss live u =
    Inr (u\<lparr>udp_out := udp_out u @ concat (map (\<lambda>s. [(the (map_of live s), dir), (the (map_of live s), [])]) ss)\<rparr>)"
  using assms
proof (induction ss arbitrary: u)
  case (Cons s ss)
  then obtain ip where ip: "map_of live s = Some ip" "can_connect env ip" by auto
  have "cstr (strncpy BUF_SIZE dir) = Inr dir" using assms(2,3) by (rule cstr_strncpy)
  with Cons ip show ?case by simp
qed simp

lemma RecvFile_datagrams:
  assumes "udp_in u = nm # ds" and "recv_chunks True ds [] = Inr (bs, ds')"
    and "nul_free nm" and "length nm < 4086"
    and "can_create env (''Downloads'' @ ''/'' @ nm)"
    and "nul_free username" and "length username < 20"
  shows "ok (RecvFile env username u db) (\<lambda>(path, u', db').
    path = ''Downloads'' @ ''/'' @ nm \<and> map_of (disk u') path = Some bs \<and>
    udp_in u' = ds' \<and> udp_out u' = udp_out u)"
proof -
  let ?vo = "setBytes (ftell bs) (setNickName username (setFilename nm LogVo_new))"
  have "getNickName ?vo = Inr username"
    using assms(6,7) by (simp add: vo_defs strncpy_into_full cstr_strncpy)
  moreover have "getFilename ?vo = Inr (take 20 nm)"
    using assms(3) by (simp add: vo_defs cstr_strncpy_into)
  ultimately have "ok (InsertFiles env ?vo db) (\<lambda>_. True)"
    by (simp add: InsertFiles_def Let_def split_beta)
  then obtain r db' where "InsertFiles env ?vo db = Inr (r, db')" by (auto simp: ok_iff)
  with assms show ?thesis
    by (simp add: RecvFile_def upto_nul_id BUF_SIZE_def Let_def)
qed

lemma RecvFile_ok:
  assumes "udp_in u = nm # file_chunks bs @ ds"
    and "nul_free nm" and "length nm < 4086"
    and "can_create env (''Downloads'' @ ''/'' @ nm)"
    and "nul_free username" and "length username < 20"
  shows "ok (RecvFile env username u db) (\<lambda>(path, u', db').
    path = ''Downloads'' @ ''/'' @ nm \<and> map_of (disk u') path = Some bs \<and>
    udp_in u' = ds \<and> udp_out u' = udp_out u)"
  using RecvFile_datagrams [OF assms(1) _ assms(2-)] by (simp add: recv_chunks_file)

section \<open>Properties\<close>

text \<open>
  Of the members a file is sent to, the first receives the name and the whole file; the
  file pointer stays at the end, so every other one receives the name and an empty datagram.
\<close>

theorem room_file_first_only:
  assumes "\<forall>s\<in>set (k # ks). \<exists>ip. map_of live s = Some ip \<and> can_connect env ip"
    and "nul_free dir" and "length dir < BUF_SIZE"
  shows "ok (SendToRoomFile env bs dir (k # ks) live u) (\<lambda>u'.
    udp_out u' = udp_out u @ map (Pair (the (map_of live k))) (dir # file_chunks bs) @
      concat (map (\<lambda>s. [(the (map_of live s), dir), (the (map_of live s), [])]) ks) \<and>
    concat (file_chunks bs) = bs)"
proof -
  obtain ip where ip: "map_of live k = Some ip" "can_connect env ip" using assms(1) by auto
  have "cstr (strncpy BUF_SIZE dir) = Inr dir" using assms(2,3) by (rule cstr_strncpy)
  then show ?thesis
    using ip assms SendToRoomFile_done [of ks live env dir] by (simp add: concat_file_chunks)
qed

definition open_env :: "unit fenv" where
  "open_env = \<lparr>exec = (\<lambda>db st. (db, 1, \<lambda>i. NO_DATA)), junk = (\<lambda>ns. []),
     can_create = (\<lambda>_. True), can_connect = (\<lambda>_. True)\<rparr>"

theorem room_file_first_only_witness:
  "ok (SendToRoomFile open_env ''data'' ''a.txt'' [5, 6] [(5, ''h5''), (6, ''h6'')]
      \<lparr>udp_in = [], udp_out = [], disk = []\<rparr>) (\<lambda>u'.
    udp_out u' = [(''h5'', ''a.txt''), (''h5'', ''data''), (''h5'', []), (''h6'', ''a.txt''), (''h6'', [])])"
proof -
  have "file_chunks ''data'' = [''data'', []]" by (subst file_chunks.simps) (simp add: FILE_BUF_SIZE_def)
  then show ?thesis
    by (intro ok_mono [OF room_file_first_only])
       (simp_all add: open_env_def nul_free_def BUF_SIZE_def)
qed

text \<open>
  Files of two clients at the same time: all uploads come over one socket, and \<open>RecvFile\<close> does not look at the
  sender. When the second name comes before the contents of the first file, the first file has the second
  name in front of its contents, and the contents of the second file are the name of an empty one.
\<close>

theorem two_uploads_mix:
  assumes u: "udp_in u = nm # nm2 # file_chunks bs @ file_chunks cs"
    and nm: "nul_free nm" "length nm < 4086" "nm2 \<noteq> []" "length nm2 < 4086"
    and cs: "nul_free cs" "cs \<noteq> []" "length cs < 4086"
    and disk: "\<And>path. can_create env path" and who: "nul_free who" "length who < 20" "nul_free who2" "length who2 < 20"
  shows "ok (RecvFile env who u db) (\<lambda>(path, u1, db1).
    path = ''Downloads'' @ ''/'' @ nm \<and> map_of (disk u1) path = Some (nm2 @ bs) \<and>
    ok (RecvFile env who2 u1 db1) (\<lambda>(path2, u2, db2).
      path2 = ''Downloads'' @ ''/'' @ cs \<and> map_of (disk u2) path2 = Some [] \<and> udp_in u2 = []))"
proof -
  have "recv_chunks True (nm2 # file_chunks bs @ file_chunks cs) [] = Inr (nm2 @ bs, file_chunks cs)"
    using nm(3,4) by (simp add: recv_chunks_file FILE_BUF_SIZE_def)
  then have one: "ok (RecvFile env who u db) (\<lambda>(path, u1, db1). path = ''Downloads'' @ ''/'' @ nm \<and>
      map_of (disk u1) path = Some (nm2 @ bs) \<and> udp_in u1 = file_chunks cs \<and> udp_out u1 = udp_out u)"
    by (rule RecvFile_datagrams [OF u _ nm(1,2) disk who(1,2)])
  have "file_chunks cs = cs # file_chunks [] @ []" using cs(2,3) by (subst file_chunks.simps) (simp add: FILE_BUF_SIZE_def)
  then have two: "ok (RecvFile env who2 u1 db1) (\<lambda>(path2, u2, db2). path2 = ''Downloads'' @ ''/'' @ cs \<and>
      map_of (disk u2) path2 = Some [] \<and> udp_in u2 = [] \<and> udp_out u2 = udp_out u1)"
    if "udp_in u1 = file_chunks cs" for u1 db1
    using RecvFile_ok [OF _ cs(1,3) disk who(3,4), of u1 "[]" "[]" db1] that by simp
  show ?thesis
    using one by (rule ok_mono) (auto simp del: append.simps elim!: two [THEN ok_mono])
qed

theorem two_uploads_mix_witness:
  "ok (RecvFile open_env ''Ann'' \<lparr>udp_in = [''a.txt'', ''b.txt'', ''data'', [], ''more'', []], udp_out = [], disk = []\<rparr> ())
     (\<lambda>(path, u1, db1). map_of (disk u1) ''Downloads/a.txt'' = Some ''b.txtdata'')"
proof -
  have f: "file_chunks ''data'' = [''data'', []]" "file_chunks ''more'' = [''more'', []]"
    by (subst file_chunks.simps, simp add: FILE_BUF_SIZE_def)+
  show ?thesis
    using two_uploads_mix [of "\<lparr>udp_in = [''a.txt'', ''b.txt'', ''data'', [], ''more'', []], udp_out = [], disk = []\<rparr>"
        "''a.txt''" "''b.txt''" "''data''" "''more''" open_env "''Ann''" "''Bob''" "()"]
    by (auto simp: f nul_free_def open_env_def elim!: ok_mono)
qed

end
