(* ===== verification/Session.thy ===== *)
theory Session
  imports Packet FileSvc
begin

text \<open>
  The state of \<open>BusinessService\<close> (\<open>src/Chat/Server/BusinessService.h\<close>) and the operations every handler
  uses: looking a session up, changing it, queueing a reply.

  A handler is one step here; \<open>Cut\<close> has the pieces between the locks that the source takes for parts of a
  handler only. \<open>shared_ptr\<close> makes a room one object: a copy of \<open>roomMap\<close> shares it, which is no difference
  within one step.

  The theory also states the invariant of this state and the abstract view of it: who is logged in,
  under which names, and in which room.
\<close>

named_theorems session_simps \<open>what the session operations do to each part of the state\<close>

section \<open>State\<close>

record 'db cfg = "'db fenv" +
  ord :: "(SOCKET \<times> PER_HANDLE_DATA) list \<Rightarrow> (SOCKET \<times> PER_HANDLE_DATA) list"
  past :: "nat \<Rightarrow> char"

record 'db server =
  net_of :: net
  idSet :: "string set"
  userMap :: "(SOCKET \<times> PER_HANDLE_DATA) list"
  roomMap :: "(string \<times> ROOM_DATA) list"
  sendQueue :: "Send_DATA list"
  sendStop :: bool
  liveSocket :: "(SOCKET \<times> string) list"
  udp_of :: udp
  database :: 'db

section \<open>Operations\<close>

definition InsertSendQueue ::
    "SendTo \<Rightarrow> string \<Rightarrow> string \<Rightarrow> SOCKET \<Rightarrow> ClientStatus \<Rightarrow> 'db server \<Rightarrow> 'db server" where
  "InsertSendQueue dir msg rn sock st s =
     s\<lparr>sendQueue := sendQueue s @
        [if dir = SEND_ME then
           \<lparr>sd_msg = msg, sd_mySocket = Some sock, sd_roomName = '''', sd_direction = dir, sd_status = st\<rparr>
         else
           \<lparr>sd_msg = msg, sd_mySocket = None, sd_roomName = rn, sd_direction = dir, sd_status = st\<rparr>]\<rparr>"

definition GetStatus :: "SOCKET \<Rightarrow> 'db server \<Rightarrow> ClientStatus" where
  "GetStatus sock s =
     (case map_of (userMap s) sock of None \<Rightarrow> STATUS_LOGOUT | Some u \<Rightarrow> status u)"

definition InsertLiveSocket :: "SOCKET \<Rightarrow> string \<Rightarrow> 'db server \<Rightarrow> 'db server" where
  "InsertLiveSocket sock ip s = s\<lparr>liveSocket := sm_insert sock ip (liveSocket s)\<rparr>"

definition IsSocketDead :: "SOCKET \<Rightarrow> 'db server \<Rightarrow> bool" where
  "IsSocketDead sock s \<longleftrightarrow> map_of (liveSocket s) sock = None"

definition StopSendWorker :: "'db server \<Rightarrow> 'db server" where
  "StopSendWorker s = s\<lparr>sendStop := True\<rparr>"

text \<open>\<open>userMap.find(sock)->second.x = \<dots>\<close>\<close>

definition upd_user ::
    "SOCKET \<Rightarrow> (PER_HANDLE_DATA \<Rightarrow> PER_HANDLE_DATA) \<Rightarrow> 'db server \<Rightarrow> cpp_error + 'db server" where
  "upd_user sock f s =
     (case map_of (userMap s) sock of
        None \<Rightarrow> Inl EndIterator
      | Some _ \<Rightarrow> Inr (s\<lparr>userMap := am_modify sock f (userMap s)\<rparr>))"

text \<open>
  The two lines that open every handler of a logged-in client: \<open>name\<close> and \<open>id\<close> as \<open>std::string\<close>.
\<close>

definition session_names :: "SOCKET \<Rightarrow> 'db server \<Rightarrow> cpp_error + string \<times> string" where
  "session_names sock s =
     sbind (am_at (userMap s) sock) (\<lambda>u.
     sbind (cstr (userName u)) (\<lambda>name.
     sbind (cstr (userId u)) (\<lambda>uid.
     Inr (name, uid))))"

text \<open>The search for a user name, in iteration order of the (copied) map, up to the first hit.\<close>

fun find_user ::
    "string \<Rightarrow> (SOCKET \<times> PER_HANDLE_DATA) list \<Rightarrow> cpp_error + (SOCKET \<times> PER_HANDLE_DATA) option" where
  "find_user name [] = Inr None"
| "find_user name ((k, u) # m) =
     sbind (cstr (userName u)) (\<lambda>n. if n = name then Inr (Some (k, u)) else find_user name m)"

text \<open>
  Leaving a room, as \<open>StatusChat\<close>, \<open>ClientExit\<close> and \<open>BanUser\<close> spell it out: tell every member (the
  leaver too) and take the socket off the list; reset the session; drop the room when it is empty.
\<close>

definition broadcast_leave ::
    "'db cfg \<Rightarrow> string \<Rightarrow> string \<Rightarrow> SOCKET \<Rightarrow> 'db server \<Rightarrow> cpp_error + 'db server" where
  "broadcast_leave env sendMsg rn sock s =
     sbind (am_at (roomMap s) rn) (\<lambda>room.
     sbind (SendToRoomMsg (past env) sendMsg (userList room) STATUS_CHATTIG (net_of s)) (\<lambda>n.
     Inr (s\<lparr>net_of := n,
            roomMap := am_modify rn (\<lambda>r. r\<lparr>userList := removeAll sock (userList r)\<rparr>) (roomMap s)\<rparr>)))"

definition reset_session :: "SOCKET \<Rightarrow> 'db server \<Rightarrow> cpp_error + 'db server" where
  "reset_session sock =
     upd_user sock (\<lambda>u. u\<lparr>roomName := strncpy NAME_SIZE '''', status := STATUS_WAITING\<rparr>)"

definition drop_empty_room :: "string \<Rightarrow> 'db server \<Rightarrow> 'db server" where
  "drop_empty_room rn s =
     (case map_of (roomMap s) rn of
        None \<Rightarrow> s
      | Some r \<Rightarrow> if length (userList r) = 0 then s\<lparr>roomMap := am_erase rn (roomMap s)\<rparr> else s)"

section \<open>The invariant\<close>

abbreviation uname :: "PER_HANDLE_DATA \<Rightarrow> string" where "uname u \<equiv> upto_nul (userName u)"
abbreviation rname :: "PER_HANDLE_DATA \<Rightarrow> string" where "rname u \<equiv> upto_nul (roomName u)"
abbreviation uid :: "PER_HANDLE_DATA \<Rightarrow> string" where "uid u \<equiv> upto_nul (userId u)"

text \<open>The three arrays hold C strings, and a session is in the waiting room or in a chat room.\<close>

definition user_ok :: "PER_HANDLE_DATA \<Rightarrow> bool" where
  "user_ok u \<longleftrightarrow>
     length (userName u) = NAME_SIZE \<and> length (roomName u) = NAME_SIZE \<and>
     length (userId u) = NAME_SIZE \<and>
     NUL \<in> set (userName u) \<and> NUL \<in> set (roomName u) \<and> NUL \<in> set (userId u) \<and>
     (status u = STATUS_WAITING \<and> rname u = '''' \<or> status u = STATUS_CHATTIG)"

text \<open>
  The room a session is in, and the invariant proper: the maps have distinct keys; every session
  belongs to a live socket; \<open>idSet\<close> is the set of ids of the sessions, and no two sessions share one;
  the member list of a room has every session that names it, once, and nobody else; no room is
  empty.
\<close>

definition room_of :: "PER_HANDLE_DATA \<Rightarrow> string option" where
  "room_of u = (if status u = STATUS_CHATTIG then Some (rname u) else None)"

definition maps_ok :: "'db server \<Rightarrow> bool" where
  "maps_ok s \<longleftrightarrow> um_wf (userMap s) \<and> sm_wf (roomMap s) \<and> sm_wf (liveSocket s)"

definition users_ok :: "(SOCKET \<rightharpoonup> PER_HANDLE_DATA) \<Rightarrow> (SOCKET \<rightharpoonup> string) \<Rightarrow> bool" where
  "users_ok U L \<longleftrightarrow> (\<forall>k u. U k = Some u \<longrightarrow> user_ok u \<and> L k \<noteq> None)"

definition ids_ok :: "(SOCKET \<rightharpoonup> PER_HANDLE_DATA) \<Rightarrow> string set \<Rightarrow> bool" where
  "ids_ok U ids \<longleftrightarrow>
     ids = uid ` ran U \<and>
     (\<forall>k k' u u'. U k = Some u \<longrightarrow> U k' = Some u' \<longrightarrow> uid u = uid u' \<longrightarrow> k = k')"

definition members :: "(string \<rightharpoonup> ROOM_DATA) \<Rightarrow> string \<Rightarrow> SOCKET list" where
  "members R rn = (case R rn of None \<Rightarrow> [] | Some r \<Rightarrow> userList r)"

definition rooms_ok :: "(SOCKET \<rightharpoonup> PER_HANDLE_DATA) \<Rightarrow> (string \<rightharpoonup> ROOM_DATA) \<Rightarrow> bool" where
  "rooms_ok U R \<longleftrightarrow>
     (\<forall>k rn. k \<in> set (members R rn) \<longleftrightarrow> (\<exists>u. U k = Some u \<and> room_of u = Some rn)) \<and>
     (\<forall>rn. distinct (members R rn)) \<and>
     (\<forall>rn r. R rn = Some r \<longrightarrow> userList r \<noteq> [])"

definition sessions_ok :: "'db server \<Rightarrow> bool" where
  "sessions_ok s \<longleftrightarrow>
     maps_ok s \<and> users_ok (map_of (userMap s)) (map_of (liveSocket s)) \<and>
     ids_ok (map_of (userMap s)) (idSet s) \<and> rooms_ok (map_of (userMap s)) (map_of (roomMap s))"

definition world_ok :: "'db server \<Rightarrow> bool" where
  "world_ok s \<longleftrightarrow> sessions_ok s \<and> net_ok (net_of s)"

section \<open>The abstract view\<close>

text \<open>Id, nickname and room of every logged-in client.\<close>

type_synonym chat = "SOCKET \<Rightarrow> (string \<times> string \<times> string option) option"

definition chat_of :: "'db server \<Rightarrow> chat" where
  "chat_of s = (\<lambda>k. map_option (\<lambda>u. (uid u, uname u, room_of u)) (map_of (userMap s) k))"

text \<open>
  What one client's command may do to it: nothing, log in under an id nobody uses, log out, open a
  room nobody is in, enter a room somebody is in, leave.
\<close>

inductive chat_move :: "SOCKET \<Rightarrow> chat \<Rightarrow> chat \<Rightarrow> bool" for k :: SOCKET where
  stay: "chat_move k c c"
| login: "c k = None \<Longrightarrow> (\<forall>k' j n r. c k' = Some (j, n, r) \<longrightarrow> j \<noteq> i) \<Longrightarrow>
     chat_move k c (c(k \<mapsto> (i, nick, None)))"
| logout: "c k = Some (i, nick, None) \<Longrightarrow> chat_move k c (c(k := None))"
| make: "c k = Some (i, nick, None) \<Longrightarrow> (\<forall>k' j n. c k' \<noteq> Some (j, n, Some room)) \<Longrightarrow>
     chat_move k c (c(k \<mapsto> (i, nick, Some room)))"
| enter: "c k = Some (i, nick, None) \<Longrightarrow> (\<exists>k' j n. c k' = Some (j, n, Some room)) \<Longrightarrow>
     chat_move k c (c(k \<mapsto> (i, nick, Some room)))"
| leave: "c k = Some (i, nick, Some room) \<Longrightarrow> chat_move k c (c(k \<mapsto> (i, nick, None)))"

inductive_cases chat_moveE: "chat_move k c c'"

section \<open>Frames\<close>

text \<open>Operations that only queue a reply, talk to the database or receive a file.\<close>

definition same_sessions :: "'db server \<Rightarrow> 'db server \<Rightarrow> bool" where
  "same_sessions s s' \<longleftrightarrow>
     idSet s' = idSet s \<and> userMap s' = userMap s \<and> roomMap s' = roomMap s \<and>
     liveSocket s' = liveSocket s \<and> net_of s' = net_of s"

lemma same_sessions_refl [simp]: "same_sessions s s"
  by (simp add: same_sessions_def)

lemma same_sessions_db [simp]: "same_sessions s (s'\<lparr>database := d\<rparr>) = same_sessions s s'"
  by (simp add: same_sessions_def)

lemma same_sessions_udp [simp]: "same_sessions s (s'\<lparr>udp_of := d\<rparr>) = same_sessions s s'"
  by (simp add: same_sessions_def)

lemma same_sessions_queue [simp]:
  "same_sessions s (InsertSendQueue dir msg rn sock st s') = same_sessions s s'"
  by (simp add: same_sessions_def InsertSendQueue_def)

lemma same_sessions_ok: "same_sessions s s' \<Longrightarrow> sessions_ok s' = sessions_ok s"
  by (simp add: same_sessions_def sessions_ok_def maps_ok_def)

lemma same_sessions_world: "same_sessions s s' \<Longrightarrow> world_ok s' = world_ok s"
  using same_sessions_ok [of s s'] by (auto simp: world_ok_def same_sessions_def)

lemma same_sessions_chat: "same_sessions s s' \<Longrightarrow> chat_of s' = chat_of s"
  by (simp add: same_sessions_def chat_of_def)

lemma InsertSendQueue_simps [session_simps, simp]:
  "net_of (InsertSendQueue dir msg rn sock st s) = net_of s"
  "idSet (InsertSendQueue dir msg rn sock st s) = idSet s"
  "userMap (InsertSendQueue dir msg rn sock st s) = userMap s"
  "roomMap (InsertSendQueue dir msg rn sock st s) = roomMap s"
  "sendStop (InsertSendQueue dir msg rn sock st s) = sendStop s"
  "liveSocket (InsertSendQueue dir msg rn sock st s) = liveSocket s"
  "udp_of (InsertSendQueue dir msg rn sock st s) = udp_of s"
  "database (InsertSendQueue dir msg rn sock st s) = database s"
  by (simp_all add: InsertSendQueue_def)

lemma sendQueue_me:
  "sendQueue (InsertSendQueue SEND_ME msg rn k st s) = sendQueue s @
     [\<lparr>sd_msg = msg, sd_mySocket = Some k, sd_roomName = '''', sd_direction = SEND_ME,
       sd_status = st\<rparr>]"
  by (simp add: InsertSendQueue_def)

lemma world_ok_queue [simp]: "world_ok (InsertSendQueue dir msg rn sock st s) = world_ok s"
  by (rule same_sessions_world) simp

lemma world_ok_db [simp]: "world_ok (s\<lparr>database := d\<rparr>) = world_ok s"
  by (rule same_sessions_world) simp

lemma chat_of_queue [simp]: "chat_of (InsertSendQueue dir msg rn sock st s) = chat_of s"
  by (rule same_sessions_chat) simp

lemma chat_of_db [simp]: "chat_of (s\<lparr>database := d\<rparr>) = chat_of s"
  by (rule same_sessions_chat) simp

section \<open>Changes of the session state\<close>

lemma user_okD:
  "user_ok u \<Longrightarrow> NUL \<in> set (userName u)" "user_ok u \<Longrightarrow> NUL \<in> set (roomName u)"
  "user_ok u \<Longrightarrow> NUL \<in> set (userId u)"
  by (simp_all add: user_ok_def)

lemma user_ok_cstr:
  assumes "user_ok u"
  shows "cstr (userName u) = Inr (uname u)" "cstr (roomName u) = Inr (rname u)"
    "cstr (userId u) = Inr (uid u)"
  using user_okD [OF assms] by (simp_all add: cstr_def)

lemma room_then_user: "s\<lparr>roomMap := R, userMap := U\<rparr> = s\<lparr>userMap := U, roomMap := R\<rparr>"
  by (cases s) simp

lemma live_then_ids: "s\<lparr>liveSocket := L, idSet := i\<rparr> = s\<lparr>idSet := i, liveSocket := L\<rparr>"
  by (cases s) simp

lemma queue_then_user:
  "(InsertSendQueue dir msg rn sock st s)\<lparr>userMap := U\<rparr> =
     InsertSendQueue dir msg rn sock st (s\<lparr>userMap := U\<rparr>)"
  by (simp add: InsertSendQueue_def)

lemma user_ok_lengths:
  assumes "user_ok u"
  shows "length (uname u) < NAME_SIZE" "length (rname u) < NAME_SIZE" "length (uid u) < NAME_SIZE"
  using assms length_upto_nul_less unfolding user_ok_def by fastforce+

lemma room_of_status: "user_ok u \<Longrightarrow> room_of u = None \<longleftrightarrow> status u = STATUS_WAITING"
  by (auto simp: user_ok_def room_of_def)

lemma chat_of_None [simp]: "chat_of s k = None \<longleftrightarrow> map_of (userMap s) k = None"
  by (simp add: chat_of_def)

lemma chat_of_Some: "map_of (userMap s) k = Some u \<Longrightarrow> chat_of s k = Some (uid u, uname u, room_of u)"
  by (simp add: chat_of_def)

lemma ids_login:
  assumes "ids_ok U ids" and "U k = None" and "uid u \<notin> ids"
  shows "ids_ok (U(k \<mapsto> u)) (insert (uid u) ids)"
proof -
  have "ran (U(k \<mapsto> u)) = insert u (ran U)" using assms(2) by (rule ran_map_upd)
  then have "insert (uid u) ids = uid ` ran (U(k \<mapsto> u))" using assms(1) by (simp add: ids_ok_def)
  moreover have new: "uid u' \<noteq> uid u" if "U k' = Some u'" for k' u'
  proof
    assume "uid u' = uid u"
    moreover have "uid u' \<in> ids" using imageI [OF ranI [of U k' u', OF that]] assms(1) by (simp add: ids_ok_def)
    ultimately show False using assms(3) by simp
  qed
  have "k1 = k2" if "(U(k \<mapsto> u)) k1 = Some u1" "(U(k \<mapsto> u)) k2 = Some u2" "uid u1 = uid u2"
    for k1 k2 u1 u2
  proof (cases "k1 = k \<or> k2 = k")
    case True
    with that new [of k1] new [of k2] show ?thesis by (auto split: if_splits)
  next
    case False
    with that assms(1) show ?thesis unfolding ids_ok_def by simp
  qed
  ultimately show ?thesis unfolding ids_ok_def by blast
qed

lemma ids_logout:
  assumes "ids_ok U ids" and "U k = Some u"
  shows "ids_ok (U(k := None)) (ids - {uid u})"
  unfolding ids_ok_def
proof (intro conjI allI impI)
  show "ids - {uid u} = uid ` ran (U(k := None))"
  proof (intro equalityI subsetI)
    fix i assume "i \<in> ids - {uid u}"
    then obtain k' u' where "U k' = Some u'" "i = uid u'" "uid u' \<noteq> uid u"
      using assms(1) by (auto simp: ids_ok_def ran_def)
    with assms(2) have "(U(k := None)) k' = Some u'" by auto
    then have "u' \<in> ran (U(k := None))" by (rule ranI)
    then show "i \<in> uid ` ran (U(k := None))" using \<open>i = uid u'\<close> by blast
  next
    fix i assume "i \<in> uid ` ran (U(k := None))"
    then obtain k' u' where "U k' = Some u'" "i = uid u'" "k' \<noteq> k"
      by (auto simp: ran_def split: if_splits)
    then show "i \<in> ids - {uid u}" using assms by (auto simp: ids_ok_def intro: ranI)
  qed
next
  fix k' k'' u' u''
  assume "(U(k := None)) k' = Some u'" "(U(k := None)) k'' = Some u''" "uid u' = uid u''"
  then show "k' = k''" using assms(1) unfolding ids_ok_def by (auto split: if_splits)
qed

lemma ids_modify:
  assumes "ids_ok U ids" and "U k = Some u" and "uid u' = uid u"
  shows "ids_ok (U(k \<mapsto> u')) ids"
proof -
  have "uid ` ran (U(k \<mapsto> u')) = uid ` ran U"
  proof (intro equalityI subsetI)
    fix i assume "i \<in> uid ` ran (U(k \<mapsto> u'))"
    then obtain k' v where "(U(k \<mapsto> u')) k' = Some v" "i = uid v" by (auto simp: ran_def)
    then show "i \<in> uid ` ran U"
      using assms(2,3) by (cases "k' = k") (auto simp: ran_def image_iff)
  next
    fix i assume "i \<in> uid ` ran U"
    then obtain k' v where v: "U k' = Some v" "i = uid v" by (auto simp: ran_def)
    let ?v = "if k' = k then u' else v"
    have "?v \<in> ran (U(k \<mapsto> u'))" using v(1) by (intro ranI [of _ k']) simp
    moreover have "i = uid ?v" using v assms(2,3) by auto
    ultimately show "i \<in> uid ` ran (U(k \<mapsto> u'))" by (rule rev_image_eqI)
  qed
  then show ?thesis using assms by (auto simp: ids_ok_def split: if_splits)
qed

definition list_without :: "SOCKET \<Rightarrow> ROOM_DATA \<Rightarrow> ROOM_DATA" where
  "list_without k r = r\<lparr>userList := removeAll k (userList r)\<rparr>"

text \<open>The lists of the rooms, empty rooms aside.\<close>

definition seats_ok :: "(SOCKET \<Rightarrow> PER_HANDLE_DATA option) \<Rightarrow> (string \<Rightarrow> ROOM_DATA option) \<Rightarrow> bool" where
  "seats_ok V R \<longleftrightarrow>
     (\<forall>k rn. k \<in> set (members R rn) \<longleftrightarrow> (\<exists>u. V k = Some u \<and> room_of u = Some rn)) \<and>
     (\<forall>rn. distinct (members R rn))"

lemma rooms_seats: "rooms_ok V R \<longleftrightarrow> seats_ok V R \<and> (\<forall>rn r. R rn = Some r \<longrightarrow> userList r \<noteq> [])"
  by (auto simp: rooms_ok_def seats_ok_def)

lemma seats_same:
  assumes "seats_ok V R" and "map_option room_of (V k) \<in> {None, Some None}"
    and "map_option room_of x \<in> {None, Some None}"
  shows "seats_ok (V(k := x)) R"
  using assms by (auto simp: seats_ok_def)

lemma seats_join:
  assumes inv: "seats_ok V R" and "V k = Some u" "room_of u = None" and "room_of u' = Some rn"
    and r: "userList r = members R rn @ [k]"
  shows "seats_ok (V(k \<mapsto> u')) (R(rn \<mapsto> r))"
proof -
  have m: "members (R(rn \<mapsto> r)) = (members R)(rn := members R rn @ [k])"
    by (auto simp: members_def r fun_eq_iff)
  have "k \<notin> set (members R rn')" for rn' using assms(1-3) by (simp add: seats_ok_def)
  then show ?thesis using assms unfolding seats_ok_def m by (auto split: if_splits)
qed

lemma seats_leave:
  assumes inv: "seats_ok V R" and "V k = Some u" "room_of u = Some rn" and r: "R rn = Some r"
  shows "seats_ok (V(k := None)) (R(rn \<mapsto> list_without k r))"
proof -
  have m: "members (R(rn \<mapsto> list_without k r)) = (members R)(rn := removeAll k (members R rn))"
    using r by (auto simp: members_def list_without_def fun_eq_iff)
  have k: "k \<in> set (members R rn') \<longleftrightarrow> rn' = rn" for rn'
    using assms(1-3) by (auto simp: seats_ok_def)
  show ?thesis
    unfolding seats_ok_def m
  proof (intro conjI allI)
    fix k' rn'
    show "k' \<in> set (((members R)(rn := removeAll k (members R rn))) rn') \<longleftrightarrow>
        (\<exists>u. (V(k := None)) k' = Some u \<and> room_of u = Some rn')"
      using inv k [of rn'] unfolding seats_ok_def by (cases "k' = k") auto
    show "distinct (((members R)(rn := removeAll k (members R rn))) rn')"
      using inv unfolding seats_ok_def by (simp add: distinct_removeAll)
  qed
qed

lemma seats_drop:
  assumes "seats_ok V R" and "R rn = Some r" "userList r = []"
  shows "seats_ok V (R(rn := None))"
proof -
  have "members (R(rn := None)) = members R" using assms(2,3) by (auto simp: members_def fun_eq_iff)
  then show ?thesis using assms(1) by (simp add: seats_ok_def)
qed

lemma seats_member:
  assumes "seats_ok V R" and "V k = Some u" "room_of u = Some rn"
  obtains r where "R rn = Some r" "k \<in> set (userList r)"
proof -
  have "k \<in> set (members R rn)" using assms by (auto simp: seats_ok_def)
  then show thesis using that by (cases "R rn") (auto simp: members_def)
qed

text \<open>The same with no empty room.\<close>

lemma rooms_same:
  assumes "rooms_ok U R" and "map_option room_of (U k) \<in> {None, Some None}"
    and "map_option room_of x \<in> {None, Some None}"
  shows "rooms_ok (U(k := x)) R"
  using assms by (simp add: rooms_seats seats_same)

lemma rooms_join:
  assumes "rooms_ok U R" and "U k = Some u" "room_of u = None" and "room_of u' = Some rn"
    and "userList r = members R rn @ [k]"
  shows "rooms_ok (U(k \<mapsto> u')) (R(rn \<mapsto> r))"
  using assms seats_join [of U R k u u' rn r] by (auto simp: rooms_seats)

lemma rooms_leave:
  assumes inv: "rooms_ok U R" and k: "U k = Some u" "room_of u = Some rn"
    and x: "map_option room_of x \<in> {None, Some None}"
    and r: "R rn = Some r" "userList r' = removeAll k (userList r)"
  shows "rooms_ok (U(k := x)) (if userList r' = [] then R(rn := None) else R(rn \<mapsto> r'))"
proof -
  have r': "r' = list_without k r" using r(2) by (cases r; cases r') (simp add: list_without_def)
  have "seats_ok U R" using inv by (simp add: rooms_seats)
  from seats_same [OF seats_leave [OF this k r(1)], of k x] x
  have seats: "seats_ok (U(k := x)) (R(rn \<mapsto> r'))" by (simp add: r')
  from seats_drop [OF this, of rn r'] inv seats show ?thesis by (auto simp: rooms_seats)
qed

lemma rooms_member:
  assumes "rooms_ok U R" and "U k = Some u" "room_of u = Some rn"
  obtains r where "R rn = Some r" "k \<in> set (userList r)"
proof -
  have "k \<in> set (members R rn)" using assms by (auto simp: rooms_ok_def)
  then show thesis using that by (cases "R rn") (auto simp: members_def)
qed

section \<open>Transitions of the state\<close>

text \<open>
  What a handler establishes: the invariant still holds and the client made one move of the abstract
  view.
\<close>

definition moves :: "SOCKET \<Rightarrow> 'db server \<Rightarrow> 'db server \<Rightarrow> bool" where
  "moves k s s' \<longleftrightarrow> world_ok s' \<and> chat_move k (chat_of s) (chat_of s')"

lemma moves_queue [simp]: "moves k s (InsertSendQueue dir msg rn sock st s') = moves k s s'"
  by (simp add: moves_def)

lemma moves_db [simp]: "moves k s (s'\<lparr>database := d\<rparr>) = moves k s s'"
  by (simp add: moves_def)

lemma moves_db_from: "moves k (s\<lparr>database := d\<rparr>) = moves k s"
  by (simp add: moves_def fun_eq_iff)

lemma moves_same: "world_ok s \<Longrightarrow> same_sessions s s' \<Longrightarrow> moves k s s'"
  by (simp add: moves_def same_sessions_world same_sessions_chat chat_move.stay)

lemma world_okD:
  assumes "world_ok s"
  shows "um_wf (userMap s)" "sm_wf (roomMap s)" "sm_wf (liveSocket s)"
    "users_ok (map_of (userMap s)) (map_of (liveSocket s))"
    "ids_ok (map_of (userMap s)) (idSet s)"
    "rooms_ok (map_of (userMap s)) (map_of (roomMap s))"
    "net_ok (net_of s)"
  using assms by (simp_all add: world_ok_def sessions_ok_def maps_ok_def)

lemma world_user:
  assumes "world_ok s" and "map_of (userMap s) k = Some u"
  shows "user_ok u" and "map_of (liveSocket s) k \<noteq> None" and "uid u \<in> idSet s"
  using world_okD(4,5) [OF assms(1)] assms(2) by (auto simp: users_ok_def ids_ok_def ranI)

lemma chat_of_upd: "map_of (userMap s') = (map_of (userMap s))(k := x) \<Longrightarrow>
    chat_of s' = (chat_of s)(k := map_option (\<lambda>u. (uid u, uname u, room_of u)) x)"
  by (auto simp: chat_of_def fun_eq_iff)

lemma moves_login:
  assumes s: "world_ok s" and k: "map_of (userMap s) k = None" "map_of (liveSocket s) k \<noteq> None"
    and u: "user_ok u" "status u = STATUS_WAITING" "uid u \<notin> idSet s"
  shows "moves k s (s\<lparr>idSet := insert (uid u) (idSet s), userMap := um_put od k u (userMap s)\<rparr>)"
    (is "moves k s ?s'")
proof -
  have r: "room_of u = None" using u(2) by (simp add: room_of_def)
  have U: "map_of (userMap ?s') = (map_of (userMap s))(k := Some u)"
    using world_okD(1) [OF s] by (simp add: map_of_um_put)
  have "uid v \<noteq> uid u" if "map_of (userMap s) k' = Some v" for k' v
    using u(3) world_user(3) [OF s that] by auto
  then have "chat_move k (chat_of s) (chat_of ?s')"
    unfolding chat_of_upd [OF U] using k(1) r
    by (auto simp: chat_of_def intro!: chat_move.login)
  moreover have "rooms_ok ((map_of (userMap s))(k := Some u)) (map_of (roomMap s))"
    using world_okD(6) [OF s] k(1) r by (intro rooms_same) simp_all
  moreover have "users_ok ((map_of (userMap s))(k := Some u)) (map_of (liveSocket s))"
    using world_okD(4) [OF s] k u(1) by (auto simp: users_ok_def)
  moreover have "maps_ok ?s'" using world_okD(1-3) [OF s] by (simp add: maps_ok_def um_wf_put)
  ultimately show ?thesis
    using s ids_login [OF world_okD(5) [OF s] k(1) u(3)] U
    by (simp add: moves_def world_ok_def sessions_ok_def)
qed

lemma moves_logout:
  assumes s: "world_ok s" and k: "map_of (userMap s) k = Some u" and r: "room_of u = None"
  shows "moves k s (s\<lparr>idSet := idSet s - {uid u}, userMap := am_erase k (userMap s)\<rparr>)"
    (is "moves k s ?s'")
proof -
  have U: "map_of (userMap ?s') = (map_of (userMap s))(k := None)" by (simp add: map_of_am_erase)
  have "chat_move k (chat_of s) (chat_of ?s')"
    unfolding chat_of_upd [OF U] using k r by (auto simp: chat_of_def intro!: chat_move.logout)
  moreover have "rooms_ok ((map_of (userMap s))(k := None)) (map_of (roomMap s))"
    using world_okD(6) [OF s] k r by (intro rooms_same) simp_all
  moreover have "users_ok ((map_of (userMap s))(k := None)) (map_of (liveSocket s))"
    using world_okD(4) [OF s] by (auto simp: users_ok_def)
  moreover have "maps_ok ?s'" using world_okD(1-3) [OF s] by (simp add: maps_ok_def um_wf_erase)
  ultimately show ?thesis
    using s ids_logout [OF world_okD(5) [OF s] k] U
    by (simp add: moves_def world_ok_def sessions_ok_def)
qed

text \<open>Joining: the session names the room, and the room's list gets the socket at its end.\<close>

definition join_room :: "string \<Rightarrow> PER_HANDLE_DATA \<Rightarrow> PER_HANDLE_DATA" where
  "join_room rn u = u\<lparr>roomName := strncpy NAME_SIZE rn, status := STATUS_CHATTIG\<rparr>"

lemma join_room_ok:
  assumes "user_ok u" and "nul_free rn" and "length rn < NAME_SIZE"
  shows "user_ok (join_room rn u)" "room_of (join_room rn u) = Some rn"
    "uid (join_room rn u) = uid u" "uname (join_room rn u) = uname u"
  using assms by (simp_all add: user_ok_def join_room_def room_of_def upto_nul_strncpy NUL_in_strncpy)

lemma moves_join:
  assumes s: "world_ok s" and k: "map_of (userMap s) k = Some u" "room_of u = None"
    and rn: "nul_free rn" "length rn < NAME_SIZE"
    and R: "map_of R' = (map_of (roomMap s))(rn \<mapsto> r)" "sm_wf R'"
      "userList r = members (map_of (roomMap s)) rn @ [k]"
  shows "moves k s (s\<lparr>userMap := am_modify k (join_room rn) (userMap s), roomMap := R'\<rparr>)"
    (is "moves k s ?s'")
proof -
  note j = join_room_ok [OF world_user(1) [OF s k(1)] rn]
  have U: "map_of (userMap ?s') = (map_of (userMap s))(k := Some (join_room rn u))"
    by (simp add: map_of_am_modify k(1))
  have inroom: "k' \<in> set (members (map_of (roomMap s)) rn) \<longleftrightarrow>
      (\<exists>i n. chat_of s k' = Some (i, n, Some rn))" for k'
    using world_okD(6) [OF s] by (auto simp: rooms_ok_def chat_of_def)
  have "chat_move k (chat_of s) ((chat_of s)(k \<mapsto> (uid u, uname u, Some rn)))"
  proof (cases "members (map_of (roomMap s)) rn = []")
    case True
    then have "\<forall>k' i n. chat_of s k' \<noteq> Some (i, n, Some rn)" using inroom by auto
    then show ?thesis using chat_of_Some [OF k(1)] k(2) by (auto intro: chat_move.make)
  next
    case False
    then obtain k' where "k' \<in> set (members (map_of (roomMap s)) rn)" by (cases "members (map_of (roomMap s)) rn") auto
    then have "\<exists>k' i n. chat_of s k' = Some (i, n, Some rn)" using inroom by blast
    then show ?thesis using chat_of_Some [OF k(1)] k(2) by (auto intro: chat_move.enter)
  qed
  then have "chat_move k (chat_of s) (chat_of ?s')"
    unfolding chat_of_upd [OF U] by (simp add: j)
  moreover have "rooms_ok ((map_of (userMap s))(k := Some (join_room rn u))) (map_of R')"
    unfolding R(1) using world_okD(6) [OF s] k j(2) R(3) by (rule rooms_join)
  moreover have "users_ok ((map_of (userMap s))(k := Some (join_room rn u))) (map_of (liveSocket s))"
    using world_okD(4) [OF s] world_user(2) [OF s k(1)] j(1) by (auto simp: users_ok_def)
  moreover have "ids_ok ((map_of (userMap s))(k := Some (join_room rn u))) (idSet s)"
    using world_okD(5) [OF s] k(1) j(3) by (rule ids_modify)
  moreover have "maps_ok ?s'" using world_okD(1-3) [OF s] R(2) by (simp add: maps_ok_def um_wf_modify)
  ultimately show ?thesis
    using s U by (simp add: moves_def world_ok_def sessions_ok_def)
qed

text \<open>
  Leaving: \<open>x\<close> is what becomes of the session, reset (\<open>Some\<close>, a move to the waiting room) or erased
  (\<open>None\<close>, with its id).
\<close>

definition reset_user :: "PER_HANDLE_DATA \<Rightarrow> PER_HANDLE_DATA" where
  "reset_user u = u\<lparr>roomName := strncpy NAME_SIZE '''', status := STATUS_WAITING\<rparr>"

lemma reset_user_ok:
  assumes "user_ok u"
  shows "user_ok (reset_user u)" "room_of (reset_user u) = None"
    "uid (reset_user u) = uid u" "uname (reset_user u) = uname u"
  using assms
  by (simp_all add: user_ok_def reset_user_def room_of_def upto_nul_strncpy NUL_in_strncpy
      NAME_SIZE_def)

lemma roomMap_after:
  assumes "map_of (roomMap s) rn = Some r"
  shows "map_of (roomMap (drop_empty_room rn (s\<lparr>roomMap := am_modify rn (list_without k) (roomMap s)\<rparr>))) =
    (if userList (list_without k r) = [] then (map_of (roomMap s))(rn := None)
     else (map_of (roomMap s))(rn \<mapsto> list_without k r))"
  using assms by (simp add: drop_empty_room_def map_of_am_modify map_of_am_erase)

lemma drop_empty_room_simps [session_simps, simp]:
  "net_of (drop_empty_room rn s) = net_of s"
  "idSet (drop_empty_room rn s) = idSet s"
  "userMap (drop_empty_room rn s) = userMap s"
  "sendQueue (drop_empty_room rn s) = sendQueue s"
  "sendStop (drop_empty_room rn s) = sendStop s"
  "liveSocket (drop_empty_room rn s) = liveSocket s"
  "database (drop_empty_room rn s) = database s"
  by (simp_all add: drop_empty_room_def split: option.splits)

lemma drop_empty_room_cong: "roomMap s = roomMap s' \<Longrightarrow>
    roomMap (drop_empty_room rn s) = roomMap (drop_empty_room rn s')"
  by (simp add: drop_empty_room_def split: option.splits)

lemma sm_wf_drop: "sm_wf (roomMap s) \<Longrightarrow> sm_wf (roomMap (drop_empty_room rn s))"
  by (simp add: drop_empty_room_def sm_wf_erase split: option.splits)

lemma sessions_leave:
  assumes s: "world_ok s" and k: "map_of (userMap s) k = Some u" "room_of u = Some rn"
    and r: "map_of (roomMap s) rn = Some r"
    and x: "x = None \<and> L = (map_of (liveSocket s))(k := None) \<and> ids = idSet s - {uid u} \<or>
            x = None \<and> L = map_of (liveSocket s) \<and> ids = idSet s - {uid u} \<or>
            x = Some (reset_user u) \<and> L = map_of (liveSocket s) \<and> ids = idSet s"
    and U': "map_of (userMap s') = (map_of (userMap s))(k := x)" "um_wf (userMap s')"
    and R': "map_of (roomMap s') = (if userList (list_without k r) = []
        then (map_of (roomMap s))(rn := None) else (map_of (roomMap s))(rn \<mapsto> list_without k r))"
      "sm_wf (roomMap s')"
    and L': "map_of (liveSocket s') = L" "sm_wf (liveSocket s')" and ids': "idSet s' = ids"
  shows "sessions_ok s'"
proof -
  note w = reset_user_ok [OF world_user(1) [OF s k(1)]]
  have "map_option room_of x \<in> {None, Some None}" using x w(2) by auto
  then have "rooms_ok (map_of (userMap s')) (map_of (roomMap s'))"
    unfolding U'(1) R'(1)
    using world_okD(6) [OF s] k r by (intro rooms_leave) (simp_all add: list_without_def)
  moreover have "users_ok (map_of (userMap s')) (map_of (liveSocket s'))"
    unfolding U'(1) L'(1) using world_okD(4) [OF s] world_user(2) [OF s k(1)] x w(1)
    by (auto simp: users_ok_def)
  moreover have "ids_ok (map_of (userMap s')) (idSet s')"
  proof (cases "x = None")
    case True
    then show ?thesis using x unfolding U'(1) ids'
      by (auto intro: ids_logout [OF world_okD(5) [OF s] k(1)])
  next
    case False
    then have "x = Some (reset_user u)" "ids = idSet s" using x by auto
    then show ?thesis unfolding U'(1) ids'
      by (simp add: ids_modify [OF world_okD(5) [OF s] k(1) w(3)])
  qed
  ultimately show ?thesis using U'(2) R'(2) L'(2) by (simp add: sessions_ok_def maps_ok_def)
qed

section \<open>Leaving, operation by operation\<close>

text \<open>The notice to the room goes out at once, to every member of the list as it was.\<close>

definition room_notice :: "string \<Rightarrow> SOCKET list \<Rightarrow> (SOCKET \<times> char list) list" where
  "room_notice msg ks = map (\<lambda>k. (k, wire_packet (status_int STATUS_CHATTIG) 0 msg)) ks"

lemma broadcast_leave_ok:
  assumes "net_ok (net_of s)" and r: "map_of (roomMap s) rn = Some r"
    and msg: "nul_free msg" "length msg \<le> MAX_TEXT"
  obtains n where "net_ok n"
    "sends (wire n) = sends (wire (net_of s)) @ room_notice msg (userList r)"
    "broadcast_leave env msg rn k s =
       Inr (s\<lparr>net_of := n, roomMap := am_modify rn (list_without k) (roomMap s)\<rparr>)"
proof -
  obtain co mo where inv: "net_inv (net_of s) co mo" using assms(1) by (rule net_ok_inv)
  obtain n where n: "SendToRoomMsg (past env) msg (userList r) STATUS_CHATTIG (net_of s) = Inr n"
      "posted (net_of s) co mo (room_notice msg (userList r)) n"
    using posted_room [OF inv msg, of "past env" "userList r" STATUS_CHATTIG]
    by (auto simp: ok_iff room_notice_def)
  have "net_ok n"
    using net_ok_room [OF assms(1) msg, of "past env" "userList r" STATUS_CHATTIG] n(1) by simp
  moreover have "sends (wire n) = sends (wire (net_of s)) @ room_notice msg (userList r)"
    using n(2) by (simp add: posted_def)
  moreover have "broadcast_leave env msg rn k s =
      Inr (s\<lparr>net_of := n, roomMap := am_modify rn (list_without k) (roomMap s)\<rparr>)"
    using n(1) r by (simp add: broadcast_leave_def list_without_def [abs_def])
  ultimately show thesis using that by blast
qed

lemma reset_session_eq:
  "map_of (userMap s) k = Some u \<Longrightarrow>
     reset_session k s = Inr (s\<lparr>userMap := am_modify k reset_user (userMap s)\<rparr>)"
  by (simp add: reset_session_def upd_user_def reset_user_def [abs_def])

lemma session_names_ok:
  "world_ok s \<Longrightarrow> map_of (userMap s) k = Some u \<Longrightarrow> session_names k s = Inr (uname u, uid u)"
  using world_user(1) [of s k u] by (simp add: session_names_def cstr_def user_okD)

lemma find_user_ok:
  assumes "\<forall>u\<in>snd ` set m. NUL \<in> set (userName u)"
  shows "find_user name m = Inr (List.find (\<lambda>(k, u). uname u = name) m)"
  using assms by (induction m) (auto simp: cstr_def)

lemma world_find_user:
  assumes "world_ok s"
  shows "find_user name (userMap s) = Inr (List.find (\<lambda>(k, u). uname u = name) (userMap s))"
proof (rule find_user_ok, rule ballI)
  fix u assume "u \<in> snd ` set (userMap s)"
  then obtain k where "(k, u) \<in> set (userMap s)" by auto
  then have "map_of (userMap s) k = Some u"
    using um.entry_iff [OF world_okD(1) [OF assms]] by simp
  then show "NUL \<in> set (userName u)" using world_user(1) [OF assms] user_okD(1) by blast
qed

lemma find_SomeD:
  assumes "um_wf m" and "List.find (\<lambda>(k, u). uname u = name) m = Some (k, u)"
  shows "map_of m k = Some u" and "uname u = name"
proof -
  have "(k, u) \<in> set m \<and> uname u = name" using assms(2) by (auto simp: find_Some_iff in_set_conv_nth)
  then show "map_of m k = Some u" and "uname u = name" using um.entry_iff [OF assms(1)] by auto
qed

end
