(* ===== verification/Handlers.thy ===== *)
theory Handlers
  imports Session
begin

text \<open>
  The request handlers of \<open>BusinessService\<close> (\<open>src/Chat/Server/BusinessService.cpp\<close>), one definition per
  member function, statement by statement. The parameters \<open>status\<close> and \<open>direction\<close>, which only
  \<open>StatusLogout\<close>, \<open>StatusWait\<close> and \<open>StatusChat\<close> read, are left out of the others. Output to the
  console is left out. \<open>message\<close> is the text of a \<open>std::string\<close> made from a C string.
\<close>

section \<open>Accounts\<close>

text \<open>
  \<open>char message2[BUF_SIZE]; strncpy(message2, message, BUF_SIZE)\<close> and the \<open>strtok\<close> loop that stores the
  pieces in \<open>sArr\<close>, an array of \<open>n\<close> pointers.
\<close>

definition tokens :: "nat \<Rightarrow> string \<Rightarrow> cpp_error + string list" where
  "tokens n message =
     sbind (cstr (strncpy BUF_SIZE message)) (\<lambda>message2. strtok_loop (CHR 0x5C) n 0 message2)"

definition UserMake :: "'db cfg \<Rightarrow> SOCKET \<Rightarrow> string \<Rightarrow> 'db server \<Rightarrow> cpp_error + 'db server" where
  "UserMake env sock message s =
     sbind (tokens 3 message) (\<lambda>sArr.
     case sArr of
       [a, b, c] \<Rightarrow>
         sbind (selectUser env (setUserId a UserVo_new) (database s)) (\<lambda>(vo, db).
         let vo = UserVo_copy vo; s = s\<lparr>database := db\<rparr> in
         sbind (getUserId vo) (\<lambda>u.
         if u = '''' then
           let vo = setNickName c (setPassword b (setUserId a vo)) in
           sbind (InsertUser env vo (database s)) (\<lambda>db.
           Inr (InsertSendQueue SEND_ME (a @ m_made @ loginBeforeMessage) '''' sock STATUS_LOGOUT
                  (s\<lparr>database := db\<rparr>)))
         else
           Inr (InsertSendQueue SEND_ME (m_idTaken @ loginBeforeMessage) '''' sock STATUS_LOGOUT s)))
     | _ \<Rightarrow> Inr s)"

definition InitUser ::
    "'db cfg \<Rightarrow> string \<Rightarrow> SOCKET \<Rightarrow> string \<Rightarrow> 'db server \<Rightarrow> cpp_error + 'db server" where
  "InitUser env ident sock nickName s =
     (let userInfo = \<lparr>userName = strncpy NAME_SIZE nickName, roomName = strncpy NAME_SIZE '''',
                      userId = strncpy NAME_SIZE ident, status = STATUS_WAITING\<rparr>;
          s = s\<lparr>userMap := um_put (ord env) sock userInfo (userMap s)\<rparr> in
      sbind (strncpy_src 10 (userId userInfo)) (\<lambda>u.
      sbind (strncpy_src 20 (userName userInfo)) (\<lambda>n.
      let vo = setNickName n (setUserId u LogVo_new) in
      sbind (UpdateUser env vo (database s)) (\<lambda>db.
      sbind (InsertLogin env vo db) (\<lambda>db.
      Inr (InsertSendQueue SEND_ME (nickName @ m_entered @ waitRoomMessage) '''' sock STATUS_WAITING
             (s\<lparr>database := db\<rparr>)))))))"

definition UserEnter :: "'db cfg \<Rightarrow> SOCKET \<Rightarrow> string \<Rightarrow> 'db server \<Rightarrow> cpp_error + 'db server" where
  "UserEnter env sock message s =
     sbind (tokens 2 message) (\<lambda>sArr.
     case sArr of
       [a, b] \<Rightarrow>
         sbind (selectUser env (setUserId a UserVo_new) (database s)) (\<lambda>(vo, db).
         let vo = UserVo_copy vo; s = s\<lparr>database := db\<rparr> in
         sbind (getUserId vo) (\<lambda>u.
         if u = '''' then
           Inr (InsertSendQueue SEND_ME (m_noAccount @ loginBeforeMessage) '''' sock STATUS_LOGOUT s)
         else
           sbind (getPassword vo) (\<lambda>pw.
           if pw = b then
             (if a \<in> idSet s then
                Inr (InsertSendQueue SEND_ME (m_doubleLogin @ loginBeforeMessage) '''' sock
                       STATUS_LOGOUT s)
              else
                sbind (getNickName vo) (\<lambda>nick.
                InitUser env a sock nick (s\<lparr>idSet := insert a (idSet s)\<rparr>)))
           else
             Inr (InsertSendQueue SEND_ME (m_badPassword @ loginBeforeMessage) '''' sock
                    STATUS_LOGOUT s))))
     | _ \<Rightarrow> Inr s)"

section \<open>Rooms\<close>

definition RoomMake :: "SOCKET \<Rightarrow> string \<Rightarrow> 'db server \<Rightarrow> cpp_error + 'db server" where
  "RoomMake sock message s =
     sbind (session_names sock s) (\<lambda>_.
     if map_of (roomMap s) message \<noteq> None then
       Inr (InsertSendQueue SEND_ME (message @ m_roomTaken @ waitRoomMessage) '''' sock
              STATUS_WAITING s)
     else
       sbind (upd_user sock (\<lambda>u. u\<lparr>roomName := strncpy NAME_SIZE message, status := STATUS_CHATTIG\<rparr>)
                (s\<lparr>roomMap := sm_put message \<lparr>userList = [sock]\<rparr> (roomMap s)\<rparr>)) (\<lambda>s.
       Inr (InsertSendQueue SEND_ME (message @ m_roomMade @ chatRoomMessage) '''' sock
              STATUS_CHATTIG s)))"

definition RoomEnter :: "SOCKET \<Rightarrow> string \<Rightarrow> 'db server \<Rightarrow> cpp_error + 'db server" where
  "RoomEnter sock message s =
     sbind (session_names sock s) (\<lambda>(name, _).
     if map_of (roomMap s) message = None then
       Inr (InsertSendQueue SEND_ME (message @ m_noRoom @ waitRoomMessage) '''' sock STATUS_WAITING s)
     else
       sbind (upd_user sock (\<lambda>u. u\<lparr>roomName := strncpy NAME_SIZE message, status := STATUS_CHATTIG\<rparr>)
                s) (\<lambda>s.
       sbind (am_at (roomMap s) message) (\<lambda>_.
       Inr (InsertSendQueue SEND_ROOM (name @ m_joined @ chatRoomMessage) message 0 STATUS_CHATTIG
              (s\<lparr>roomMap := am_modify message (\<lambda>r. r\<lparr>userList := userList r @ [sock]\<rparr>)
                               (roomMap s)\<rparr>)))))"

text \<open>\<open>to_string\<close> of a \<open>size_t\<close>, and \<open>%d\<close> of an \<open>int\<close>.\<close>

fun decimal :: "nat \<Rightarrow> string" where
  "decimal n = (if n < 10 then [char_of (48 + n)] else decimal (n div 10) @ [char_of (48 + n mod 10)])"

lemma length_decimal: "n < 10 ^ d \<Longrightarrow> 0 < d \<Longrightarrow> length (decimal n) \<le> d"
proof (induction d arbitrary: n)
  case (Suc d)
  show ?case
  proof (cases "n < 10")
    case False
    then have "0 < d" using Suc.prems(1) by (cases d) auto
    moreover have "n div 10 < 10 ^ d" using Suc.prems(1) by (simp add: less_mult_imp_div_less)
    ultimately show ?thesis using Suc.IH [of "n div 10"] False by simp
  qed simp
qed simp

definition decimal_int :: "int \<Rightarrow> string" where
  "decimal_int i = (if i < 0 then ''-'' @ decimal (nat (- i)) else decimal (nat i))"

fun room_lines :: "(string \<times> ROOM_DATA) list \<Rightarrow> string" where
  "room_lines [] = ''''"
| "room_lines ((rn, r) # m) =
     [CHR 0x0A] @ upto_nul rn @ '':'' @ decimal (length (userList r)) @ m_people @ room_lines m"

definition RoomInfo :: "SOCKET \<Rightarrow> 'db server \<Rightarrow> cpp_error + 'db server" where
  "RoomInfo sock s =
     sbind (session_names sock s) (\<lambda>_.
     let str = (if roomMap s = [] then m_noRooms else m_roomList @ room_lines (roomMap s)) in
     Inr (InsertSendQueue SEND_ME str '''' sock STATUS_WAITING s))"

text \<open>The list of users, cut once it has reached 4000 characters.\<close>

fun user_lines :: "string \<Rightarrow> (SOCKET \<times> PER_HANDLE_DATA) list \<Rightarrow> cpp_error + string" where
  "user_lines str [] = Inr str"
| "user_lines str ((k, u) # m) =
     (if length str \<ge> 4000 then Inr str
      else
        sbind (cstr (userName u)) (\<lambda>name.
        sbind (if status u = STATUS_WAITING then Inr m_waitingRoom else cstr (roomName u)) (\<lambda>place.
        user_lines (str @ [CHR 0x0A] @ name @ '':'' @ place) m)))"

definition RoomUserInfo :: "SOCKET \<Rightarrow> 'db server \<Rightarrow> cpp_error + 'db server" where
  "RoomUserInfo sock s =
     sbind (session_names sock s) (\<lambda>_.
     sbind (user_lines m_userList (userMap s)) (\<lambda>str.
     Inr (InsertSendQueue SEND_ME str '''' sock STATUS_WAITING s)))"

section \<open>Whispering\<close>

definition Whisper :: "SOCKET \<Rightarrow> string \<Rightarrow> 'db server \<Rightarrow> cpp_error + 'db server" where
  "Whisper sock message s =
     sbind (session_names sock s) (\<lambda>_.
     sbind (tokens 2 message) (\<lambda>sArr.
     case sArr of
       [name, msg] \<Rightarrow>
         sbind (session_names sock s) (\<lambda>(me, _).
         if name = me then
           Inr (InsertSendQueue SEND_ME (m_selfWhisper @ waitRoomMessage) '''' sock STATUS_WAITING s)
         else
           sbind (find_user name (userMap s)) (\<lambda>hit.
           case hit of
             Some (k, _) \<Rightarrow>
               Inr (InsertSendQueue SEND_ME (me @ m_whisperFrom @ msg) '''' k STATUS_WHISPER s)
           | None \<Rightarrow>
               Inr (InsertSendQueue SEND_ME (name @ m_notFound) '''' sock STATUS_WAITING s)))
     | _ \<Rightarrow> Inr s))"

section \<open>Friends\<close>

fun friend_lines :: "RelationVo list \<Rightarrow> (SOCKET \<times> PER_HANDLE_DATA) list \<Rightarrow> cpp_error + string" where
  "friend_lines [] m = Inr ''''"
| "friend_lines (vo # vec) m =
     sbind (getNickName vo) (\<lambda>nick.
     sbind (find_user nick m) (\<lambda>hit.
     sbind (case hit of
              None \<Rightarrow> Inr m_offline
            | Some (_, u) \<Rightarrow>
                sbind (cstr (roomName u)) (\<lambda>rn. Inr (if rn = '''' then m_waitingRoom else rn))) (\<lambda>place.
     sbind (friend_lines vec m) (\<lambda>more.
     Inr ([CHR 0x0A] @ nick @ '':'' @ place @ more)))))"

definition FriendInfo :: "'db cfg \<Rightarrow> SOCKET \<Rightarrow> 'db server \<Rightarrow> cpp_error + 'db server" where
  "FriendInfo env sock s =
     sbind (session_names sock s) (\<lambda>(_, uid).
     sbind (selectFriends env (setUserId uid RelationVo_new) (database s)) (\<lambda>(vec, db).
     sbind (if vec = [] then Inr (m_friendList @ m_noFriends)
            else sbind (friend_lines vec (userMap s)) (\<lambda>ls. Inr (m_friendList @ ls))) (\<lambda>sendMsg.
     Inr (InsertSendQueue SEND_ME sendMsg '''' sock STATUS_WAITING (s\<lparr>database := db\<rparr>)))))"

definition FriendAdd :: "'db cfg \<Rightarrow> SOCKET \<Rightarrow> string \<Rightarrow> 'db server \<Rightarrow> cpp_error + 'db server" where
  "FriendAdd env sock message s =
     sbind (session_names sock s) (\<lambda>(_, uid).
     sbind (findUserId env (setNickName message RelationVo_new) (database s)) (\<lambda>(vo2, db).
     let vo2 = RelationVo_copy vo2; s = s\<lparr>database := db\<rparr> in
     sbind (getRelationto vo2) (\<lambda>to.
     if to = '''' then Inr (InsertSendQueue SEND_ME m_noSuchId '''' sock STATUS_WAITING s)
     else
       sbind (InsertRelation env (setRelationcode 1 (setUserId uid vo2)) (database s)) (\<lambda>(res, db).
       Inr (InsertSendQueue SEND_ME
              (if res \<noteq> -1 then message @ m_friendAdded else message @ m_friendAddFailed)
              '''' sock STATUS_WAITING (s\<lparr>database := db\<rparr>))))))"

text \<open>
  \<open>FriendGo\<close> locks \<open>roomMap.find(msg)->second->listCs\<close>: the key is the friend's nickname, not the room's
  name, so the look-up has to be part of the model.
\<close>

definition FriendGo :: "'db cfg \<Rightarrow> SOCKET \<Rightarrow> string \<Rightarrow> 'db server \<Rightarrow> cpp_error + 'db server" where
  "FriendGo env sock message s =
     sbind (session_names sock s) (\<lambda>(_, uid).
     sbind (selectOneFriend env (setRelationto message (setUserId uid RelationVo_new)) (database s))
       (\<lambda>(vo2, db).
     let vo2 = RelationVo_copy vo2; s = s\<lparr>database := db\<rparr> in
     sbind (getNickName vo2) (\<lambda>nick2.
     if nick2 = '''' then
       Inr (InsertSendQueue SEND_ME (m_friendUnknown @ waitRoomMessage) '''' sock STATUS_WAITING s)
     else
       sbind (find_user nick2 (userMap s)) (\<lambda>hit.
       case hit of
         None \<Rightarrow> Inr (InsertSendQueue SEND_ME (message @ m_notConnected) '''' sock STATUS_WAITING s)
       | Some (_, friend) \<Rightarrow>
           sbind (cstr (roomName friend)) (\<lambda>rn.
           if rn = '''' then
             Inr (InsertSendQueue SEND_ME (message @ m_inWaitingRoom) '''' sock STATUS_WAITING s)
           else if map_of (roomMap s) rn = None then Inr s
           else
             sbind (upd_user sock (\<lambda>u. u\<lparr>roomName := strncpy NAME_SIZE rn, status := STATUS_CHATTIG\<rparr>)
                      s) (\<lambda>s.
             sbind (session_names sock s) (\<lambda>(nick, _).
             sbind (am_at (roomMap s) message) (\<lambda>_.
             sbind (am_at (roomMap s) rn) (\<lambda>_.
             Inr (InsertSendQueue SEND_ROOM (nick @ m_joined @ chatRoomMessage) rn 0 STATUS_CHATTIG
                    (s\<lparr>roomMap := am_modify rn (\<lambda>r. r\<lparr>userList := userList r @ [sock]\<rparr>)
                                     (roomMap s)\<rparr>)))))))))))"

definition FriendDelete :: "'db cfg \<Rightarrow> SOCKET \<Rightarrow> string \<Rightarrow> 'db server \<Rightarrow> cpp_error + 'db server" where
  "FriendDelete env sock message s =
     sbind (session_names sock s) (\<lambda>(_, uid).
     let vo = setNickName message (setRelationcode 1 (setUserId uid RelationVo_new)) in
     sbind (DeleteRelation env vo (database s)) (\<lambda>(res, db).
     Inr (InsertSendQueue SEND_ME
            (if res \<noteq> -1 then message @ m_friendDeleted else m_friendDeleteFailed @ waitRoomMessage)
            '''' sock STATUS_WAITING (s\<lparr>database := db\<rparr>))))"

section \<open>Dispatch\<close>

text \<open>The table \<open>directionFunc\<close>; entries 0 and 5 are never set, and there is none after 12.\<close>

definition directionFunc ::
    "'db cfg \<Rightarrow> Direction \<Rightarrow> SOCKET \<Rightarrow> string \<Rightarrow> 'db server \<Rightarrow> cpp_error + 'db server" where
  "directionFunc env direction sock message s =
     (case direction of
        USER_MAKE \<Rightarrow> UserMake env sock message s
      | USER_ENTER \<Rightarrow> UserEnter env sock message s
      | ROOM_MAKE \<Rightarrow> RoomMake sock message s
      | ROOM_ENTER \<Rightarrow> RoomEnter sock message s
      | WHISPER \<Rightarrow> Whisper sock message s
      | ROOM_INFO \<Rightarrow> RoomInfo sock s
      | ROOM_USER_INFO \<Rightarrow> RoomUserInfo sock s
      | FRIEND_INFO \<Rightarrow> FriendInfo env sock s
      | FRIEND_ADD \<Rightarrow> FriendAdd env sock message s
      | FRIEND_GO \<Rightarrow> FriendGo env sock message s
      | FRIEND_DELETE \<Rightarrow> FriendDelete env sock message s
      | _ \<Rightarrow> Inl BadFunction)"

definition StatusLogout ::
    "'db cfg \<Rightarrow> SOCKET \<Rightarrow> Direction \<Rightarrow> string \<Rightarrow> 'db server \<Rightarrow> cpp_error + 'db server" where
  "StatusLogout env sock direction message s =
     (if direction = USER_MAKE \<or> direction = USER_ENTER then
        directionFunc env direction sock message s
      else if direction = EXIT then Inl ProcessExit
      else Inr (InsertSendQueue SEND_ME (errorMessage @ loginBeforeMessage) '''' sock STATUS_LOGOUT s))"

text \<open>The command log written after every command of the waiting room.\<close>

definition log_direction ::
    "'db cfg \<Rightarrow> string \<Rightarrow> ClientStatus \<Rightarrow> Direction \<Rightarrow> string \<Rightarrow> 'db server \<Rightarrow> cpp_error + 'db server" where
  "log_direction env name st direction message s =
     (let vo = setStatus (status_int st) (setDirection (int_of_direction direction)
                 (setMsg message (setNickName name LogVo_new))) in
      sbind (InsertDirection env vo (database s)) (\<lambda>db. Inr (s\<lparr>database := db\<rparr>)))"

definition StatusWait ::
    "'db cfg \<Rightarrow> SOCKET \<Rightarrow> ClientStatus \<Rightarrow> Direction \<Rightarrow> string \<Rightarrow> 'db server \<Rightarrow>
     cpp_error + 'db server" where
  "StatusWait env sock st direction message s =
     sbind (session_names sock s) (\<lambda>(name, _).
     if int_of_direction direction = -1 then Inr s
     else
       sbind
         (if direction \<in> {ROOM_MAKE, ROOM_ENTER, WHISPER, ROOM_INFO, ROOM_USER_INFO, FRIEND_INFO,
                          FRIEND_ADD, FRIEND_GO, FRIEND_DELETE} then
            directionFunc env direction sock message s
          else if direction = LOG_OUT then
            sbind (am_at (userMap s) sock) (\<lambda>u.
            sbind (cstr (userId u)) (\<lambda>uid.
            Inr (InsertSendQueue SEND_ME loginBeforeMessage '''' sock STATUS_LOGOUT
                   (s\<lparr>idSet := idSet s - {uid}, userMap := am_erase sock (userMap s)\<rparr>))))
          else if direction = USER_GOOD_INFO then Inr s
          else Inr (InsertSendQueue SEND_ME (errorMessage @ waitRoomMessage) '''' sock STATUS_WAITING s))
         (log_direction env name st direction message))"

definition s_out :: string where "s_out = CHR 0x5C # ''out''"
definition s_add :: string where "s_add = CHR 0x5C # ''add''"

definition StatusChat ::
    "'db cfg \<Rightarrow> SOCKET \<Rightarrow> Direction \<Rightarrow> string \<Rightarrow> 'db server \<Rightarrow> cpp_error + 'db server" where
  "StatusChat env sock direction message s =
     sbind (session_names sock s) (\<lambda>(name, _).
     if message = s_out then
       sbind (am_at (userMap s) sock) (\<lambda>u.
       sbind (cstr (roomName u)) (\<lambda>rn.
       sbind (broadcast_leave env (name @ m_left) rn sock s) (\<lambda>s.
       sbind (reset_session sock
                (InsertSendQueue SEND_ME waitRoomMessage '''' sock STATUS_WAITING s)) (\<lambda>s.
       Inr (drop_empty_room rn s)))))
     else if contains s_add message then Inr s
     else if direction = USER_GOOD then Inr s
     else if direction = FILE_SEND then
       sbind (am_at (userMap s) sock) (\<lambda>u.
       sbind (RecvFile env name (udp_of s) (database s)) (\<lambda>(fileDir, udp, db).
       let s = s\<lparr>udp_of := udp, database := db\<rparr> in
       sbind (cstr (roomName u)) (\<lambda>rn.
       Inr (InsertSendQueue SEND_FILE fileDir rn 0 STATUS_FILE_SEND
              (InsertSendQueue SEND_ROOM '''' rn 0 STATUS_FILE_SEND s)))))
     else
       sbind (am_at (userMap s) sock) (\<lambda>u.
       sbind (cstr (roomName u)) (\<lambda>rn.
       let s = (if map_of (roomMap s) rn \<noteq> None then
                  InsertSendQueue SEND_ROOM (name @ '':'' @ message) rn 0 STATUS_CHATTIG s
                else s);
           vo = setStatus 0 (setDirection 0 (setMsg message (setRoomName rn (setNickName name LogVo_new)))) in
       sbind (InsertChatting env vo (database s)) (\<lambda>db. Inr (s\<lparr>database := db\<rparr>)))))"

text \<open>The table \<open>func\<close>: entry 0 is never set, and it has four entries.\<close>

definition callFuncPointer ::
    "'db cfg \<Rightarrow> SOCKET \<Rightarrow> ClientStatus \<Rightarrow> Direction \<Rightarrow> string \<Rightarrow> 'db server \<Rightarrow>
     cpp_error + 'db server" where
  "callFuncPointer env sock st direction message s =
     (case st of
        STATUS_LOGOUT \<Rightarrow> StatusLogout env sock direction message s
      | STATUS_WAITING \<Rightarrow> StatusWait env sock st direction message s
      | STATUS_CHATTIG \<Rightarrow> StatusChat env sock direction message s
      | _ \<Rightarrow> Inl BadFunction)"

section \<open>Disconnection and administration\<close>

text \<open>
  \<open>closed\<close> is whether \<open>closesocket\<close> succeeded. The id is erased before anything else happens to the
  session.
\<close>

definition ClientExit :: "'db cfg \<Rightarrow> bool \<Rightarrow> SOCKET \<Rightarrow> 'db server \<Rightarrow> cpp_error + 'db server" where
  "ClientExit env closed sock s =
     (let s = s\<lparr>net_of := (net_of s)\<lparr>wire := wire (net_of s) @ [CloseSocket sock]\<rparr>\<rparr> in
      if \<not> closed then Inr s
      else
        let s = s\<lparr>liveSocket := am_erase sock (liveSocket s)\<rparr> in
        case map_of (userMap s) sock of
          None \<Rightarrow> Inr s
        | Some u \<Rightarrow>
            sbind (cstr (userId u)) (\<lambda>uid.
            let s = s\<lparr>idSet := idSet s - {uid}\<rparr> in
            sbind
              (if status u = STATUS_CHATTIG then
                 sbind (cstr (userName u)) (\<lambda>name.
                 sbind (cstr (roomName u)) (\<lambda>rn.
                 sbind (broadcast_leave env (name @ m_left) rn sock s) (\<lambda>s.
                 sbind (reset_session sock s) (\<lambda>s.
                 Inr (drop_empty_room rn s)))))
               else Inr s) (\<lambda>s.
            Inr (s\<lparr>userMap := am_erase sock (userMap s)\<rparr>))))"

definition BanUser :: "'db cfg \<Rightarrow> string \<Rightarrow> 'db server \<Rightarrow> cpp_error + 'db server" where
  "BanUser env nickName s =
     sbind (find_user nickName (userMap s)) (\<lambda>hit.
     case hit of
       None \<Rightarrow> Inr s
     | Some (sock, u) \<Rightarrow>
         sbind (cstr (userId u)) (\<lambda>uid.
         let s = s\<lparr>idSet := idSet s - {uid}\<rparr> in
         sbind
           (if status u = STATUS_CHATTIG then
              sbind (cstr (userName u)) (\<lambda>name.
              sbind (cstr (roomName u)) (\<lambda>rn.
              sbind (broadcast_leave env (name @ m_left) rn sock s) (\<lambda>s.
              sbind (reset_session sock s) (\<lambda>s.
              Inr (drop_empty_room rn s)))))
            else Inr s) (\<lambda>s.
         let s = InsertSendQueue SEND_ME m_banned '''' sock STATUS_LOGOUT s in
         Inr (s\<lparr>userMap := am_erase sock (userMap s)\<rparr>))))"

text \<open>\<open>sprintf\<close> into \<open>char msg[30]\<close>.\<close>

definition count_text :: "int \<Rightarrow> nat \<Rightarrow> string" where
  "count_text cnt users =
     [CHR 0x7B, CHR 0x22] @ ''packet'' @ [CHR 0x22, CHR 0x3A] @ decimal_int cnt @ '' , '' @
     [CHR 0x22] @ ''cnt'' @ [CHR 0x22, CHR 0x3A] @ decimal users @ [CHR 0x7D]"

definition CallCnt :: "SOCKET \<Rightarrow> int \<Rightarrow> 'db server \<Rightarrow> cpp_error + 'db server" where
  "CallCnt sock cnt s =
     (let msg = count_text cnt (length (userMap s)) in
      if 30 \<le> length msg then Inl IndexOverflow
      else Inr (InsertSendQueue SEND_ME msg '''' sock STATUS_INIT s))"

section \<open>\<open>Sendwork\<close>\<close>

text \<open>\<open>path.find_last_of("/\\")\<close> and \<open>substr\<close>: the part after the last slash or backslash.\<close>

definition base_name :: "string \<Rightarrow> string" where
  "base_name path = rev (takeWhile (\<lambda>c. c \<noteq> CHR 0x2F \<and> c \<noteq> CHR 0x5C) (rev path))"

definition send_entry :: "'db cfg \<Rightarrow> Send_DATA \<Rightarrow> 'db server \<Rightarrow> cpp_error + 'db server" where
  "send_entry env d s =
     (case sd_direction d of
        SEND_ME \<Rightarrow>
          (case sd_mySocket d of
             None \<Rightarrow> Inr s
           | Some sock \<Rightarrow>
               sbind (SendToOneMsg (past env) (sd_msg d) sock (sd_status d) (net_of s)) (\<lambda>n.
               Inr (s\<lparr>net_of := n\<rparr>)))
      | SEND_ROOM \<Rightarrow>
          (case map_of (roomMap s) (sd_roomName d) of
             None \<Rightarrow> Inr s
           | Some room \<Rightarrow>
               sbind (SendToRoomMsg (past env) (sd_msg d) (userList room) (sd_status d) (net_of s)) (\<lambda>n.
               Inr (s\<lparr>net_of := n\<rparr>)))
      | SEND_FILE \<Rightarrow>
          (case map_of (disk (udp_of s)) (sd_msg d) of
             None \<Rightarrow> Inr s
           | Some bs \<Rightarrow>
               (case map_of (roomMap s) (sd_roomName d) of
                  None \<Rightarrow> Inr s
                | Some room \<Rightarrow>
                    sbind (SendToRoomFile env bs (base_name (sd_msg d)) (userList room)
                             (liveSocket s) (udp_of s)) (\<lambda>u.
                    Inr (s\<lparr>udp_of := u\<rparr>))))
      | SEND_MAX \<Rightarrow> Inr s)"

fun send_entries :: "'db cfg \<Rightarrow> Send_DATA list \<Rightarrow> 'db server \<Rightarrow> cpp_error + 'db server" where
  "send_entries env [] s = Inr s"
| "send_entries env (d # ds) s = sbind (send_entry env d s) (send_entries env ds)"

text \<open>
  One call: it waits while the queue is empty and no stop was asked for (\<open>Blocked\<close>: the call does not
  proceed in this state), returns when both hold, and otherwise takes the whole queue.
\<close>

definition Sendwork :: "'db cfg \<Rightarrow> 'db server \<Rightarrow> cpp_error + 'db server" where
  "Sendwork env s =
     (if sendQueue s = [] then (if sendStop s then Inr s else Inl Blocked)
      else send_entries env (sendQueue s) (s\<lparr>sendQueue := []\<rparr>))"

end
