(* ===== verification/Correct.thy ===== *)
theory Correct
  imports Handlers
begin

text \<open>
  The handlers keep the invariant of the session state and move the abstract view as they should.

  \<open>request_ok\<close> says which requests the fixed-size arrays of the code can take. For those, and a
  database that answers (\<open>sql_ok\<close>), every handler returns normally.
\<close>

section \<open>Requests the code can take\<close>

definition request_ok :: "ClientStatus \<Rightarrow> Direction \<Rightarrow> string \<Rightarrow> bool" where
  "request_ok st direction message \<longleftrightarrow>
     nul_free message \<and> length message < 512 \<and>
     (let ts = pieces (CHR 0x5C) message in
      case st of
        STATUS_LOGOUT \<Rightarrow>
          (case direction of
             USER_MAKE \<Rightarrow> length ts \<le> 3 \<and>
               (length ts = 3 \<longrightarrow> length (ts ! 1) < 10 \<and> length (ts ! 2) < NAME_SIZE)
           | USER_ENTER \<Rightarrow> length ts \<le> 2 \<and> (length ts = 2 \<longrightarrow> length (ts ! 0) < NAME_SIZE)
           | _ \<Rightarrow> True)
      | STATUS_WAITING \<Rightarrow>
          (case direction of
             WHISPER \<Rightarrow> length ts \<le> 2
           | ROOM_MAKE \<Rightarrow> length message < NAME_SIZE
           | FRIEND_ADD \<Rightarrow> length message < NAME_SIZE
           | FRIEND_DELETE \<Rightarrow> length message < NAME_SIZE
           | FRIEND_GO \<Rightarrow> False
           | _ \<Rightarrow> True)
      | _ \<Rightarrow> direction \<noteq> FILE_SEND)"

lemma tokens_pieces:
  assumes "nul_free message" and "length message < BUF_SIZE"
  shows "tokens n message =
    (if length (pieces (CHR 0x5C) message) \<le> n then Inr (pieces (CHR 0x5C) message)
     else Inl IndexOverflow)"
  using cstr_strncpy [OF assms] by (auto simp: tokens_def strtok_loop_pieces)

lemma not_three:
  "\<nexists>a b c. ts = [a, b, c] \<Longrightarrow> (case ts of [a, b, c] \<Rightarrow> f a b c | _ \<Rightarrow> x) = x"
  by (auto split: list.splits)

lemma not_two: "\<nexists>a b. ts = [a, b] \<Longrightarrow> (case ts of [a, b] \<Rightarrow> f a b | _ \<Rightarrow> x) = x"
  by (auto split: list.splits)

section \<open>Value objects on the way\<close>

lemma upto_nul_into [vo_simps]:
  "nul_free s \<Longrightarrow> n < m \<Longrightarrow> upto_nul (strncpy_into n s (strncpy m '''')) = take n s"
  "nul_free s \<Longrightarrow> n < m \<Longrightarrow> NUL \<in> set (strncpy_into n s (strncpy m ''''))"
  using cstr_strncpy_into [of s n m] by (simp_all add: cstr_Inr_iff)

lemma upto_nul_into_empty [vo_simps]: "0 < n \<Longrightarrow> upto_nul (strncpy_into n '''' b) = ''''"
  by (cases n) (simp_all add: strncpy_into_def strncpy_def upto_nul_def)

lemma upto_nul_empty [vo_simps, simp]: "upto_nul (strncpy n '''') = ''''"
  by (cases n) (simp_all add: strncpy_def upto_nul_def)

text \<open>The account looked up: its id field is cleared when there is none, kept otherwise.\<close>

lemma UserVo_none:
  assumes "vo = UserVo_copy (setUserId '''' (setUserId a UserVo_new))"
  shows "getUserId vo = Inr ''''"
    "nul_free a \<Longrightarrow> length b < 10 \<Longrightarrow> length c < NAME_SIZE \<Longrightarrow>
      ok (InsertUser env (setNickName c (setPassword b (setUserId a vo))) db) (\<lambda>_. True)"
proof -
  have u: "userId_v vo = strncpy 20 ''''"
    using assms by (simp add: UserVo_copy_def Vo_copy_def vo_defs vo_simps)
  then show "getUserId vo = Inr ''''" by (simp add: vo_defs)
  have "length (nickName_v vo) = 20" "length (password_v vo) = 10"
    using assms by (simp_all add: UserVo_copy_def Vo_copy_def)
  with u show "nul_free a \<Longrightarrow> length b < 10 \<Longrightarrow> length c < NAME_SIZE \<Longrightarrow>
      ok (InsertUser env (setNickName c (setPassword b (setUserId a vo))) db) (\<lambda>_. True)"
    unfolding InsertUser_ok by (simp add: vo_defs vo_simps NUL_in_strncpy NAME_SIZE_def)
qed

lemma UserVo_row:
  assumes "vo = UserVo_copy (setNickName nick (setPassword pw (setUserId a UserVo_new)))"
    and "nul_free a" "nul_free pw" "length pw < 10" "nul_free nick" "length nick < 20"
  shows "getUserId vo = Inr (take 10 a)" "getPassword vo = Inr pw" "getNickName vo = Inr nick"
  using assms
  by (simp_all add: UserVo_copy_def Vo_copy_def vo_defs vo_simps upto_nul_strncpy cstr_strncpy
      nul_free_take)

section \<open>Before login\<close>

lemma UserMake_same:
  assumes "sql_ok env" and req: "request_ok STATUS_LOGOUT USER_MAKE message"
  shows "ok (UserMake env k message s) (same_sessions s)"
proof -
  let ?ts = "pieces (CHR 0x5C) message"
  have t: "tokens 3 message = Inr ?ts" and nf: "\<And>p. p \<in> set ?ts \<Longrightarrow> nul_free p"
    using req pieces_nul_free by (auto simp: request_ok_def tokens_pieces BUF_SIZE_def Let_def)
  show ?thesis
  proof (cases "\<exists>a b c. ?ts = [a, b, c]")
    case False
    then show ?thesis unfolding UserMake_def t sbind.simps not_three [OF False] by simp
  next
    case True
    then obtain a b c where ts: "?ts = [a, b, c]" by blast
    have a: "nul_free a" "a \<noteq> ''''" and bc: "length b < 10" "length c < NAME_SIZE"
      using nf [of a] pieces_nonempty [of a "CHR 0x5C" message] req
      by (auto simp: ts request_ok_def Let_def)
    have "NUL \<in> set (userId_v (setUserId a UserVo_new))" using a(1) by (simp add: vo_defs vo_simps)
    note sel = selectUser_cases [OF assms(1) this, of "database s"]
    show ?thesis
    proof (cases rule: sel)
      case (1 db')
      obtain db2 where "InsertUser env (setNickName c (setPassword b (setUserId a
          (UserVo_copy (setUserId '''' (setUserId a UserVo_new)))))) db' = Inr db2"
        using UserVo_none(2) [OF refl a(1) bc, of env db'] by (auto simp: ok_iff)
      then show ?thesis by (simp add: UserMake_def t ts 1 UserVo_none(1) Let_def)
    next
      case (2 db' pw nick)
      then show ?thesis
        using a by (simp add: UserMake_def t ts UserVo_row [OF refl a(1)] Let_def)
    qed
  qed
qed

lemma InitUser_moves:
  assumes s: "world_ok s" and k: "map_of (userMap s) k = None" "map_of (liveSocket s) k \<noteq> None"
    and a: "nul_free a" "length a < NAME_SIZE" "a \<notin> idSet s"
    and n: "nul_free nick" "length nick < NAME_SIZE"
  shows "ok (InitUser env a k nick (s\<lparr>idSet := insert a (idSet s)\<rparr>)) (moves k s)"
proof -
  let ?u = "\<lparr>userName = strncpy NAME_SIZE nick, roomName = strncpy NAME_SIZE '''',
      userId = strncpy NAME_SIZE a, status = STATUS_WAITING\<rparr>"
  have u: "user_ok ?u" "uid ?u = a" "status ?u = STATUS_WAITING"
    using a n by (simp_all add: user_ok_def NUL_in_strncpy upto_nul_strncpy NAME_SIZE_def)
  have m: "moves k s (s\<lparr>idSet := insert a (idSet s),
      userMap := um_put (ord env) k ?u (userMap s)\<rparr>)"
    using moves_login [OF s k u(1,3), of "ord env"] a(3) u(2) by simp
  let ?vo = "setNickName (upto_nul (strncpy NAME_SIZE nick))
      (setUserId (upto_nul (strncpy NAME_SIZE a)) LogVo_new)"
  have vo: "NUL \<in> set (userId_v ?vo)" "NUL \<in> set (nickName_v ?vo)"
    using a n by (simp_all add: vo_defs vo_simps upto_nul_strncpy NUL_in_strncpy NAME_SIZE_def)
  obtain db1 where 1: "UpdateUser env ?vo (database s) = Inr db1"
    using logs_ok(1) [of env ?vo "database s"] vo unfolding ok_iff by blast
  obtain db2 where 2: "InsertLogin env ?vo db1 = Inr db2"
    using logs_ok(2) [of env ?vo db1] vo unfolding ok_iff by blast
  have src: "strncpy_src 10 (strncpy NAME_SIZE a) = Inr (upto_nul (strncpy NAME_SIZE a))"
    "strncpy_src 20 (strncpy NAME_SIZE nick) = Inr (upto_nul (strncpy NAME_SIZE nick))"
    by (simp_all add: strncpy_src_def NAME_SIZE_def)
  show ?thesis using 1 2 m by (simp add: InitUser_def Let_def src)
qed

lemma UserEnter_moves:
  assumes sql: "sql_ok env" and req: "request_ok STATUS_LOGOUT USER_ENTER message"
    and s: "world_ok s" and k: "map_of (userMap s) k = None" "map_of (liveSocket s) k \<noteq> None"
  shows "ok (UserEnter env k message s) (moves k s)"
proof -
  let ?ts = "pieces (CHR 0x5C) message"
  have t: "tokens 2 message = Inr ?ts" and nf: "\<And>p. p \<in> set ?ts \<Longrightarrow> nul_free p"
    using req pieces_nul_free by (auto simp: request_ok_def tokens_pieces BUF_SIZE_def Let_def)
  show ?thesis
  proof (cases "\<exists>a b. ?ts = [a, b]")
    case False
    then show ?thesis using moves_same [OF s same_sessions_refl]
      unfolding UserEnter_def t sbind.simps not_two [OF False] by simp
  next
    case True
    then obtain a b where ts: "?ts = [a, b]" by blast
    have a: "nul_free a" "a \<noteq> ''''" "length a < NAME_SIZE"
      using nf [of a] pieces_nonempty [of a "CHR 0x5C" message] req
      by (auto simp: ts request_ok_def Let_def)
    have same: "moves k s s" using moves_same [OF s same_sessions_refl] .
    have "NUL \<in> set (userId_v (setUserId a UserVo_new))" using a(1) by (simp add: vo_defs vo_simps)
    note sel = selectUser_cases [OF sql this, of "database s"]
    show ?thesis
    proof (cases rule: sel)
      case (1 db')
      then show ?thesis using same by (simp add: UserEnter_def t ts UserVo_none(1) Let_def)
    next
      case (2 db' pw nick)
      have "ok (InitUser env a k nick ((s\<lparr>database := db'\<rparr>)\<lparr>idSet := insert a (idSet s)\<rparr>))
          (moves k (s\<lparr>database := db'\<rparr>))" if "a \<notin> idSet s"
        using InitUser_moves [of "s\<lparr>database := db'\<rparr>" k a nick env] s k a that 2
        by (simp add: NAME_SIZE_def)
      then have enter: "ok (InitUser env a k nick (s\<lparr>database := db', idSet := insert a (idSet s)\<rparr>))
          (moves k s)" if "a \<notin> idSet s"
        using that by (simp add: moves_db_from)
      note vo = UserVo_row [OF refl a(1) 2(2-5)]
      show ?thesis
      proof (cases "pw = b")
        case True
        with enter a(2) same 2(1) vo show ?thesis by (simp add: UserEnter_def t ts Let_def)
      next
        case False
        with a(2) same 2(1) vo show ?thesis by (simp add: UserEnter_def t ts Let_def)
      qed
    qed
  qed
qed

section \<open>The waiting room\<close>

lemma waiting_room_of: "status u = STATUS_WAITING \<Longrightarrow> room_of u = None"
  by (simp add: room_of_def)

text \<open>A room's name is the name its members hold.\<close>

lemma room_name_ok:
  assumes s: "world_ok s" and r: "map_of (roomMap s) rn = Some r"
  shows "nul_free rn" "length rn < NAME_SIZE" "userList r \<noteq> []"
proof -
  show "userList r \<noteq> []" using world_okD(6) [OF s] r by (simp add: rooms_ok_def)
  then obtain k where "k \<in> set (members (map_of (roomMap s)) rn)"
    using r by (cases "userList r") (auto simp: members_def)
  then obtain u where u: "map_of (userMap s) k = Some u" "room_of u = Some rn"
    using world_okD(6) [OF s] by (auto simp: rooms_ok_def)
  then have "rn = rname u" by (simp add: room_of_def split: if_splits)
  then show "nul_free rn" "length rn < NAME_SIZE"
    using user_ok_lengths(2) [OF world_user(1) [OF s u(1)]] by simp_all
qed

lemma RoomMake_moves:
  assumes s: "world_ok s" and k: "map_of (userMap s) k = Some u" "status u = STATUS_WAITING"
    and rn: "nul_free message" "length message < NAME_SIZE"
  shows "ok (RoomMake k message s) (moves k s)"
proof (cases "map_of (roomMap s) message")
  case None
  have "moves k s (s\<lparr>userMap := am_modify k (join_room message) (userMap s),
      roomMap := sm_put message \<lparr>userList = [k]\<rparr> (roomMap s)\<rparr>)"
    using None world_okD(2) [OF s]
    by (intro moves_join [OF s k(1) waiting_room_of [OF k(2)] rn])
       (auto simp: map_of_sm_put sm_wf_put members_def)
  then show ?thesis
    using None k(1) by (simp add: RoomMake_def session_names_ok [OF s k(1)] upd_user_def
        join_room_def [abs_def] room_then_user)
next
  case (Some r)
  then show ?thesis
    by (simp add: RoomMake_def session_names_ok [OF s k(1)] moves_same [OF s])
qed

lemma RoomEnter_moves:
  assumes s: "world_ok s" and k: "map_of (userMap s) k = Some u" "status u = STATUS_WAITING"
  shows "ok (RoomEnter k message s) (moves k s)"
proof (cases "map_of (roomMap s) message")
  case None
  then show ?thesis
    by (simp add: RoomEnter_def session_names_ok [OF s k(1)] moves_same [OF s])
next
  case (Some r)
  have "moves k s (s\<lparr>userMap := am_modify k (join_room message) (userMap s),
      roomMap := am_modify message (\<lambda>r. r\<lparr>userList := userList r @ [k]\<rparr>) (roomMap s)\<rparr>)"
    using Some world_okD(2) [OF s]
    by (intro moves_join [OF s k(1) waiting_room_of [OF k(2)] room_name_ok(1,2) [OF s Some],
          where r = "r\<lparr>userList := userList r @ [k]\<rparr>"])
       (auto simp: map_of_am_modify sm_wf_modify members_def)
  then show ?thesis
    using Some k(1) by (simp add: RoomEnter_def session_names_ok [OF s k(1)] upd_user_def
        join_room_def [abs_def])
qed

lemma Whisper_same:
  assumes s: "world_ok s" and k: "map_of (userMap s) k = Some u"
    and m: "nul_free message" "length message < BUF_SIZE" "length (pieces (CHR 0x5C) message) \<le> 2"
  shows "ok (Whisper k message s) (same_sessions s)"
proof -
  let ?ts = "pieces (CHR 0x5C) message"
  have t: "tokens 2 message = Inr ?ts" using tokens_pieces [OF m(1,2)] m(3) by simp
  show ?thesis
  proof (cases "\<exists>a b. ?ts = [a, b]")
    case False
    then show ?thesis
      unfolding Whisper_def session_names_ok [OF s k] t sbind.simps not_two [OF False] by simp
  next
    case True
    then obtain a b where "?ts = [a, b]" by blast
    then show ?thesis
      by (simp add: Whisper_def session_names_ok [OF s k] t world_find_user [OF s]
          split: option.split prod.split)
  qed
qed

lemma RoomInfo_same:
  "world_ok s \<Longrightarrow> map_of (userMap s) k = Some u \<Longrightarrow> ok (RoomInfo k s) (same_sessions s)"
  by (simp add: RoomInfo_def session_names_ok Let_def)

lemma user_lines_ok:
  "\<forall>u\<in>snd ` set m. user_ok u \<Longrightarrow> ok (user_lines str m) (\<lambda>_. True)"
  by (induction str m rule: user_lines.induct) (auto simp: user_ok_cstr ok_iff)

lemma world_users: "world_ok s \<Longrightarrow> \<forall>u\<in>snd ` set (userMap s). user_ok u"
  using um.entry_iff [OF world_okD(1)] world_user(1) by fastforce

lemma RoomUserInfo_same:
  assumes s: "world_ok s" and k: "map_of (userMap s) k = Some u"
  shows "ok (RoomUserInfo k s) (same_sessions s)"
proof -
  obtain str where "user_lines m_userList (userMap s) = Inr str"
    using user_lines_ok [OF world_users [OF s]] by (auto simp: ok_iff)
  then show ?thesis by (simp add: RoomUserInfo_def session_names_ok [OF s k])
qed

lemma friend_lines_ok:
  assumes m: "\<forall>u\<in>snd ` set m. user_ok u"
  shows "\<forall>v\<in>set vec. friend_ok v \<Longrightarrow> ok (friend_lines vec m) (\<lambda>_. True)"
proof (induction vec)
  case (Cons v vec)
  obtain more where more: "friend_lines vec m = Inr more"
    using Cons by (auto simp: ok_iff)
  obtain nick where nick: "getNickName v = Inr nick"
    using Cons.prems by (auto simp: friend_ok_def getNickName_def cstr_def)
  have "NUL \<in> set (roomName u)" if "List.find (\<lambda>(k, u). uname u = nick) m = Some (k, u)" for k u
    using that m user_okD(2) by (force simp: find_Some_iff in_set_conv_nth)
  moreover have "find_user nick m = Inr (List.find (\<lambda>(k, u). uname u = nick) m)"
    using m user_okD(1) by (intro find_user_ok) blast
  ultimately show ?case using more nick by (auto split: option.split)
qed simp

lemma FriendInfo_same:
  assumes sql: "sql_ok env" and s: "world_ok s" and k: "map_of (userMap s) k = Some u"
  shows "ok (FriendInfo env k s) (same_sessions s)"
proof -
  have "NUL \<in> set (userId_v (setUserId (uid u) RelationVo_new))"
    by (simp add: vo_defs vo_simps)
  then obtain vec db' where
    v: "selectFriends env (setUserId (uid u) RelationVo_new) (database s) = Inr (vec, db')"
      "\<forall>v\<in>set vec. friend_ok v"
    using selectFriends_ok [OF sql] by (fastforce simp: ok_iff)
  obtain ls where "friend_lines vec (userMap s) = Inr ls"
    using friend_lines_ok [OF world_users [OF s] v(2)] by (auto simp: ok_iff)
  with v(1) show ?thesis by (simp add: FriendInfo_def session_names_ok [OF s k])
qed

lemma FriendAdd_finds:
  assumes sql: "sql_ok env" and m: "length message < NAME_SIZE"
  obtains vo2 db' to where "findUserId env (setNickName message RelationVo_new) db = Inr (vo2, db')"
    "getRelationto (RelationVo_copy vo2) = Inr to"
    "\<And>ident db. to \<noteq> '''' \<Longrightarrow> nul_free ident \<Longrightarrow>
       ok (InsertRelation env (setRelationcode 1 (setUserId ident (RelationVo_copy vo2))) db) (\<lambda>_. True)"
proof -
  have "NUL \<in> set (nickName_v (setNickName message RelationVo_new))"
    using m by (simp add: vo_defs vo_simps NUL_in_strncpy NAME_SIZE_def)
  note find = findUserId_cases [OF sql this, of db]
  show thesis
  proof (cases rule: find)
    case (1 db')
    have "getRelationto (RelationVo_copy (setRelationto '''' RelationVo_new)) = Inr ''''"
      by (simp add: RelationVo_copy_def Vo_copy_def vo_defs vo_simps)
    with 1 that show thesis by blast
  next
    case (2 db' i nick)
    let ?vo = "RelationVo_copy (setNickName nick (setRelationto i RelationVo_new))"
    have r: "relationto_v ?vo = strncpy 20 i"
      using 2(2,3) by (simp add: RelationVo_copy_def vo_defs vo_simps upto_nul_strncpy less_imp_le)
    then have to: "getRelationto ?vo = Inr i"
      using 2(2,3) by (simp add: getRelationto_def cstr_strncpy)
    have "userId_v ?vo = strncpy 20 ''''"
      by (simp add: RelationVo_copy_def Vo_copy_def vo_defs vo_simps)
    then have "NUL \<in> set (userId_v (setRelationcode 1 (setUserId ident ?vo)))" if "nul_free ident" for ident
      using that by (simp add: setRelationcode_def setUserId_def vo_simps)
    moreover have "NUL \<in> set (relationto_v (setRelationcode 1 (setUserId ident ?vo)))" for ident
      using 2(3) by (simp add: setRelationcode_def setUserId_def r NUL_in_strncpy)
    ultimately have "ok (InsertRelation env (setRelationcode 1 (setUserId ident ?vo)) db) (\<lambda>_. True)"
      if "nul_free ident" for ident db
      using that by (intro iffD2 [OF relations_ok(1)] conjI)
    then show thesis by (rule that [OF 2(1) to])
  qed
qed

lemma FriendAdd_same:
  assumes sql: "sql_ok env" and s: "world_ok s" and k: "map_of (userMap s) k = Some u"
    and m: "length message < NAME_SIZE"
  shows "ok (FriendAdd env k message s) (same_sessions s)"
proof (rule FriendAdd_finds [OF sql m, of "database s"])
  fix vo2 db' to
  assume f: "findUserId env (setNickName message RelationVo_new) (database s) = Inr (vo2, db')"
    "getRelationto (RelationVo_copy vo2) = Inr to"
    "\<And>ident db. to \<noteq> '''' \<Longrightarrow> nul_free ident \<Longrightarrow>
       ok (InsertRelation env (setRelationcode 1 (setUserId ident (RelationVo_copy vo2))) db) (\<lambda>_. True)"
  show ?thesis
    using f(1,2) f(3) [of "uid u" db'] by (auto simp: FriendAdd_def session_names_ok [OF s k] Let_def ok_iff)
qed

lemma FriendDelete_deletes:
  assumes "length message < NAME_SIZE" and "nul_free ident"
  shows "ok (DeleteRelation env (setNickName message (setRelationcode 1 (setUserId ident RelationVo_new))) db) (\<lambda>_. True)"
  using assms by (intro iffD2 [OF relations_ok(2)] conjI) (simp_all add: vo_defs vo_simps NUL_in_strncpy NAME_SIZE_def)

lemma FriendDelete_same:
  assumes s: "world_ok s" and k: "map_of (userMap s) k = Some u" and m: "length message < NAME_SIZE"
  shows "ok (FriendDelete env k message s) (same_sessions s)"
  using FriendDelete_deletes [OF m, of "uid u" env "database s"]
  by (auto simp: FriendDelete_def session_names_ok [OF s k] Let_def ok_iff)

section \<open>A command in the waiting room\<close>

lemma log_direction_ok:
  assumes "nul_free message" "length message < 512" and "length name < NAME_SIZE"
  obtains db' where "log_direction env name st direction message s = Inr (s\<lparr>database := db'\<rparr>)"
proof -
  let ?vo = "setStatus (status_int st) (setDirection (int_of_direction direction)
                 (setMsg message (setNickName name LogVo_new)))"
  have "NUL \<in> set (nickName_v ?vo) \<and> NUL \<in> set (msg_v ?vo)"
    using assms by (simp add: vo_defs vo_simps NUL_in_strncpy NAME_SIZE_def)
  then obtain db' where "InsertDirection env ?vo (database s) = Inr db'"
    using logs_ok(3) [of env ?vo "database s"] by (auto simp: ok_iff)
  then show thesis using that by (simp add: log_direction_def)
qed

lemma directionFunc_waiting:
  assumes sql: "sql_ok env" and s: "world_ok s"
    and k: "map_of (userMap s) k = Some u" "status u = STATUS_WAITING"
    and req: "request_ok STATUS_WAITING direction message"
    and d: "direction \<in> {ROOM_MAKE, ROOM_ENTER, WHISPER, ROOM_INFO, ROOM_USER_INFO, FRIEND_INFO,
                          FRIEND_ADD, FRIEND_GO, FRIEND_DELETE}"
  shows "ok (directionFunc env direction k message s) (moves k s)"
proof -
  have m: "nul_free message" "length message < BUF_SIZE"
    using req by (simp_all add: request_ok_def BUF_SIZE_def Let_def)
  have same: "ok c (same_sessions s) \<Longrightarrow> ok c (moves k s)" for c
    by (erule ok_mono) (rule moves_same [OF s])
  from d consider "direction = ROOM_MAKE" | "direction = ROOM_ENTER" | "direction = WHISPER"
    | "direction = ROOM_INFO" | "direction = ROOM_USER_INFO" | "direction = FRIEND_INFO"
    | "direction = FRIEND_ADD" | "direction = FRIEND_GO" | "direction = FRIEND_DELETE" by blast
  then show ?thesis
    using req k m
    by cases
       (simp_all add: directionFunc_def request_ok_def Let_def RoomMake_moves [OF s] RoomEnter_moves [OF s]
          same Whisper_same [OF s] RoomInfo_same [OF s] RoomUserInfo_same [OF s]
          FriendInfo_same [OF sql s] FriendAdd_same [OF sql s] FriendDelete_same [OF s])
qed

lemma StatusWait_moves:
  assumes sql: "sql_ok env" and s: "world_ok s"
    and k: "map_of (userMap s) k = Some u" "status u = STATUS_WAITING"
    and req: "request_ok STATUS_WAITING direction message"
  shows "ok (StatusWait env k STATUS_WAITING direction message s) (moves k s)"
proof -
  note u = world_user(1) [OF s k(1)]
  have log: "ok (log_direction env (uname u) st direction message s') (moves k s)"
    if "moves k s s'" for s' st
    using log_direction_ok [of message "uname u" env st direction s'] req that user_ok_lengths(1) [OF u]
    by (fastforce simp: request_ok_def Let_def)
  have step: "ok (sbind c (log_direction env (uname u) STATUS_WAITING direction message)) (moves k s)"
    if "ok c (moves k s)" for c
    unfolding ok_sbind using that log by (rule ok_mono)
  have out: "moves k s (s\<lparr>idSet := idSet s - {uid u}, userMap := am_erase k (userMap s)\<rparr>)"
    by (rule moves_logout [OF s k(1) waiting_room_of [OF k(2)]])
  have same: "moves k s s" using moves_same [OF s same_sessions_refl] .
  show ?thesis
  proof (cases "int_of_direction direction = -1")
    case False
    show ?thesis
      unfolding StatusWait_def session_names_ok [OF s k(1)] sbind.simps prod.case if_not_P [OF False]
      by (rule step) (auto simp: k(1) user_ok_cstr(3) [OF u] out same
          directionFunc_waiting [OF sql s k req])
  qed (simp add: same StatusWait_def session_names_ok [OF s k(1)])
qed

section \<open>A chat room\<close>

lemma length_m_left: "length m_left \<le> 20" "nul_free m_left"
  by (simp_all add: m_left_def nul_free_bytes)

lemma leave_notice:
  "user_ok u \<Longrightarrow> nul_free (uname u @ m_left) \<and> length (uname u @ m_left) \<le> MAX_TEXT"
  using user_ok_lengths(1) [of u] length_m_left
  by (simp add: NAME_SIZE_def MAX_TEXT_def)

text \<open>
  What \<open>\out\<close> does: the notice goes to all members, the client is in the waiting room afterwards, and
  the room is gone if it was the last one.
\<close>

lemma leave_room_moves:
  fixes s :: "'db server"
  assumes s: "world_ok s" and k: "map_of (userMap s) k = Some u" "status u = STATUS_CHATTIG"
  obtains n r where "map_of (roomMap s) (rname u) = Some r"
    "sends (wire n) = sends (wire (net_of s)) @ room_notice (uname u @ m_left) (userList r)"
    "broadcast_leave env (uname u @ m_left) (rname u) k (s\<lparr>idSet := ids, liveSocket := L\<rparr>) =
       Inr (s\<lparr>idSet := ids, liveSocket := L, net_of := n,
              roomMap := am_modify (rname u) (list_without k) (roomMap s)\<rparr>)"
    "net_ok n"
proof -
  have "room_of u = Some (rname u)" using k(2) by (simp add: room_of_def)
  then obtain r where r: "map_of (roomMap s) (rname u) = Some r"
    using rooms_member [OF world_okD(6) [OF s] k(1)] by blast
  let ?s = "s\<lparr>idSet := ids, liveSocket := L\<rparr>"
  have "net_ok (net_of ?s)" "map_of (roomMap ?s) (rname u) = Some r"
    using world_okD(7) [OF s] r by simp_all
  then obtain n where "net_ok n"
      "sends (wire n) = sends (wire (net_of ?s)) @ room_notice (uname u @ m_left) (userList r)"
      "broadcast_leave env (uname u @ m_left) (rname u) k ?s =
       Inr (?s\<lparr>net_of := n, roomMap := am_modify (rname u) (list_without k) (roomMap ?s)\<rparr>)"
    using broadcast_leave_ok leave_notice [OF world_user(1) [OF s k(1)]] by metis
  with r that show thesis by simp
qed

text \<open>The end state of leaving, for the three ways it ends.\<close>

lemma left_world:
  fixes s :: "'db server"
  assumes s: "world_ok s" and k: "map_of (userMap s) k = Some u" "status u = STATUS_CHATTIG"
    and r: "map_of (roomMap s) (rname u) = Some r" and n: "net_ok n"
    and x: "x = None \<and> L = am_erase k (liveSocket s) \<and> ids = idSet s - {uid u} \<or>
            x = None \<and> L = liveSocket s \<and> ids = idSet s - {uid u} \<or>
            x = Some (reset_user u) \<and> L = liveSocket s \<and> ids = idSet s"
    and U: "map_of U = (map_of (userMap s))(k := x)" "um_wf U"
    and s': "userMap s' = U" "idSet s' = ids" "liveSocket s' = L" "net_of s' = n"
      "roomMap s' = roomMap (drop_empty_room (rname u)
         (s\<lparr>roomMap := am_modify (rname u) (list_without k) (roomMap s)\<rparr>))"
  shows "world_ok s'"
    and "chat_of s' = (chat_of s)(k := map_option (\<lambda>u. (uid u, uname u, room_of u)) x)"
proof -
  have ru: "room_of u = Some (rname u)" using k(2) by (simp add: room_of_def)
  have L: "sm_wf L" using x world_okD(3) [OF s] by (auto simp: sm_wf_erase)
  have x': "x = None \<and> map_of L = (map_of (liveSocket s))(k := None) \<and> ids = idSet s - {uid u} \<or>
            x = None \<and> map_of L = map_of (liveSocket s) \<and> ids = idSet s - {uid u} \<or>
            x = Some (reset_user u) \<and> map_of L = map_of (liveSocket s) \<and> ids = idSet s"
    using x by (auto simp: map_of_am_erase)
  have "sm_wf (roomMap s')"
    unfolding s'(5) using world_okD(2) [OF s] by (intro sm_wf_drop) (simp add: sm_wf_modify)
  then have "sessions_ok s'"
    using U L by (intro sessions_leave [OF s k(1) ru r x'])
      (simp_all add: s' roomMap_after [OF r])
  with n show "world_ok s'" by (simp add: world_ok_def s'(4))
  show "chat_of s' = (chat_of s)(k := map_option (\<lambda>u. (uid u, uname u, room_of u)) x)"
    using U(1) by (intro chat_of_upd) (simp add: s'(1))
qed

text \<open>
  What \<open>\out\<close> does: every member gets the notice at once, the client is in the waiting room
  afterwards, and the room goes when it was its last member.
\<close>

lemma StatusChat_out:
  assumes s: "world_ok s" and k: "map_of (userMap s) k = Some u" "status u = STATUS_CHATTIG"
    and r: "map_of (roomMap s) (rname u) = Some r"
  shows "ok (StatusChat env k direction s_out s) (\<lambda>s'. world_ok s' \<and>
    chat_of s' = (chat_of s)(k \<mapsto> (uid u, uname u, None)) \<and>
    sends (wire (net_of s')) = sends (wire (net_of s)) @ room_notice (uname u @ m_left) (userList r) \<and>
    map_of (roomMap s') (rname u) =
      (if set (userList r) = {k} then None else Some (list_without k r)))"
proof -
  note u = world_user(1) [OF s k(1)]
  obtain n where n: "net_ok n"
      "sends (wire n) = sends (wire (net_of s)) @ room_notice (uname u @ m_left) (userList r)"
      "broadcast_leave env (uname u @ m_left) (rname u) k s =
        Inr (s\<lparr>net_of := n, roomMap := am_modify (rname u) (list_without k) (roomMap s)\<rparr>)"
    using leave_room_moves [OF s k, where ids = "idSet s" and L = "liveSocket s" and env = env] r
    by auto
  let ?R = "am_modify (rname u) (list_without k) (roomMap s)"
  let ?s1 = "InsertSendQueue SEND_ME waitRoomMessage '''' k STATUS_WAITING
               (s\<lparr>net_of := n, roomMap := ?R\<rparr>)"
  let ?s2 = "?s1\<lparr>userMap := am_modify k reset_user (userMap s)\<rparr>"
  have run: "StatusChat env k direction s_out s = Inr (drop_empty_room (rname u) ?s2)"
    using n(3) k(1) by (simp add: StatusChat_def session_names_ok [OF s k(1)] user_ok_cstr(2) [OF u]
        reset_session_eq)
  have R: "roomMap (drop_empty_room (rname u) ?s2) = roomMap (drop_empty_room (rname u) (s\<lparr>roomMap := ?R\<rparr>))"
    by (rule drop_empty_room_cong) simp
  have "k \<in> set (userList r)"
    using rooms_member [OF world_okD(6) [OF s] k(1), of "rname u"] k(2) r
    by (fastforce simp: room_of_def)
  then have "removeAll k (userList r) = [] \<longleftrightarrow> set (userList r) = {k}"
    by (auto simp: removeAll_filter_not_eq filter_empty_conv)
  moreover have "um_wf (am_modify k reset_user (userMap s))"
    using world_okD(1) [OF s] by (rule um_wf_modify)
  ultimately show ?thesis
    unfolding run
    using left_world [OF s k r n(1), of "Some (reset_user u)" "liveSocket s" "idSet s"
        "am_modify k reset_user (userMap s)" "drop_empty_room (rname u) ?s2"] R n(2) k(1)
      reset_user_ok [OF u]
    by (simp add: map_of_am_modify roomMap_after [OF r] list_without_def)
qed

lemma StatusChat_moves:
  assumes sql: "sql_ok env" and s: "world_ok s"
    and k: "map_of (userMap s) k = Some u" "status u = STATUS_CHATTIG"
    and req: "request_ok STATUS_CHATTIG direction message"
  shows "ok (StatusChat env k direction message s) (moves k s)"
proof (cases "message = s_out")
  case True
  have ru: "room_of u = Some (rname u)" using k(2) by (simp add: room_of_def)
  then obtain r where r: "map_of (roomMap s) (rname u) = Some r"
    using rooms_member [OF world_okD(6) [OF s] k(1)] by blast
  have "chat_move k (chat_of s) ((chat_of s)(k \<mapsto> (uid u, uname u, None)))"
    using chat_of_Some [OF k(1)] ru by (auto intro: chat_move.leave)
  then show ?thesis
    unfolding True using StatusChat_out [OF s k r, of env direction]
    by (elim ok_mono) (simp add: moves_def)
next
  case False
  note u = world_user(1) [OF s k(1)]
  have same: "moves k s s" using moves_same [OF s same_sessions_refl] .
  let ?vo = "setStatus 0 (setDirection 0 (setMsg message
      (setRoomName (rname u) (setNickName (uname u) LogVo_new))))"
  have "NUL \<in> set (nickName_v ?vo) \<and> NUL \<in> set (roomName_v ?vo) \<and> NUL \<in> set (msg_v ?vo)"
    using user_ok_lengths [OF u] req
    by (simp add: vo_defs vo_simps NUL_in_strncpy NAME_SIZE_def request_ok_def Let_def)
  then have "ok (InsertChatting env ?vo db) (\<lambda>_. True)" for db by (simp add: logs_ok)
  then obtain db' where "InsertChatting env ?vo (database s) = Inr db'" by (auto simp: ok_iff)
  moreover have "direction \<noteq> FILE_SEND" using req by (simp add: request_ok_def Let_def)
  ultimately show ?thesis
    using False same
    by (simp add: StatusChat_def session_names_ok [OF s k(1)] k(1) user_ok_cstr(2) [OF u] Let_def)
qed

section \<open>The dispatcher\<close>

text \<open>
  A client without a session can ask the process to end; every other request that the code can take
  returns normally.
\<close>

lemma StatusLogout_moves:
  assumes sql: "sql_ok env" and s: "world_ok s"
    and k: "map_of (userMap s) k = None" "map_of (liveSocket s) k \<noteq> None"
    and req: "request_ok STATUS_LOGOUT direction message"
  shows "safe (StatusLogout env k direction message s) (moves k s)"
proof -
  have same: "moves k s s'" if "same_sessions s s'" for s' using moves_same [OF s that] .
  have "ok (UserMake env k message s) (moves k s)" if "direction = USER_MAKE"
    using UserMake_same [OF sql, of message k s] req that same by (auto elim: ok_mono)
  then show ?thesis
    using UserEnter_moves [OF sql _ s k, of message] req same
    by (auto simp: StatusLogout_def directionFunc_def intro: ok_safe)
qed

theorem callFuncPointer_moves:
  assumes sql: "sql_ok env" and s: "world_ok s" and live: "map_of (liveSocket s) k \<noteq> None"
    and req: "request_ok (GetStatus k s) direction message"
  shows "safe (callFuncPointer env k (GetStatus k s) direction message s) (moves k s)"
proof (cases "map_of (userMap s) k")
  case None
  with StatusLogout_moves [OF sql s None live] req show ?thesis
    by (simp add: GetStatus_def callFuncPointer_def)
next
  case (Some u)
  then consider "status u = STATUS_WAITING" | "status u = STATUS_CHATTIG"
    using world_user(1) [OF s Some] by (auto simp: user_ok_def)
  then show ?thesis
    using req Some StatusWait_moves [OF sql s Some] StatusChat_moves [OF sql s Some]
    by cases (auto simp: GetStatus_def callFuncPointer_def intro: ok_safe)
qed

section \<open>Disconnection and ban\<close>

lemma net_ok_close: "net_ok (n\<lparr>wire := wire n @ [CloseSocket k]\<rparr>) = net_ok n"
  by (simp add: net_ok_def owns_def net_inv_def pending_def)

lemma world_ok_close:
  "world_ok (s\<lparr>net_of := (net_of s)\<lparr>wire := wire (net_of s) @ [CloseSocket k]\<rparr>\<rparr>) = world_ok s"
  by (simp add: world_ok_def sessions_ok_def maps_ok_def net_ok_close)

lemma chat_of_net [simp]: "chat_of (s\<lparr>net_of := n\<rparr>) = chat_of s"
  by (simp add: chat_of_def)

text \<open>Erasing the session of a client that is in no room, with or without its socket.\<close>

lemma erase_waiting:
  assumes s: "world_ok s" and k: "map_of (userMap s) k = Some u" "status u = STATUS_WAITING"
    and L: "L = liveSocket s \<or> L = am_erase k (liveSocket s)"
    and s': "s' = s\<lparr>idSet := idSet s - {uid u}, liveSocket := L, userMap := am_erase k (userMap s)\<rparr>"
  shows "world_ok s'" and "chat_of s' = (chat_of s)(k := None)"
proof -
  let ?s1 = "s\<lparr>idSet := idSet s - {uid u}, userMap := am_erase k (userMap s)\<rparr>"
  have w: "world_ok ?s1"
    using moves_logout [OF s k(1) waiting_room_of [OF k(2)]] by (simp add: moves_def)
  have "sm_wf L" using L world_okD(3) [OF s] by (auto simp: sm_wf_erase)
  moreover have "users_ok (map_of (am_erase k (userMap s))) (map_of L)"
    using world_okD(4) [OF w] L by (auto simp: users_ok_def map_of_am_erase)
  ultimately show "world_ok s'"
    using w by (simp add: s' world_ok_def sessions_ok_def maps_ok_def)
  have "map_of (userMap s') = (map_of (userMap s))(k := None)"
    by (simp add: s' map_of_am_erase)
  then have "chat_of s' = (chat_of s)(k := map_option (\<lambda>u. (uid u, uname u, room_of u)) None)"
    by (rule chat_of_upd)
  then show "chat_of s' = (chat_of s)(k := None)" by simp
qed

lemma map_of_erase_reset:
  "map_of (am_erase k (am_modify k f m)) = (map_of m)(k := None)"
  by (simp add: map_of_am_erase map_of_am_modify fun_eq_iff)

theorem ClientExit_ok:
  assumes w: "world_ok s"
  shows "ok (ClientExit env closed k s) (\<lambda>s'. world_ok s' \<and>
    chat_of s' = (if closed then (chat_of s)(k := None) else chat_of s) \<and>
    map_of (liveSocket s') =
      (if closed then (map_of (liveSocket s))(k := None) else map_of (liveSocket s)))"
proof -
  define s0 where "s0 = s\<lparr>net_of := (net_of s)\<lparr>wire := wire (net_of s) @ [CloseSocket k]\<rparr>\<rparr>"
  have s: "world_ok s0" using w unfolding s0_def world_ok_close .
  have eqs: "chat_of s0 = chat_of s" "liveSocket s0 = liveSocket s" "userMap s0 = userMap s"
    by (simp_all add: s0_def)
  let ?L = "am_erase k (liveSocket s0)"
  show ?thesis
  proof (cases closed)
    case False
    then show ?thesis using s eqs(1,2) by (simp add: ClientExit_def s0_def [symmetric])
  next
    case True
    show ?thesis
    proof (cases "map_of (userMap s0) k")
      case None
      have "world_ok (s0\<lparr>liveSocket := ?L\<rparr>)"
        using s None by (auto simp: world_ok_def sessions_ok_def maps_ok_def users_ok_def
            sm_wf_erase map_of_am_erase)
      moreover have "chat_of (s0\<lparr>liveSocket := ?L\<rparr>) = (chat_of s)(k := None)"
        using None eqs(3) by (auto simp: chat_of_def fun_eq_iff)
      ultimately show ?thesis
        using True None eqs(1,2) by (simp add: ClientExit_def s0_def [symmetric] map_of_am_erase Let_def)
    next
      case (Some u)
      note u = user_ok_cstr [OF world_user(1) [OF s Some]]
      let ?ids = "idSet s0 - {uid u}"
      from world_user(1) [OF s Some]
      consider "status u = STATUS_WAITING" | "status u = STATUS_CHATTIG"
        by (auto simp: user_ok_def)
      then show ?thesis
      proof cases
        case 1
        then show ?thesis
          using erase_waiting [OF s Some 1, of ?L] True Some eqs(1,2) u
          by (simp add: ClientExit_def s0_def [symmetric] map_of_am_erase Let_def
              live_then_ids)
      next
        case 2
        obtain n r where n: "map_of (roomMap s0) (rname u) = Some r" "net_ok n"
            "broadcast_leave env (uname u @ m_left) (rname u) k (s0\<lparr>idSet := ?ids, liveSocket := ?L\<rparr>) =
             Inr (s0\<lparr>idSet := ?ids, liveSocket := ?L, net_of := n,
                    roomMap := am_modify (rname u) (list_without k) (roomMap s0)\<rparr>)"
          using leave_room_moves [OF s Some 2, where ids = ?ids and L = ?L and env = env] by blast
        let ?R = "am_modify (rname u) (list_without k) (roomMap s0)"
        let ?s1 = "s0\<lparr>idSet := ?ids, liveSocket := ?L, net_of := n, roomMap := ?R,
                     userMap := am_modify k reset_user (userMap s0)\<rparr>"
        let ?s2 = "drop_empty_room (rname u) ?s1"
        let ?s' = "?s2\<lparr>userMap := am_erase k (userMap ?s2)\<rparr>"
        have R: "roomMap ?s' = roomMap (drop_empty_room (rname u) (s0\<lparr>roomMap := ?R\<rparr>))"
          using drop_empty_room_cong [of ?s1 "s0\<lparr>roomMap := ?R\<rparr>"] by simp
        have U: "um_wf (am_erase k (am_modify k reset_user (userMap s0)))"
          using world_okD(1) [OF s] by (intro um_wf_erase um_wf_modify)
        have "ClientExit env closed k s = Inr ?s'"
          using True Some 2 u n(3)
          by (simp add: ClientExit_def s0_def [symmetric] Let_def live_then_ids reset_session_eq)
        moreover have "world_ok ?s'" "chat_of ?s' = (chat_of s0)(k := None)"
          using left_world [OF s Some 2 n(1,2), of None ?L ?ids "userMap ?s'" ?s'] R U
          by (simp_all add: map_of_erase_reset)
        ultimately show ?thesis using True eqs(1,2) by (simp add: map_of_am_erase)
      qed
    qed
  qed
qed

text \<open>A ban ends the session of the first client with that nickname and leaves its socket open.\<close>

theorem BanUser_ok:
  assumes s: "world_ok s"
  shows "ok (BanUser env nick s) (\<lambda>s'. world_ok s' \<and> liveSocket s' = liveSocket s \<and>
    chat_of s' =
      (case List.find (\<lambda>(k, u). uname u = nick) (userMap s) of
         None \<Rightarrow> chat_of s
       | Some (k, u) \<Rightarrow> (chat_of s)(k := None)))"
proof (cases "List.find (\<lambda>(k, u). uname u = nick) (userMap s)")
  case None
  then show ?thesis using s by (simp add: BanUser_def world_find_user [OF s])
next
  case (Some p)
  obtain k v where p: "p = (k, v)" by (cases p)
  have k: "map_of (userMap s) k = Some v"
    using find_SomeD(1) [OF world_okD(1) [OF s] Some [unfolded p]] .
  note v = user_ok_cstr [OF world_user(1) [OF s k]]
  let ?ids = "idSet s - {uid v}"
  from world_user(1) [OF s k]
  consider "status v = STATUS_WAITING" | "status v = STATUS_CHATTIG" by (auto simp: user_ok_def)
  then show ?thesis
  proof cases
    case 1
    then show ?thesis
      using erase_waiting [OF s k 1, of "liveSocket s"] Some p v
      by (simp add: BanUser_def world_find_user [OF s] Let_def queue_then_user)
  next
    case 2
    obtain n r where n: "map_of (roomMap s) (rname v) = Some r" "net_ok n"
        "broadcast_leave env (uname v @ m_left) (rname v) k (s\<lparr>idSet := ?ids, liveSocket := liveSocket s\<rparr>) =
         Inr (s\<lparr>idSet := ?ids, liveSocket := liveSocket s, net_of := n,
                roomMap := am_modify (rname v) (list_without k) (roomMap s)\<rparr>)"
      using leave_room_moves [OF s k 2, where ids = ?ids and L = "liveSocket s" and env = env] by blast
    let ?R = "am_modify (rname v) (list_without k) (roomMap s)"
    let ?s1 = "s\<lparr>idSet := ?ids, net_of := n, roomMap := ?R,
                 userMap := am_modify k reset_user (userMap s)\<rparr>"
    let ?s2 = "drop_empty_room (rname v) ?s1"
    let ?s3 = "InsertSendQueue SEND_ME m_banned '''' k STATUS_LOGOUT ?s2"
    let ?s' = "?s3\<lparr>userMap := am_erase k (userMap ?s3)\<rparr>"
    have R: "roomMap ?s' = roomMap (drop_empty_room (rname v) (s\<lparr>roomMap := ?R\<rparr>))"
      using drop_empty_room_cong [of ?s1 "s\<lparr>roomMap := ?R\<rparr>"] by simp
    have U: "um_wf (am_erase k (am_modify k reset_user (userMap s)))"
      using world_okD(1) [OF s] by (intro um_wf_erase um_wf_modify)
    have "BanUser env nick s = Inr ?s'"
      using Some p 2 v n(3) k
      by (simp add: BanUser_def world_find_user [OF s] Let_def reset_session_eq)
    then show ?thesis
      using left_world [OF s k 2 n(1,2), of None "liveSocket s" ?ids "userMap ?s'" ?s'] R U Some p
      by (simp add: map_of_erase_reset)
  qed
qed

text \<open>Once nobody is logged in under an id, it is free.\<close>

lemma gone_id_free:
  assumes s: "world_ok s" and s': "world_ok s'" and k: "chat_of s k = Some (i, n, r)"
    and gone: "chat_of s' = (chat_of s)(k := None)"
  shows "i \<notin> idSet s'"
proof
  assume "i \<in> idSet s'"
  then obtain k' v where v: "map_of (userMap s') k' = Some v" "uid v = i"
    using world_okD(5) [OF s'] by (auto simp: ids_ok_def ran_def)
  have c: "chat_of s' k' = Some (i, uname v, room_of v)" using chat_of_Some [OF v(1)] v(2) by simp
  then have "k' \<noteq> k" using gone by auto
  then have "chat_of s k' = Some (i, uname v, room_of v)" using c gone by simp
  then obtain a b where "map_of (userMap s) k = Some a" "map_of (userMap s) k' = Some b" "uid a = uid b"
    using k by (auto simp: chat_of_def)
  then have "k = k'" using world_okD(5) [OF s] unfolding ids_ok_def by blast
  with \<open>k' \<noteq> k\<close> show False by simp
qed

end
