(* ===== verification/Server.thy ===== *)
theory Server
  imports Correct
begin

text \<open>
  The threads of \<open>src/Chat/Server/Server.cpp\<close>: accepting clients (\<open>main\<close>), completions (\<open>RecvThread\<close>),
  jobs (\<open>WorkThread\<close>) and the send queue (\<open>SendThread\<close>).

  A step is one turn of one thread: one \<open>accept\<close>, one completion, one exchange of the job queue with
  the local queue of a worker, one job of a worker, one round of the send thread. Steps of different
  threads follow each other in any order; the turns themselves are not cut up.

  The kernel chooses what a completion reports; the bytes it has received are put into the buffer of
  the structure before the thread looks at them.
\<close>

section \<open>State\<close>

record SEND_JOB =
  sj_socket :: SOCKET
  sj_msg :: string
  sj_status :: ClientStatus

record 'db process =
  srv :: "'db server"
  jobQueue :: "JOB_DATA list"
  packetCnt :: int
  sendJobs :: "SEND_JOB list"             \<comment> \<open>the global \<open>sendQueue\<close>\<close>
  localQueue :: "nat \<Rightarrow> JOB_DATA list"     \<comment> \<open>of each worker thread\<close>

section \<open>\<open>SendThread\<close>\<close>

definition EnqueueSend :: "SEND_JOB \<Rightarrow> 'db process \<Rightarrow> 'db process" where
  "EnqueueSend job p = p\<lparr>sendJobs := sendJobs p @ [job]\<rparr>"

fun send_jobs :: "'db cfg \<Rightarrow> SEND_JOB list \<Rightarrow> 'db server \<Rightarrow> cpp_error + 'db server" where
  "send_jobs env [] s = Inr s"
| "send_jobs env (j # js) s =
     (if IsSocketDead (sj_socket j) s then send_jobs env js s
      else
        sbind (SendToOneMsg (past env) (sj_msg j) (sj_socket j) (sj_status j) (net_of s)) (\<lambda>n.
        send_jobs env js (s\<lparr>net_of := n\<rparr>)))"

definition SendThread :: "'db cfg \<Rightarrow> 'db process \<Rightarrow> cpp_error + 'db process" where
  "SendThread env p =
     (if sendJobs p = [] then Inl Blocked
      else sbind (send_jobs env (sendJobs p) (srv p)) (\<lambda>s. Inr (p\<lparr>srv := s, sendJobs := []\<rparr>)))"

section \<open>\<open>WorkThread\<close>\<close>

text \<open>\<open>msg.substr(0, n)\<close> with an \<open>int\<close> converted to \<open>size_t\<close>: a negative count means all of it.\<close>

definition substr :: "int \<Rightarrow> string \<Rightarrow> string" where
  "substr n s = (if n < 0 then s else take (nat n) s)"

definition work_job :: "'db cfg \<Rightarrow> JOB_DATA \<Rightarrow> 'db process \<Rightarrow> cpp_error + 'db process" where
  "work_job env j p =
     (if IsSocketDead (job_socket j) (srv p) then Inr p
      else if job_direction j = CALLCOUNT then
        sbind (CallCnt (job_socket j) (packetCnt p) (srv p)) (\<lambda>s.
        Inr (p\<lparr>packetCnt := 0, srv := s\<rparr>))
      else if job_direction j = BAN then
        sbind (BanUser env (substr (job_nowStatus j) (job_msg j)) (srv p)) (\<lambda>s.
        Inr (p\<lparr>srv := s\<rparr>))
      else
        sbind (callFuncPointer env (job_socket j) (GetStatus (job_socket j) (srv p)) (job_direction j)
                 (job_msg j) (srv p)) (\<lambda>s.
        Inr (p\<lparr>srv := s\<rparr>)))"

text \<open>The two parts of the loop: exchange the queues when there is work, take the next job.\<close>

definition WorkThread_swap :: "nat \<Rightarrow> 'db process \<Rightarrow> cpp_error + 'db process" where
  "WorkThread_swap w p =
     (if jobQueue p = [] then Inl Blocked
      else Inr (p\<lparr>jobQueue := [], localQueue := (localQueue p)(w := jobQueue p)\<rparr>))"

definition WorkThread_job :: "'db cfg \<Rightarrow> nat \<Rightarrow> 'db process \<Rightarrow> cpp_error + 'db process" where
  "WorkThread_job env w p =
     sbind (ConcurrentQueue_top (localQueue p w)) (\<lambda>(j, js).
     work_job env j (p\<lparr>localQueue := (localQueue p)(w := js)\<rparr>))"

section \<open>\<open>RecvThread\<close>\<close>

text \<open>The kernel's part: the received bytes are in the buffer the receive was posted with.\<close>

definition kernel_fill :: "nat \<Rightarrow> char list \<Rightarrow> net \<Rightarrow> cpp_error + net" where
  "kernel_fill i bs n =
     sbind (mp_get (ioPool n) i) (\<lambda>io.
     Inr (if wsaBuf_buf io = OwnBuf then
            n\<lparr>ioPool := mp_set i (io\<lparr>buffer := overwrite (buffer io) 0 bs\<rparr>) (ioPool n)\<rparr>
          else n))"

text \<open>
  A completion of a receive, from the loop over packets to the next receive. \<open>bytesTrans\<close> is the
  number of bytes reported.
\<close>

definition recv_completed :: "SOCKET \<Rightarrow> nat \<Rightarrow> nat \<Rightarrow> 'db process \<Rightarrow> cpp_error + 'db process" where
  "recv_completed sock i bytesTrans p =
     (let n = net_of (srv p) in
      sbind (mp_get (ioPool n) i) (\<lambda>io.
      case recv_loop sock io (short_of (int (min bytesTrans BUF_SIZE))) (charPool n) [] of
        None \<Rightarrow> Inl Diverges
      | Some r \<Rightarrow>
          sbind r (\<lambda>(remainByte, io, cp, packetQueue).
          let n = n\<lparr>charPool := cp, ioPool := mp_set i io (ioPool n)\<rparr> in
          sbind
            (if remainByte = 0 then
               sbind (give_back i n) (Recv sock)
             else RecvMore sock i n) (\<lambda>n.
          Inr (p\<lparr>srv := (srv p)\<lparr>net_of := n\<rparr>,
                 packetCnt := int32_of (packetCnt p + int (length packetQueue)),
                 jobQueue := jobQueue p @ packetQueue\<rparr>)))))"

text \<open>A completion of a send gives back the packet and the structure.\<close>

definition send_completed :: "nat \<Rightarrow> net \<Rightarrow> cpp_error + net" where
  "send_completed i n =
     sbind (mp_get (ioPool n) i) (\<lambda>io.
     sbind (case wsaBuf_buf io of PoolBuf a \<Rightarrow> CharPool_Free a (charPool n) | _ \<Rightarrow> Inl HeapOverflow)
       (\<lambda>cp. give_back i (n\<lparr>charPool := cp\<rparr>)))"

text \<open>
  One turn of \<open>RecvThread\<close>: \<open>success\<close> and \<open>bytesTrans\<close> as \<open>GetQueuedCompletionStatus\<close> returns them,
  \<open>closed\<close> as the \<open>closesocket\<close> of \<open>ClientExit\<close> turns out.
\<close>

definition RecvThread ::
    "'db cfg \<Rightarrow> bool \<Rightarrow> nat \<Rightarrow> SOCKET \<Rightarrow> nat \<Rightarrow> bool \<Rightarrow> 'db process \<Rightarrow> cpp_error + 'db process" where
  "RecvThread env success bytesTrans sock i closed p =
     (if \<not> success \<or> bytesTrans = 0 then
        sbind (ClientExit env closed sock (srv p)) (\<lambda>s.
        sbind (give_back i (net_of s)) (\<lambda>n. Inr (p\<lparr>srv := s\<lparr>net_of := n\<rparr>\<rparr>)))
      else
        sbind (mp_get (ioPool (net_of (srv p))) i) (\<lambda>io.
        if serverMode io = OP_RECV \<or> serverMode io = OP_RECV_MORE then
          recv_completed sock i bytesTrans p
        else if serverMode io = OP_SEND then
          sbind (send_completed i (net_of (srv p))) (\<lambda>n. Inr (p\<lparr>srv := (srv p)\<lparr>net_of := n\<rparr>\<rparr>))
        else
          sbind (give_back i (net_of (srv p))) (\<lambda>n. Inr (p\<lparr>srv := (srv p)\<lparr>net_of := n\<rparr>\<rparr>))))"

section \<open>\<open>main\<close>\<close>

text \<open>One turn of the accept loop.\<close>

definition main_accept :: "'db cfg \<Rightarrow> SOCKET \<Rightarrow> string \<Rightarrow> 'db process \<Rightarrow> cpp_error + 'db process" where
  "main_accept env sock ip p =
     (let s = InsertLiveSocket sock ip (srv p) in
      sbind (Recv sock (net_of s)) (\<lambda>n.
      sbind (SendToOneMsg (past env) (m_welcome @ loginBeforeMessage) sock STATUS_LOGOUT n) (\<lambda>n.
      Inr (p\<lparr>srv := s\<lparr>net_of := n\<rparr>\<rparr>))))"

section \<open>Steps\<close>

datatype event =
    Accept SOCKET string
  | Completion bool SOCKET nat "char list" bool
      \<comment> \<open>success, socket, structure, bytes received (or sent), outcome of \<open>closesocket\<close>\<close>
  | Swap nat
  | Job nat
  | Send

definition do_event :: "'db cfg \<Rightarrow> event \<Rightarrow> 'db process \<Rightarrow> cpp_error + 'db process" where
  "do_event env e p =
     (case e of
        Accept sock ip \<Rightarrow> main_accept env sock ip p
      | Completion success sock i bs closed \<Rightarrow>
          sbind (kernel_fill i bs (net_of (srv p))) (\<lambda>n.
          RecvThread env success (length bs) sock i closed (p\<lparr>srv := (srv p)\<lparr>net_of := n\<rparr>\<rparr>))
      | Swap w \<Rightarrow> WorkThread_swap w p
      | Job w \<Rightarrow> WorkThread_job env w p
      | Send \<Rightarrow> SendThread env p)"

text \<open>The start: empty pools, no client, whatever the disk and the database hold.\<close>

definition start :: "net \<Rightarrow> udp \<Rightarrow> 'db \<Rightarrow> 'db process" where
  "start n u db =
     \<lparr>srv = \<lparr>net_of = n, idSet = {}, userMap = [], roomMap = [], sendQueue = [], sendStop = False,
             liveSocket = [], udp_of = u, database = db\<rparr>,
      jobQueue = [], packetCnt = 0, sendJobs = [], localQueue = (\<lambda>_. [])\<rparr>"

definition start_net :: "(nat \<Rightarrow> char) \<Rightarrow> (nat \<Rightarrow> PER_IO_DATA) \<Rightarrow> nat \<Rightarrow> net" where
  "start_net mem ios brk =
     \<lparr>charPool = CharPool_new mem brk, ioPool = MPool_new ios brk, wire = []\<rparr>"

text \<open>Any sequence of steps that return normally.\<close>

inductive reachable :: "'db cfg \<Rightarrow> 'db process \<Rightarrow> (event \<Rightarrow> 'db process \<Rightarrow> bool) \<Rightarrow> 'db process \<Rightarrow> bool"
  for env :: "'db cfg" and p0 :: "'db process" and allowed :: "event \<Rightarrow> 'db process \<Rightarrow> bool" where
  init: "reachable env p0 allowed p0"
| step: "reachable env p0 allowed p \<Longrightarrow> allowed e p \<Longrightarrow> do_event env e p = Inr p' \<Longrightarrow>
     reachable env p0 allowed p'"

end
