(* ===== verification/Reach.thy ===== *)
theory Reach
  imports Server
begin

text \<open>
  The whole server: every step that the environment may take keeps the invariant of the session state
  and of the two pools.

  \<open>event_ok\<close> is what the steps are assumed to get: a completion belongs to a posted operation, a
  receive brings whole packets (one or more, back to back), and a job carries a request the handlers
  can take. What happens outside these bounds is the subject of separate theorems.
\<close>

section \<open>What the environment may do\<close>

definition job_ok :: "JOB_DATA \<Rightarrow> 'db process \<Rightarrow> bool" where
  "job_ok j p \<longleftrightarrow>
     IsSocketDead (job_socket j) (srv p) \<or>
     (if job_direction j = CALLCOUNT then
        length (count_text (packetCnt p) (length (userMap (srv p)))) < 30
      else if job_direction j = BAN then True
      else request_ok (GetStatus (job_socket j) (srv p)) (job_direction j) (job_msg j))"

definition load_ok :: "char list \<Rightarrow> bool" where
  "load_ok bs \<longleftrightarrow> (\<exists>ms. bs = concat (map packet_of ms) \<and> (\<forall>m\<in>set ms. sendable m))"

definition event_ok :: "event \<Rightarrow> 'db process \<Rightarrow> bool" where
  "event_ok e p \<longleftrightarrow>
     (case e of
        Accept sock ip \<Rightarrow> True
      | Completion success sock i bs closed \<Rightarrow>
          i \<in> pending (net_of (srv p)) \<and> length bs \<le> BUF_SIZE \<and>
          (serverMode (mp_mem (ioPool (net_of (srv p))) i) = OP_RECV \<longrightarrow> load_ok bs)
      | Swap w \<Rightarrow> jobQueue p \<noteq> [] \<and> localQueue p w = []
      | Job w \<Rightarrow> localQueue p w \<noteq> [] \<and> job_ok (hd (localQueue p w)) p
      | Send \<Rightarrow> sendJobs p \<noteq> [])"

section \<open>Accepting\<close>

lemma m_welcome_ok: "nul_free (m_welcome @ loginBeforeMessage)"
  "length (m_welcome @ loginBeforeMessage) \<le> MAX_TEXT"
  by (simp_all add: m_welcome_def loginBeforeMessage_def nul_free_bytes MAX_TEXT_def)

lemma world_ok_net: "world_ok s \<Longrightarrow> net_ok n \<Longrightarrow> world_ok (s\<lparr>net_of := n\<rparr>)"
  by (simp add: world_ok_def sessions_ok_def maps_ok_def)

lemma InsertLiveSocket_ok:
  assumes "world_ok s"
  shows "world_ok (InsertLiveSocket k ip s)" "chat_of (InsertLiveSocket k ip s) = chat_of s"
  using assms
  by (auto simp: InsertLiveSocket_def world_ok_def sessions_ok_def maps_ok_def users_ok_def chat_of_def
      sm_wf_insert map_of_sm_insert split: if_splits)

lemma SendToOneMsg_net:
  assumes "net_ok n" and "nul_free msg" "length msg \<le> MAX_TEXT"
  obtains n' where "SendToOneMsg pst msg k st n = Inr n'" "net_ok n'"
    "sends (wire n') = sends (wire n) @ [(k, wire_packet (status_int st) 0 msg)]"
proof -
  obtain co mo where inv: "net_inv n co mo" using assms(1) by (rule net_ok_inv)
  show thesis
    using that net_ok_one(1) [OF assms, of pst k st] posted_one(1) [OF inv assms(2,3), of pst k st]
    by (auto simp: ok_iff posted_def)
qed

lemma accept_ok:
  assumes "world_ok (srv p)"
  obtains p' where "main_accept env k ip p = Inr p'" "world_ok (srv p')"
    "chat_of (srv p') = chat_of (srv p)" "sendJobs p' = sendJobs p"
    "sendQueue (srv p') = sendQueue (srv p)"
    "sends (wire (net_of (srv p'))) = sends (wire (net_of (srv p))) @
       [(k, wire_packet (status_int STATUS_LOGOUT) 0 (m_welcome @ loginBeforeMessage))]"
proof -
  let ?s = "InsertLiveSocket k ip (srv p)"
  have net: "net_of ?s = net_of (srv p)" by (simp add: InsertLiveSocket_def)
  have q: "sendQueue ?s = sendQueue (srv p)" by (simp add: InsertLiveSocket_def)
  obtain n1 where n1: "Recv k (net_of (srv p)) = Inr n1" "net_ok n1"
      "sends (wire n1) = sends (wire (net_of (srv p)))"
    using net_ok_recv [OF world_okD(7) [OF assms]] by (auto simp: ok_iff)
  obtain n2 where n2: "SendToOneMsg (past env) (m_welcome @ loginBeforeMessage) k STATUS_LOGOUT n1 = Inr n2"
      "net_ok n2" "sends (wire n2) = sends (wire n1) @
        [(k, wire_packet (status_int STATUS_LOGOUT) 0 (m_welcome @ loginBeforeMessage))]"
    using SendToOneMsg_net [OF n1(2) m_welcome_ok] by blast
  have "main_accept env k ip p = Inr (p\<lparr>srv := ?s\<lparr>net_of := n2\<rparr>\<rparr>)"
    using n1(1) n2(1) net by (simp add: main_accept_def Let_def)
  then show thesis
    using that [of "p\<lparr>srv := ?s\<lparr>net_of := n2\<rparr>\<rparr>"] n1 n2 q InsertLiveSocket_ok [OF assms, of k ip]
    by (simp add: world_ok_net)
qed

section \<open>Completions\<close>

text \<open>A receive that brings whole packets: the jobs are queued in order and a new receive is posted.\<close>

lemma kernel_fill_recv:
  assumes o: "owns n R S L" and i: "i \<in> R" and bs: "length bs \<le> BUF_SIZE"
  obtains n' where "kernel_fill i bs n = Inr n'" "owns n' R S L"
    "take (length bs) (buffer (mp_mem (ioPool n') i)) = bs" "wire n' = wire n"
proof -
  let ?io = "mp_mem (ioPool n) i"
  have inv: "mp_inv (ioPool n) (R \<union> dom S)" "i \<in> R \<union> dom S" and own: "wsaBuf_buf ?io = OwnBuf"
    and len: "length (buffer ?io) = BUF_SIZE"
    using o i by (auto simp: owns_def net_inv_def io_typed_def)
  let ?n' = "n\<lparr>ioPool := mp_set i (?io\<lparr>buffer := overwrite (buffer ?io) 0 bs\<rparr>) (ioPool n)\<rparr>"
  have "kernel_fill i bs n = Inr ?n'"
    using ok_mp_get [OF inv] own by (simp add: kernel_fill_def)
  moreover have "length (overwrite (buffer ?io) 0 bs) = BUF_SIZE" using bs len by simp
  then have "owns ?n' R S L"
    using o i by (auto simp: owns_def net_inv_def pending_def intro!: io_typed_set)
  moreover have "take (length bs) (buffer (mp_mem (ioPool ?n') i)) = bs"
    by (simp add: overwrite_def)
  ultimately show thesis using that by simp
qed

lemma recv_completed_ok:
  assumes o: "owns (net_of (srv p)) R S L" and i: "i \<in> R"
    and ms: "ms \<noteq> []" "\<forall>m\<in>set ms. sendable m"
    and n: "n = length (concat (map packet_of ms))" "n \<le> BUF_SIZE"
    and buf: "take n (buffer (mp_mem (ioPool (net_of (srv p))) i)) = concat (map packet_of ms)"
  obtains n' where "recv_completed sock i n p =
      Inr (p\<lparr>srv := (srv p)\<lparr>net_of := n'\<rparr>,
             packetCnt := int32_of (packetCnt p + int (length ms)),
             jobQueue := jobQueue p @ map (job_of sock) ms\<rparr>)"
    "net_ok n'" "sends (wire n') = sends (wire (net_of (srv p)))"
proof -
  let ?n = "net_of (srv p)" and ?io = "mp_mem (ioPool (net_of (srv p))) i"
  have inv: "cp_inv (charPool ?n) (ran S \<union> L)" "mp_inv (ioPool ?n) (R \<union> dom S)" "i \<in> R \<union> dom S"
    and mode: "serverMode ?io = OP_RECV" and len: "length (buffer ?io) = BUF_SIZE"
    using o i by (auto simp: owns_def net_inv_def io_typed_def)
  obtain io' cp' where loop: "recv_loop sock ?io (int n) (charPool ?n) [] =
      Some (Inr (0, io', cp', map (job_of sock) ms))" "cp_inv cp' (ran S \<union> L)"
      "serverMode io' = OP_RECV" "length (buffer io') = BUF_SIZE"
    using recv_loop_packets [OF inv(1) mode len ms buf n, of sock "[]"] by auto
  let ?n1 = "?n\<lparr>charPool := cp'\<rparr>"
  have short: "short_of (int (min n BUF_SIZE)) = int n"
    using n(2) by (simp add: short_of_id BUF_SIZE_def min_def)
  have o1: "owns ?n1 R S L" using o loop(2) by (simp add: owns_def net_inv_def pending_def)
  obtain n2 where n2: "give_back i ?n1 = Inr n2" "owns n2 (R - {i}) S L"
      "sends (wire n2) = sends (wire ?n1)" by (rule give_back_recv [OF o1 i])
  have "give_back i (?n1\<lparr>ioPool := mp_set i io' (ioPool ?n)\<rparr>) = give_back i ?n1"
    by (simp add: give_back_def MPool_Free_def mp_set_def)
  then have freed: "give_back i (?n\<lparr>charPool := cp', ioPool := mp_set i io' (ioPool ?n)\<rparr>) = Inr n2"
    using n2(1) by simp
  have "net_ok n2" using n2(2) by (auto simp: net_ok_def)
  then obtain n3 where "Recv sock n2 = Inr n3" "net_ok n3" "sends (wire n3) = sends (wire n2)"
    using net_ok_recv by (auto simp: ok_iff)
  then show thesis
    using that [of n3] loop(1) ok_mp_get [OF inv(2,3)] short freed n2(3)
    by (simp add: recv_completed_def Let_def)
qed

text \<open>A send that succeeded: its structure and its packet are free again.\<close>

lemma send_completed_ok:
  assumes o: "owns n R S L" and i: "S i = Some a"
  obtains n' where "send_completed i n = Inr n'" "owns n' R (S(i := None)) L"
    "sends (wire n') = sends (wire n)"
proof -
  have inv: "cp_inv (charPool n) (ran S \<union> L)" "mp_inv (ioPool n) (R \<union> dom S)" "i \<in> R \<union> dom S"
    and a: "a \<in> ran S \<union> L" and buf: "wsaBuf_buf (mp_mem (ioPool n) i) = PoolBuf a"
    and L: "ran S \<inter> L = {}" "inj_on S (dom S)"
    using o i by (auto simp: owns_def net_inv_def intro: ranI)
  obtain cp where cp: "CharPool_Free a (charPool n) = Inr cp" "cp_inv cp (ran S \<union> L - {a})"
    using cpa.free_ok [OF inv(1) a] by (auto simp: ok_iff)
  have "ran S \<union> L - {a} = ran (S(i := None)) \<union> L"
    using L ran_unset [OF L(2) i] ranI [of S i a, OF i] by auto
  with cp(2) have "cp_inv cp (ran (S(i := None)) \<union> L)" by simp
  then obtain n' where "give_back i (n\<lparr>charPool := cp\<rparr>) = Inr n'" "owns n' R (S(i := None)) L"
      "sends (wire n') = sends (wire n)"
    by (rule give_back_send [OF o i]) simp
  then show thesis
    using that cp(1) ok_mp_get [OF inv(2,3)] buf by (simp add: send_completed_def)
qed

text \<open>A send that failed: only its structure is given back; the packet block is lost.\<close>

lemma failed_send_ok:
  assumes o: "owns n R S L" and i: "S i = Some a"
  obtains n' where "give_back i n = Inr n'" "owns n' R (S(i := None)) (insert a L)"
    "sends (wire n') = sends (wire n)"
proof -
  have "ran (S(i := None)) \<union> insert a L = ran S \<union> L"
    using o i ran_unset [of S i a] ranI [of S i a] by (auto simp: owns_def)
  then have "cp_inv (charPool n) (ran (S(i := None)) \<union> insert a L)"
    using o by (simp add: owns_def net_inv_def)
  then obtain n' where "give_back i (n\<lparr>charPool := charPool n\<rparr>) = Inr n'"
      "owns n' R (S(i := None)) (insert a L)" "sends (wire n') = sends (wire n)"
    by (rule give_back_send [OF o i]) simp
  then show thesis using that by simp
qed

lemma give_back_ok:
  assumes "net_ok n" and "i \<in> pending n"
  obtains n' where "give_back i n = Inr n'" "net_ok n'" "sends (wire n') = sends (wire n)"
proof -
  obtain R S L where o: "owns n R S L" using assms(1) by (auto simp: net_ok_def)
  then consider "i \<in> R" | a where "S i = Some a" using assms(2) by (auto simp: owns_def)
  then show thesis
  proof cases
    case 1
    obtain n' where "give_back i n = Inr n'" "owns n' (R - {i}) S L" "sends (wire n') = sends (wire n)"
      by (rule give_back_recv [OF o 1])
    then show thesis using that unfolding net_ok_def by blast
  next
    case (2 a)
    obtain n' where "give_back i n = Inr n'" "owns n' R (S(i := None)) (insert a L)"
        "sends (wire n') = sends (wire n)"
      by (rule failed_send_ok [OF o 2])
    then show thesis using that unfolding net_ok_def by blast
  qed
qed

section \<open>Who sends\<close>

text \<open>A handler that only queues its replies: nothing goes to the network, and the queue only grows.\<close>

definition quiet :: "'db server \<Rightarrow> 'db server \<Rightarrow> bool" where
  "quiet s s' \<longleftrightarrow> net_of s' = net_of s \<and> (\<exists>ds. sendQueue s' = sendQueue s @ ds)"

lemma quiet_simps [simp]:
  "quiet s s"
  "quiet s (s'\<lparr>userMap := U\<rparr>) = quiet s s'"
  "quiet s (s'\<lparr>roomMap := R\<rparr>) = quiet s s'"
  "quiet s (s'\<lparr>idSet := i\<rparr>) = quiet s s'"
  "quiet s (s'\<lparr>database := d\<rparr>) = quiet s s'"
  "quiet s (s'\<lparr>udp_of := u\<rparr>) = quiet s s'"
  "quiet s (s'\<lparr>liveSocket := L\<rparr>) = quiet s s'"
  "quiet (s\<lparr>idSet := i\<rparr>) s' = quiet s s'"
  "quiet (s\<lparr>database := d\<rparr>) s' = quiet s s'"
  by (simp_all add: quiet_def)

lemma quiet_queue [simp]: "quiet s s' \<Longrightarrow> quiet s (InsertSendQueue dir msg rn k st s')"
  by (auto simp: quiet_def InsertSendQueue_def)

lemma quiet_upd_user: "upd_user k f s' = Inr s'' \<Longrightarrow> \<exists>U. s'' = s'\<lparr>userMap := U\<rparr>"
  by (auto simp: upd_user_def split: option.splits)

lemma quiet_trans: "quiet s s' \<Longrightarrow> quiet s' s'' \<Longrightarrow> quiet s s''"
  by (auto simp: quiet_def)

lemma UserMake_quiet: "post (UserMake env k m s) (quiet s)"
  by (auto simp: UserMake_def Let_def intro!: post_bindI split: list.split)

lemma InitUser_quiet: "post (InitUser env a k nick s) (quiet s)"
  by (auto simp: InitUser_def Let_def intro!: post_bindI)

lemma InitUser_quiet_from: "quiet s s1 \<Longrightarrow> post (InitUser env a k nick s1) (quiet s)"
  using InitUser_quiet by (rule post_mono) (rule quiet_trans)

lemma UserEnter_quiet: "post (UserEnter env k m s) (quiet s)"
  by (auto simp: UserEnter_def Let_def intro!: post_bindI InitUser_quiet_from split: list.split)

lemma rooms_quiet:
  "post (RoomMake k m s) (quiet s)"
  "post (RoomEnter k m s) (quiet s)"
  "post (RoomInfo k s) (quiet s)"
  "post (RoomUserInfo k s) (quiet s)"
  by (auto simp: RoomMake_def RoomEnter_def RoomInfo_def RoomUserInfo_def Let_def intro!: post_bindI
      dest!: quiet_upd_user)

lemma Whisper_quiet: "post (Whisper k m s) (quiet s)"
  by (auto simp: Whisper_def intro!: post_bindI split: option.split list.split)

lemma friends_quiet:
  "post (FriendInfo env k s) (quiet s)"
  "post (FriendAdd env k m s) (quiet s)"
  "post (FriendDelete env k m s) (quiet s)"
  by (auto simp: FriendInfo_def FriendAdd_def FriendDelete_def Let_def intro!: post_bindI)

lemma FriendGo_quiet: "post (FriendGo env k m s) (quiet s)"
  by (auto simp: FriendGo_def Let_def intro!: post_bindI dest!: quiet_upd_user split: option.split)

lemma directionFunc_quiet: "post (directionFunc env d k m s) (quiet s)"
  by (cases d) (auto simp: directionFunc_def UserMake_quiet UserEnter_quiet rooms_quiet Whisper_quiet
      friends_quiet FriendGo_quiet)

lemma StatusLogout_quiet: "post (StatusLogout env k d m s) (quiet s)"
  by (auto simp: StatusLogout_def directionFunc_quiet)

lemma log_direction_quiet: "quiet s s1 \<Longrightarrow> post (log_direction env name st d m s1) (quiet s)"
  by (auto simp: log_direction_def Let_def intro!: post_bindI)

lemma StatusWait_quiet: "post (StatusWait env k st d m s) (quiet s)"
proof -
  have step: "post (sbind c (log_direction env name st d m)) (quiet s)"
    if "post c (quiet s)" for c name
    unfolding post_sbind using that by (rule post_mono) (rule log_direction_quiet)
  show ?thesis
    unfolding StatusWait_def
    by (rule post_bindI, simp only: split_beta, rule post_if, simp, rule step)
       (auto intro!: post_bindI directionFunc_quiet)
qed

lemma CallCnt_quiet: "post (CallCnt k c s) (quiet s)"
  by (auto simp: CallCnt_def Let_def)

lemma StatusChat_quiet: "m \<noteq> s_out \<Longrightarrow> post (StatusChat env k d m s) (quiet s)"
  by (auto simp: StatusChat_def Let_def intro!: post_bindI)

text \<open>
  What reaches the network apart from the greeting: notices that somebody has left. The queue of
  replies still only grows, and no posted structure is taken away from the kernel.
\<close>

definition notice :: "char list \<Rightarrow> bool" where
  "notice bs \<longleftrightarrow> (\<exists>name. bs = wire_packet (status_int STATUS_CHATTIG) 0 (name @ m_left))"

definition greeting :: "char list" where
  "greeting = wire_packet (status_int STATUS_LOGOUT) 0 (m_welcome @ loginBeforeMessage)"

definition talks :: "'db server \<Rightarrow> 'db server \<Rightarrow> bool" where
  "talks s s' \<longleftrightarrow>
     (\<exists>ds. sendQueue s' = sendQueue s @ ds) \<and>
     (\<exists>ks. sends (wire (net_of s')) = sends (wire (net_of s)) @ ks \<and> (\<forall>p\<in>set ks. notice (snd p))) \<and>
     pending (net_of s) \<subseteq> pending (net_of s')"

lemma quiet_talks: "quiet s s' \<Longrightarrow> talks s s'"
  by (auto simp: quiet_def talks_def)

lemma talks_trans:
  assumes "talks s s1" and "talks s1 s2"
  shows "talks s s2"
proof -
  obtain ks ks' where "sends (wire (net_of s1)) = sends (wire (net_of s)) @ ks"
      "sends (wire (net_of s2)) = sends (wire (net_of s1)) @ ks'"
      "\<forall>p\<in>set ks. notice (snd p)" "\<forall>p\<in>set ks'. notice (snd p)"
    using assms by (auto simp: talks_def)
  then have "sends (wire (net_of s2)) = sends (wire (net_of s)) @ (ks @ ks')"
      "\<forall>p\<in>set (ks @ ks'). notice (snd p)" by auto
  then show ?thesis using assms unfolding talks_def by (metis (no_types) append.assoc subset_trans)
qed

lemma member_pending: "post (send_room_member pst m st k n) (\<lambda>n'. pending n \<subseteq> pending n')"
  by (auto simp: send_room_member_def pending_def intro!: post_bindI)

lemma room_pending: "post (SendToRoomMsg pst m ks st n) (\<lambda>n'. pending n \<subseteq> pending n')"
proof (induction ks arbitrary: n)
  case (Cons k ks)
  show ?case
    unfolding SendToRoomMsg.simps post_sbind
  proof (rule post_mono [OF member_pending])
    fix n' assume "pending n \<subseteq> pending n'"
    then show "post (SendToRoomMsg pst m ks st n') (\<lambda>n''. pending n \<subseteq> pending n'')"
      by (intro post_mono [OF Cons.IH]) blast
  qed
qed simp

lemma broadcast_talks:
  assumes "broadcast_leave env (name @ m_left) rn k s = Inr s'" and "net_ok (net_of s)"
    and "nul_free name" "length name < NAME_SIZE"
  shows "talks s s'"
proof -
  have msg: "nul_free (name @ m_left)" "length (name @ m_left) \<le> MAX_TEXT"
    using assms(3,4) length_m_left by (simp_all add: NAME_SIZE_def MAX_TEXT_def)
  obtain r where r: "map_of (roomMap s) rn = Some r"
    using assms(1) by (cases "map_of (roomMap s) rn") (auto simp: broadcast_leave_def)
  obtain n where n: "sends (wire n) = sends (wire (net_of s)) @ room_notice (name @ m_left) (userList r)"
      "s' = s\<lparr>net_of := n, roomMap := am_modify rn (list_without k) (roomMap s)\<rparr>"
    using broadcast_leave_ok [OF assms(2) r msg, of env k] assms(1) by auto
  have "SendToRoomMsg (past env) (name @ m_left) (userList r) STATUS_CHATTIG (net_of s) = Inr n"
    using assms(1) r n(2)
    by (auto simp: broadcast_leave_def sbind_Inr_iff dest!: arg_cong [where f = net_of])
  then have "pending (net_of s) \<subseteq> pending n"
    using room_pending [of "past env" "name @ m_left" "userList r" STATUS_CHATTIG "net_of s"] by simp
  with n show ?thesis by (auto simp: talks_def room_notice_def notice_def)
qed

text \<open>The shared tail of \<open>\out\<close>, disconnection and ban.\<close>

lemma leave_talks:
  assumes "broadcast_leave env (name @ m_left) rn k s1 = Inr s2"
    and "net_ok (net_of s1)" and "nul_free name" "length name < NAME_SIZE"
    and "talks s s1" and "net_of s' = net_of s2" and "\<exists>ds. sendQueue s' = sendQueue s2 @ ds"
  shows "talks s s'"
proof (rule talks_trans [OF assms(5)], rule talks_trans)
  show "talks s1 s2" using assms(1-4) by (rule broadcast_talks)
  show "talks s2 s'" using assms(6,7) by (intro quiet_talks) (simp add: quiet_def)
qed

lemma cstr_name:
  assumes "world_ok s" and "map_of (userMap s) k = Some u" and "cstr (userName u) = Inr name"
  shows "nul_free name" "length name < NAME_SIZE"
  using user_ok_lengths(1) [OF world_user(1) [OF assms(1,2)]] assms(3) by (auto simp: cstr_Inr_iff)

lemma StatusChat_talks:
  assumes s: "world_ok s"
  shows "post (StatusChat env k d m s) (talks s)"
proof (cases "m = s_out")
  case False
  show ?thesis by (rule post_mono [OF StatusChat_quiet [OF False] quiet_talks])
next
  case True
  show ?thesis
  proof (cases "map_of (userMap s) k")
    case None
    then show ?thesis by (simp add: StatusChat_def session_names_def)
  next
    case (Some u)
    have t: "talks s s" by (intro quiet_talks) simp
    show ?thesis
      unfolding True StatusChat_def session_names_ok [OF s Some] sbind.simps prod.case
      using user_ok_lengths(1) [OF world_user(1) [OF s Some]] world_okD(7) [OF s]
      by (auto simp: Some reset_session_def InsertSendQueue_def dest!: quiet_upd_user
          intro!: post_bindI leave_talks [OF _ _ _ _ t])
  qed
qed

lemma exit_room_talks:
  assumes "talks s s1" and "net_ok (net_of s1)"
    and "\<And>name. cstr (userName u) = Inr name \<Longrightarrow> nul_free name \<and> length name < NAME_SIZE"
  shows "post
     (if status u = STATUS_CHATTIG then
        sbind (cstr (userName u)) (\<lambda>name.
        sbind (cstr (roomName u)) (\<lambda>rn.
        sbind (broadcast_leave env (name @ m_left) rn k s1) (\<lambda>s.
        sbind (reset_session k s) (\<lambda>s.
        Inr (drop_empty_room rn s)))))
      else Inr s1) (talks s)"
  using assms(1,2)
  by (auto simp: reset_session_def dest!: quiet_upd_user assms(3)
      intro!: post_bindI leave_talks [OF _ _ _ _ assms(1)])

lemma talks_same_net:
  "talks s s1 \<Longrightarrow> net_of s2 = net_of s1 \<Longrightarrow> \<exists>ds. sendQueue s2 = sendQueue s1 @ ds \<Longrightarrow> talks s s2"
  by (auto simp: talks_def)

lemma ClientExit_talks:
  assumes w: "world_ok s"
  shows "post (ClientExit env closed k s) (talks s)"
proof -
  let ?s0 = "s\<lparr>net_of := (net_of s)\<lparr>wire := wire (net_of s) @ [CloseSocket k]\<rparr>\<rparr>"
  have t: "talks s (?s0\<lparr>liveSocket := L, idSet := i\<rparr>)" "talks s ?s0"
    "talks s (?s0\<lparr>liveSocket := L\<rparr>)" for L i
    by (simp_all add: talks_def pending_def)
  have n: "net_ok (net_of (?s0\<lparr>liveSocket := L, idSet := i\<rparr>))" for L i
    using world_okD(7) [OF w] by (simp add: net_ok_close)
  show ?thesis
  proof (cases "map_of (userMap s) k")
    case None
    then show ?thesis using t by (simp add: ClientExit_def Let_def)
  next
    case (Some u)
    note name = cstr_name [OF w Some]
    have wrap: "post (sbind c (\<lambda>s. Inr (s\<lparr>userMap := am_erase k (userMap s)\<rparr>))) (talks s)"
      if "post c (talks s)" for c
      unfolding post_sbind using that by (rule post_mono) (auto elim: talks_same_net)
    show ?thesis
      using Some t name unfolding ClientExit_def Let_def
      by (auto intro!: post_bindI [where m = "cstr (userId u)"] wrap exit_room_talks [OF t(1) n])
  qed
qed

lemma BanUser_talks:
  assumes s: "world_ok s"
  shows "post (BanUser env nick s) (talks s)"
proof (cases "List.find (\<lambda>(k, u). uname u = nick) (userMap s)")
  case None
  then show ?thesis
    using quiet_talks [of s s] by (simp add: BanUser_def world_find_user [OF s])
next
  case (Some p)
  obtain k u where p: "p = (k, u)" by (cases p)
  have k: "map_of (userMap s) k = Some u"
    using find_SomeD(1) [OF world_okD(1) [OF s] Some [unfolded p]] .
  have t: "talks s (s\<lparr>idSet := i\<rparr>)" for i by (intro quiet_talks) simp
  have n: "net_ok (net_of (s\<lparr>idSet := i\<rparr>))" for i using world_okD(7) [OF s] by simp
  have wrap: "post (sbind c (\<lambda>s. Inr (InsertSendQueue SEND_ME m_banned '''' k STATUS_LOGOUT s
      \<lparr>userMap := am_erase k (userMap s)\<rparr>))) (talks s)"
    if "post c (talks s)" for c
    unfolding post_sbind using that
    by (rule post_mono) (auto elim!: talks_same_net simp: InsertSendQueue_def)
  show ?thesis
    using Some p cstr_name [OF s k] unfolding BanUser_def world_find_user [OF s] Let_def
    by (auto intro!: post_bindI [where m = "cstr (userId u)"] wrap exit_room_talks [OF t n])
qed

lemma callFuncPointer_talks:
  assumes "world_ok s"
  shows "post (callFuncPointer env k st d m s) (talks s)"
  using StatusChat_talks [OF assms] StatusWait_quiet [of env k STATUS_WAITING d m s]
    StatusLogout_quiet [of env k d m s]
  by (cases st) (auto simp: callFuncPointer_def intro: quiet_talks elim!: post_mono)

section \<open>Every step\<close>

text \<open>One step of the abstract view: a client's move, or a client that is gone.\<close>

definition chat_step :: "chat \<Rightarrow> chat \<Rightarrow> bool" where
  "chat_step c c' \<longleftrightarrow> (\<exists>k. chat_move k c c') \<or> (\<exists>k. c' = c(k := None))"

definition sent_ok :: "char list \<Rightarrow> bool" where
  "sent_ok bs \<longleftrightarrow> bs = greeting \<or> notice bs"

definition server_ok :: "'db process \<Rightarrow> bool" where
  "server_ok p \<longleftrightarrow>
     world_ok (srv p) \<and> sendJobs p = [] \<and>
     (\<forall>q\<in>set (sends (wire (net_of (srv p)))). sent_ok (snd q))"

definition step_good :: "'db process \<Rightarrow> 'db process \<Rightarrow> bool" where
  "step_good p p' \<longleftrightarrow>
     server_ok p' \<and> chat_step (chat_of (srv p)) (chat_of (srv p')) \<and>
     (\<exists>ds. sendQueue (srv p') = sendQueue (srv p) @ ds)"

lemma chat_step_refl [simp]: "chat_step c c"
  by (auto simp: chat_step_def intro: chat_move.stay)

text \<open>A step that talks like a handler is good as soon as the state is.\<close>

lemma step_goodI:
  assumes "server_ok p" and "talks (srv p) (srv p')" and "world_ok (srv p')"
    and "chat_step (chat_of (srv p)) (chat_of (srv p'))" and "sendJobs p' = sendJobs p"
  shows "step_good p p'"
proof -
  obtain ks where ks: "sends (wire (net_of (srv p'))) = sends (wire (net_of (srv p))) @ ks"
      "\<forall>q\<in>set ks. notice (snd q)"
    using assms(2) by (auto simp: talks_def)
  have "\<forall>q\<in>set (sends (wire (net_of (srv p')))). sent_ok (snd q)"
    unfolding ks(1) set_append ball_Un using assms(1) ks(2)
    by (simp add: server_ok_def sent_ok_def)
  with assms show ?thesis by (simp add: step_good_def server_ok_def talks_def)
qed

lemma step_good_same_net:
  assumes "server_ok p" and "world_ok (srv p')" and "chat_of (srv p') = chat_of (srv p)"
    and "sends (wire (net_of (srv p'))) = sends (wire (net_of (srv p)))"
    and "sendQueue (srv p') = sendQueue (srv p)" and "sendJobs p' = sendJobs p"
  shows "step_good p p'"
  using assms by (simp add: step_good_def server_ok_def)

lemma kernel_fill_ok:
  assumes o: "owns n R S L" and i: "i \<in> R \<union> dom S" and bs: "length bs \<le> BUF_SIZE"
  obtains n' where "kernel_fill i bs n = Inr n'" "owns n' R S L" "wire n' = wire n"
    "i \<in> R \<longrightarrow> take (length bs) (buffer (mp_mem (ioPool n') i)) = bs"
proof (cases "i \<in> R")
  case True
  obtain n' where "kernel_fill i bs n = Inr n'" "owns n' R S L"
      "take (length bs) (buffer (mp_mem (ioPool n') i)) = bs" "wire n' = wire n"
    by (rule kernel_fill_recv [OF o True bs])
  then show thesis using that by blast
next
  case False
  then obtain a where "S i = Some a" using i by auto
  then have "wsaBuf_buf (mp_mem (ioPool n) i) = PoolBuf a" using o by (simp add: owns_def)
  moreover have "mp_get (ioPool n) i = Inr (mp_mem (ioPool n) i)"
    using o i by (intro ok_mp_get [where out = "R \<union> dom S"]) (simp_all add: owns_def net_inv_def)
  ultimately have "kernel_fill i bs n = Inr n" by (simp add: kernel_fill_def)
  then show thesis using that o False by blast
qed

lemma gone_ok:
  assumes p: "server_ok p" and i: "i \<in> pending (net_of (srv p))"
    and f: "\<not> success \<or> n = 0"
  shows "ok (RecvThread env success n k i closed p) (step_good p)"
proof -
  have w: "world_ok (srv p)" using p by (simp add: server_ok_def)
  obtain s where s: "ClientExit env closed k (srv p) = Inr s" "world_ok s"
      "chat_of s = (if closed then (chat_of (srv p))(k := None) else chat_of (srv p))"
    using ClientExit_ok [OF w, of env closed k] by (auto simp: ok_iff)
  have t: "talks (srv p) s" using ClientExit_talks [OF w, of env closed k] s(1) by simp
  then have "i \<in> pending (net_of s)" using i by (auto simp: talks_def)
  then obtain n' where n': "give_back i (net_of s) = Inr n'" "net_ok n'"
      "sends (wire n') = sends (wire (net_of s))"
    by (rule give_back_ok [OF world_okD(7) [OF s(2)]])
  have "chat_step (chat_of (srv p)) (chat_of s)"
    using s(3) by (cases closed) (simp_all, auto simp: chat_step_def)
  then have "step_good p (p\<lparr>srv := s\<rparr>)" using p t s(2) by (intro step_goodI) simp_all
  then have "step_good p (p\<lparr>srv := s\<lparr>net_of := n'\<rparr>\<rparr>)"
    using n' by (simp add: step_good_def server_ok_def world_ok_net)
  then show ?thesis using f s(1) n'(1) by (simp add: RecvThread_def)
qed

lemma completion_ok:
  assumes p: "server_ok p" and e: "event_ok (Completion success k i bs closed) p"
  shows "ok (do_event env (Completion success k i bs closed) p) (step_good p)"
proof -
  let ?n = "net_of (srv p)"
  have w: "world_ok (srv p)" using p by (simp add: server_ok_def)
  obtain R S L where o: "owns ?n R S L" using world_okD(7) [OF w] by (auto simp: net_ok_def)
  have i: "i \<in> R \<union> dom S" and bs: "length bs \<le> BUF_SIZE"
    using e o by (simp_all add: event_ok_def owns_def)
  obtain n where n: "kernel_fill i bs ?n = Inr n" "owns n R S L" "wire n = wire ?n"
      "i \<in> R \<longrightarrow> take (length bs) (buffer (mp_mem (ioPool n) i)) = bs"
    by (rule kernel_fill_ok [OF o i bs])
  let ?p = "p\<lparr>srv := (srv p)\<lparr>net_of := n\<rparr>\<rparr>"
  have nok: "net_ok n" using n(2) by (auto simp: net_ok_def)
  have p': "server_ok ?p" using p n(3) world_ok_net [OF w nok] by (simp add: server_ok_def)
  have same: "step_good p q" if "step_good ?p q" for q
    using that by (simp add: step_good_def)
  have get: "mp_get (ioPool n) i = Inr (mp_mem (ioPool n) i)"
    using n(2) i by (intro ok_mp_get [where out = "R \<union> dom S"]) (simp_all add: owns_def net_inv_def)
  have good: "step_good ?p (?p\<lparr>srv := (srv ?p)\<lparr>net_of := n'\<rparr>, packetCnt := c, jobQueue := q\<rparr>)"
    if "net_ok n'" "sends (wire n') = sends (wire n)" for n' c q
    using that p' world_ok_net [of "srv p"] w by (intro step_good_same_net) simp_all
  have "ok (RecvThread env success (length bs) k i closed ?p) (step_good ?p)"
  proof (cases "\<not> success \<or> length bs = 0")
    case True
    have "i \<in> pending n" using n(2) i by (simp add: owns_def)
    then show ?thesis using p' True by (intro gone_ok) simp_all
  next
    case False
    show ?thesis
    proof (cases "i \<in> R")
      case True
      have modes: "serverMode (mp_mem (ioPool n) i) = OP_RECV"
        "serverMode (mp_mem (ioPool ?n) i) = OP_RECV" using n(2) o True by (auto simp: owns_def)
      then obtain ms where ms: "bs = concat (map packet_of ms)" "\<forall>m\<in>set ms. sendable m"
        using e by (auto simp: event_ok_def load_ok_def)
      then have "ms \<noteq> []" using False by auto
      then obtain n' where n': "recv_completed k i (length bs) ?p =
          Inr (?p\<lparr>srv := (srv ?p)\<lparr>net_of := n'\<rparr>,
                 packetCnt := int32_of (packetCnt ?p + int (length ms)),
                 jobQueue := jobQueue ?p @ map (job_of k) ms\<rparr>)"
          "net_ok n'" "sends (wire n') = sends (wire (net_of (srv ?p)))"
        using recv_completed_ok [of ?p R S L i ms "length bs" k] n(2,4) True ms bs by auto
      then show ?thesis using False get modes good by (simp add: RecvThread_def)
    next
      case False2: False
      then obtain a where a: "S i = Some a" using i by auto
      then have mode: "serverMode (mp_mem (ioPool n) i) = OP_SEND" using n(2) by (simp add: owns_def)
      obtain n' where n': "send_completed i n = Inr n'" "owns n' R (S(i := None)) L"
          "sends (wire n') = sends (wire n)"
        by (rule send_completed_ok [OF n(2) a])
      have "net_ok n'" using n'(2) by (auto simp: net_ok_def)
      then have "step_good ?p (?p\<lparr>srv := (srv ?p)\<lparr>net_of := n'\<rparr>\<rparr>)"
        using good [of n' "jobQueue p" "packetCnt p"] n'(3) by simp
      then show ?thesis using False get mode n'(1) by (simp add: RecvThread_def op_defs)
    qed
  qed
  then show ?thesis using n(1) same by (auto simp: do_event_def elim: ok_mono)
qed

lemma work_job_ok:
  assumes sql: "sql_ok env" and p: "server_ok p" and j: "job_ok j p"
  shows "safe (work_job env j p) (step_good p)"
proof -
  let ?k = "job_socket j" and ?s = "srv p"
  have w: "world_ok ?s" using p by (simp add: server_ok_def)
  consider "IsSocketDead ?k ?s" | "\<not> IsSocketDead ?k ?s" "job_direction j = CALLCOUNT"
    | "\<not> IsSocketDead ?k ?s" "job_direction j = BAN"
    | "\<not> IsSocketDead ?k ?s" "job_direction j \<noteq> CALLCOUNT" "job_direction j \<noteq> BAN" by blast
  then show ?thesis
  proof cases
    case 1
    have "step_good p p" using p w by (intro step_good_same_net) simp_all
    with 1 show ?thesis by (simp add: work_job_def)
  next
    case 2
    then have "length (count_text (packetCnt p) (length (userMap ?s))) < 30"
      using j by (simp add: job_ok_def)
    moreover have "step_good p (p\<lparr>packetCnt := 0, srv := InsertSendQueue SEND_ME
        (count_text (packetCnt p) (length (userMap ?s))) '''' ?k STATUS_INIT ?s\<rparr>)"
      using p w by (intro step_goodI) (simp_all add: quiet_talks)
    ultimately show ?thesis using 2 by (simp add: work_job_def CallCnt_def Let_def)
  next
    case 3
    let ?c = "BanUser env (substr (job_nowStatus j) (job_msg j)) ?s"
    have "ok ?c (\<lambda>s'. step_good p (p\<lparr>srv := s'\<rparr>))"
    proof (rule ok_mono [OF ok_post [OF BanUser_ok [OF w] BanUser_talks [OF w]]])
      fix s'
      assume a: "(world_ok s' \<and> liveSocket s' = liveSocket ?s \<and> chat_of s' =
          (case List.find (\<lambda>(k, u). uname u = substr (job_nowStatus j) (job_msg j)) (userMap ?s) of
             None \<Rightarrow> chat_of ?s | Some (k, u) \<Rightarrow> (chat_of ?s)(k := None))) \<and> talks ?s s'"
      then have "chat_step (chat_of ?s) (chat_of s')"
        by (auto simp: chat_step_def intro: chat_move.stay split: option.splits)
      with a p show "step_good p (p\<lparr>srv := s'\<rparr>)" by (intro step_goodI) simp_all
    qed
    with 3 show ?thesis by (auto simp: work_job_def intro: ok_safe)
  next
    case 4
    let ?c = "callFuncPointer env ?k (GetStatus ?k ?s) (job_direction j) (job_msg j) ?s"
    have "request_ok (GetStatus ?k ?s) (job_direction j) (job_msg j)" "map_of (liveSocket ?s) ?k \<noteq> None"
      using 4 j by (auto simp: job_ok_def IsSocketDead_def)
    then have "safe ?c (moves ?k ?s)" using callFuncPointer_moves [OF sql w] by blast
    then have "safe ?c (\<lambda>s'. moves ?k ?s s' \<and> talks ?s s')"
      using callFuncPointer_talks [OF w] by (rule safe_post)
    then have "safe ?c (\<lambda>s'. step_good p (p\<lparr>srv := s'\<rparr>))"
      using p by (elim safe_mono, intro step_goodI) (auto simp: moves_def chat_step_def)
    with 4 show ?thesis by (simp add: work_job_def)
  qed
qed

theorem do_event_ok:
  assumes sql: "sql_ok env" and p: "server_ok p" and e: "event_ok e p"
  shows "safe (do_event env e p) (step_good p)"
proof (cases e)
  case (Accept k ip)
  have w: "world_ok (srv p)" using p by (simp add: server_ok_def)
  obtain p' where "main_accept env k ip p = Inr p'" "world_ok (srv p')"
      "chat_of (srv p') = chat_of (srv p)" "sendJobs p' = sendJobs p"
      "sendQueue (srv p') = sendQueue (srv p)"
      "sends (wire (net_of (srv p'))) = sends (wire (net_of (srv p))) @ [(k, greeting)]"
    using accept_ok [OF w, of env k ip] unfolding greeting_def by blast
  with p Accept show ?thesis
    by (simp add: do_event_def step_good_def server_ok_def sent_ok_def)
next
  case (Completion success k i bs closed)
  then show ?thesis using completion_ok [OF p] e by (auto intro: ok_safe)
next
  case (Swap w)
  have "step_good p (p\<lparr>jobQueue := [], localQueue := (localQueue p)(w := jobQueue p)\<rparr>)"
    using p by (simp add: step_good_def server_ok_def)
  with e Swap show ?thesis by (simp add: do_event_def event_ok_def WorkThread_swap_def)
next
  case (Job w)
  obtain j js where q: "localQueue p w = j # js"
    using e Job by (cases "localQueue p w") (auto simp: event_ok_def)
  let ?p = "p\<lparr>localQueue := (localQueue p)(w := js)\<rparr>"
  have "job_ok j ?p" using e Job q by (auto simp: event_ok_def job_ok_def split: if_splits)
  moreover have "server_ok ?p" using p by (simp add: server_ok_def)
  ultimately have "safe (work_job env j ?p) (step_good ?p)" using work_job_ok [OF sql] by blast
  then show ?thesis
    using Job q by (auto simp: do_event_def WorkThread_job_def ConcurrentQueue_top_def step_good_def
        elim: safe_mono)
next
  case Send
  then show ?thesis using e p by (simp add: event_ok_def server_ok_def)
qed

lemma start_ok:
  assumes "0 < brk" and "\<forall>a. length (buffer (ios a)) = BUF_SIZE"
  shows "server_ok (start (start_net mem ios brk) u db)"
proof -
  have "io_typed (MPool_new ios brk)"
    using assms(2) by (simp add: io_typed_def MPool_new_def MPool_grow_def zero_io_def)
  then have "owns (start_net mem ios brk) {} Map.empty {}"
    using CharPool_new_inv [OF assms(1), of mem] MPool_new_inv [OF assms(1), of ios]
    by (simp add: owns_def start_net_def net_inv_def pending_def)
  then have "net_ok (start_net mem ios brk)" by (auto simp: net_ok_def)
  then show ?thesis
    by (simp add: server_ok_def start_def world_ok_def sessions_ok_def maps_ok_def um_wf_def sm_wf_def
        users_ok_def ids_ok_def rooms_ok_def members_def start_net_def)
qed

lemma reachable_ok:
  assumes "reachable env p0 event_ok p" and "sql_ok env" and "server_ok p0"
  shows "server_ok p"
  using assms
proof induction
  case (step p e p')
  have "safe (do_event env e p) (step_good p)"
    using step.prems step.IH step.hyps(2) by (intro do_event_ok) simp_all
  with step.hyps(3) show ?case by (simp add: step_good_def)
qed simp

end
