(* ===== verification/Demo.thy ===== *)
theory Demo
  imports Reach
begin

text \<open>
  A concrete configuration and a concrete state, on which the properties with hypotheses are applied:
  a database that logs its statements and has an account for every id but \<open>new\<close>, a server with Ann in
  the waiting room, Bob alone in the room \<open>den\<close>, and a third client connected but not logged in.
\<close>

section \<open>Database and environment\<close>

definition demo_row :: "nat \<Rightarrow> string" where
  "demo_row c = (if c = 1 then ''pw'' else ''Bob'')"

definition demo_exec :: "stmt list \<Rightarrow> stmt \<Rightarrow> stmt list \<times> int \<times> (nat \<Rightarrow> fetch)" where
  "demo_exec db st =
     (db @ [st], 1, \<lambda>i. if i = 0 \<and> params st \<noteq> [SqlText ''new''] then ROW demo_row else NO_DATA)"

definition demo_cfg :: "stmt list cfg" where
  "demo_cfg =
     \<lparr>exec = demo_exec, junk = map (\<lambda>n. replicate n NUL),
      can_create = (\<lambda>_. True), can_connect = (\<lambda>_. True), ord = (\<lambda>m. m), past = (\<lambda>_. NUL)\<rparr>"

lemma demo_cfg_simps [simp]:
  "exec demo_cfg = demo_exec" "can_create demo_cfg = (\<lambda>_. True)" "can_connect demo_cfg = (\<lambda>_. True)"
  by (simp_all add: demo_cfg_def)

lemma demo_sql_ok: "sql_ok demo_cfg"
  unfolding sql_ok_def rows_ok_def by (auto simp: demo_exec_def)

section \<open>Sessions\<close>

definition demo_user :: "string \<Rightarrow> string \<Rightarrow> string \<Rightarrow> ClientStatus \<Rightarrow> PER_HANDLE_DATA" where
  "demo_user name room ident st =
     \<lparr>userName = strncpy NAME_SIZE name, roomName = strncpy NAME_SIZE room,
      userId = strncpy NAME_SIZE ident, status = st\<rparr>"

definition demo_net :: net where
  "demo_net = start_net (\<lambda>_. NUL) (\<lambda>_. zero_io) 1"

definition demo_world :: "stmt list server" where
  "demo_world =
     \<lparr>net_of = demo_net, idSet = {''ann'', ''bob''},
      userMap = [(5, demo_user ''Ann'' '''' ''ann'' STATUS_WAITING),
                 (6, demo_user ''Bob'' ''den'' ''bob'' STATUS_CHATTIG)],
      roomMap = [(''den'', \<lparr>userList = [6]\<rparr>)], sendQueue = [], sendStop = False,
      liveSocket = [(5, ''10.0.0.5''), (6, ''10.0.0.6''), (7, ''10.0.0.7'')],
      udp_of = \<lparr>udp_in = [], udp_out = [], disk = []\<rparr>, database = []\<rparr>"

lemma demo_user_names:
  assumes "nul_free name" "nul_free room" "nul_free ident"
    and "length name < NAME_SIZE" "length room < NAME_SIZE" "length ident < NAME_SIZE"
  shows "uname (demo_user name room ident st) = name" "rname (demo_user name room ident st) = room"
    "uid (demo_user name room ident st) = ident"
    "user_ok (demo_user name room ident st) \<longleftrightarrow> st = STATUS_CHATTIG \<or> st = STATUS_WAITING \<and> room = ''''"
  using assms by (auto simp: demo_user_def upto_nul_strncpy user_ok_def NUL_in_strncpy)

abbreviation "Ann \<equiv> demo_user ''Ann'' '''' ''ann'' STATUS_WAITING"
abbreviation "Bob \<equiv> demo_user ''Bob'' ''den'' ''bob'' STATUS_CHATTIG"

lemma Ann_simps [simp]:
  "uname Ann = ''Ann''" "rname Ann = ''''" "uid Ann = ''ann''" "user_ok Ann" "status Ann = STATUS_WAITING"
  "room_of Ann = None"
  by (simp_all add: demo_user_names nul_free_def NAME_SIZE_def room_of_def)
     (simp_all add: demo_user_def)

lemma Bob_simps [simp]:
  "uname Bob = ''Bob''" "rname Bob = ''den''" "uid Bob = ''bob''" "user_ok Bob" "status Bob = STATUS_CHATTIG"
  "room_of Bob = Some ''den''"
  by (simp_all add: demo_user_names nul_free_def NAME_SIZE_def room_of_def)
     (simp_all add: demo_user_def)

lemma demo_world_simps [simp]:
  "net_of demo_world = demo_net" "idSet demo_world = {''ann'', ''bob''}"
  "userMap demo_world = [(5, Ann), (6, Bob)]" "roomMap demo_world = [(''den'', \<lparr>userList = [6]\<rparr>)]"
  "sendQueue demo_world = []" "sendStop demo_world = False" "database demo_world = []"
  "liveSocket demo_world = [(5, ''10.0.0.5''), (6, ''10.0.0.6''), (7, ''10.0.0.7'')]"
  "udp_of demo_world = \<lparr>udp_in = [], udp_out = [], disk = []\<rparr>"
  by (simp_all add: demo_world_def)

lemma demo_net_ok: "net_ok demo_net"
  using start_ok [of 1 "\<lambda>_. zero_io" "\<lambda>_. NUL" undefined "[] :: stmt list"]
  by (simp add: server_ok_def world_ok_def start_def demo_net_def zero_io_def)

lemma demo_world_ok: "world_ok demo_world"
proof -
  have "maps_ok demo_world" by (simp add: maps_ok_def um_wf_def sm_wf_def)
  moreover have "users_ok (map_of (userMap demo_world)) (map_of (liveSocket demo_world))"
    by (auto simp: users_ok_def split: if_splits)
  moreover have "ids_ok (map_of (userMap demo_world)) (idSet demo_world)"
  proof -
    have "ran [6 :: SOCKET \<mapsto> Bob, 5 \<mapsto> Ann] = {Bob, Ann}" by auto
    then have "ran (map_of (userMap demo_world)) = {Ann, Bob}" by (simp add: insert_commute)
    then show ?thesis unfolding ids_ok_def by (auto split: if_splits)
  qed
  moreover have "rooms_ok (map_of (userMap demo_world)) (map_of (roomMap demo_world))"
    by (auto simp: rooms_ok_def members_def split: if_splits option.splits)
  ultimately show ?thesis by (simp add: world_ok_def sessions_ok_def demo_net_ok)
qed

lemma demo_chat: "chat_of demo_world = [5 \<mapsto> (''ann'', ''Ann'', None), 6 \<mapsto> (''bob'', ''Bob'', Some ''den'')]"
  by (auto simp: chat_of_def fun_eq_iff)

section \<open>Processes\<close>

definition demo_process :: "stmt list server \<Rightarrow> stmt list process" where
  "demo_process s =
     \<lparr>srv = s, jobQueue = [], packetCnt = 0, sendJobs = [], localQueue = (\<lambda>_. [])\<rparr>"

definition demo_start :: "stmt list process" where
  "demo_start = start demo_net \<lparr>udp_in = [], udp_out = [], disk = []\<rparr> []"

lemma demo_start_ok: "server_ok demo_start"
  unfolding demo_start_def demo_net_def by (intro start_ok) (simp_all add: zero_io_def)

lemma demo_process_ok: "server_ok (demo_process demo_world)"
  by (simp add: server_ok_def demo_process_def demo_world_ok)
     (simp add: demo_net_def start_net_def)

end
