(* ===== verification/Accounts.thy ===== *)
theory Accounts
  imports Demo
begin

text \<open>
  Making accounts and logging in: what \<open>UserMake\<close> and \<open>UserEnter\<close> answer and change, for each answer the
  database can give, and what follows from the sizes of the id and password fields.
\<close>

section \<open>Logging in\<close>

text \<open>The database's answer to \<open>selectUser\<close>, as one row: password and nickname as they are fetched.\<close>

definition account_answer :: "'db cfg \<Rightarrow> 'db \<Rightarrow> string \<Rightarrow> string \<Rightarrow> string \<Rightarrow> bool" where
  "account_answer env db ident pw nick \<longleftrightarrow>
     (\<exists>db' res f r. SQLExecute env db q_selectUser [SqlText (take 10 ident)] [10, 10, 20] =
        (db', res, f) \<and> f 0 = ROW r \<and> column 10 (r 1) = pw \<and> column 20 (r 2) = nick)"

lemma selectUser_answer:
  assumes "account_answer env db a pw nick" and "nul_free a"
  obtains vo db' where "selectUser env (setUserId a UserVo_new) db = Inr (vo, db')"
    "getUserId (UserVo_copy vo) = Inr (take 10 a)" "getPassword (UserVo_copy vo) = Inr pw"
    "getNickName (UserVo_copy vo) = Inr nick"
    "db' = fst (SQLExecute env db q_selectUser [SqlText (take 10 a)] [10, 10, 20])"
proof -
  obtain db' res f r where q: "SQLExecute env db q_selectUser [SqlText (take 10 a)] [10, 10, 20] = (db', res, f)"
      "f 0 = ROW r" "column 10 (r 1) = pw" "column 20 (r 2) = nick"
    using assms(1) by (auto simp: account_answer_def)
  have u: "getUserId (setUserId a UserVo_new) = Inr (take 10 a)"
    using assms(2) by (simp add: vo_defs cstr_strncpy_into)
  have "nul_free pw" "length pw < 10" "nul_free nick" "length nick < 20"
    using q(3,4) column_props(1,2) by (metis zero_less_numeral)+
  note row = UserVo_row [OF refl assms(2) this]
  have "selectUser env (setUserId a UserVo_new) db =
      Inr (setNickName nick (setPassword pw (setUserId a UserVo_new)), db')"
    using u q by (simp add: selectUser_def)
  with row that q(1) show thesis by (metis fst_conv)
qed

lemma account_answer_props:
  assumes "account_answer env db a pw nick"
  shows "nul_free nick" "length nick < NAME_SIZE"
proof -
  obtain s where "nick = column 20 s" using assms by (auto simp: account_answer_def)
  then show "nul_free nick" "length nick < NAME_SIZE"
    using column_props(1) [of 20 s] column_props(2) [of 20 s] by (simp_all add: NAME_SIZE_def)
qed

lemma InitUser_chat:
  assumes s: "world_ok s" and a: "nul_free a" "length a < NAME_SIZE"
    and n: "nul_free nick" "length nick < NAME_SIZE"
    and run: "InitUser env a k nick (s\<lparr>idSet := i\<rparr>) = Inr s'"
  shows "chat_of s' = (chat_of s)(k \<mapsto> (a, nick, None))"
proof -
  let ?u = "\<lparr>userName = strncpy NAME_SIZE nick, roomName = strncpy NAME_SIZE '''',
      userId = strncpy NAME_SIZE a, status = STATUS_WAITING\<rparr>"
  have "userMap s' = um_put (ord env) k ?u (userMap s)"
    using run by (auto simp: InitUser_def sbind_Inr_iff Let_def)
  then have "map_of (userMap s') = (map_of (userMap s))(k := Some ?u)"
    using world_okD(1) [OF s] by (simp add: map_of_um_put)
  from chat_of_upd [OF this] show ?thesis
    using a n by (simp add: upto_nul_strncpy room_of_def)
qed

text \<open>The three outcomes of a login for an account that exists.\<close>

lemma UserEnter_answer:
  assumes s: "world_ok s" and k: "map_of (userMap s) k = None" "map_of (liveSocket s) k \<noteq> None"
    and m: "nul_free message" "length message < BUF_SIZE" "pieces (CHR 0x5C) message = [a, b]"
      "length a < NAME_SIZE"
    and ans: "account_answer env (database s) a pw nick"
  shows "ok (UserEnter env k message s) (\<lambda>s'.
    if b \<noteq> pw then
      chat_of s' = chat_of s \<and> sd_msg (last (sendQueue s')) = m_badPassword @ loginBeforeMessage
    else if a \<in> idSet s then
      chat_of s' = chat_of s \<and> sd_msg (last (sendQueue s')) = m_doubleLogin @ loginBeforeMessage
    else
      chat_of s' = (chat_of s)(k \<mapsto> (a, nick, None)) \<and>
      sd_msg (last (sendQueue s')) = nick @ m_entered @ waitRoomMessage)"
proof -
  have t: "tokens 2 message = Inr [a, b]" using tokens_pieces [OF m(1,2)] m(3) by simp
  have a: "nul_free a" "a \<noteq> ''''"
    using pieces_nul_free [OF m(1), of a "CHR 0x5C"] pieces_nonempty [of a "CHR 0x5C" message] m(3) by simp_all
  obtain vo db' where vo: "selectUser env (setUserId a UserVo_new) (database s) = Inr (vo, db')"
      "getUserId (UserVo_copy vo) = Inr (take 10 a)" "getPassword (UserVo_copy vo) = Inr pw"
      "getNickName (UserVo_copy vo) = Inr nick"
    by (rule selectUser_answer [OF ans a(1)])
  note n = account_answer_props [OF ans]
  let ?s = "s\<lparr>database := db'\<rparr>"
  have init: "ok (InitUser env a k nick (?s\<lparr>idSet := insert a (idSet s)\<rparr>))
      (\<lambda>s'. chat_of s' = (chat_of s)(k \<mapsto> (a, nick, None)) \<and>
        sd_msg (last (sendQueue s')) = nick @ m_entered @ waitRoomMessage)" if new: "a \<notin> idSet s"
  proof -
    have w: "world_ok ?s" using s by simp
    obtain s' where r: "InitUser env a k nick (?s\<lparr>idSet := insert a (idSet s)\<rparr>) = Inr s'"
      using InitUser_moves [OF w _ _ a(1) m(4) _ n, of k env] k new by (auto simp: ok_iff)
    have "sd_msg (last (sendQueue s')) = nick @ m_entered @ waitRoomMessage"
      using r by (auto simp: InitUser_def sbind_Inr_iff Let_def InsertSendQueue_def)
    with r InitUser_chat [OF w a(1) m(4) n r] show ?thesis by simp
  qed
  show ?thesis
  proof (cases "pw = b")
    case True
    with t vo a(2) init show ?thesis by (simp add: UserEnter_def Let_def sendQueue_me)
  next
    case False
    with t vo a(2) show ?thesis by (auto simp: UserEnter_def Let_def sendQueue_me)
  qed
qed

lemma selectUser_none:
  assumes "SQLExecute env db q_selectUser [SqlText (take 10 a)] [10, 10, 20] = (db', res, f)"
    and "f 0 = NO_DATA" and "nul_free a"
  shows "selectUser env (setUserId a UserVo_new) db = Inr (setUserId '''' (setUserId a UserVo_new), db')"
  using assms by (simp add: selectUser_def vo_defs cstr_strncpy_into)

text \<open>
  C20: A login request with an id and a password, on a connection that is not logged in. When the
  database has no row, or the password differs, or the id is in \<open>idSet\<close>, nothing changes and the
  queued reply says so; otherwise the connection gets a session in the waiting room under that id
  and the nickname of the row.
\<close>

theorem login_outcomes:
  assumes s: "world_ok s" and k: "map_of (userMap s) k = None" "map_of (liveSocket s) k \<noteq> None"
    and m: "nul_free message" "length message < BUF_SIZE" "pieces (CHR 0x5C) message = [a, b]"
      "length a < NAME_SIZE"
    and db: "SQLExecute env (database s) q_selectUser [SqlText (take 10 a)] [10, 10, 20] = (db', res, f)"
      "f 0 \<noteq> FETCH_ERR"
  shows "ok (UserEnter env k message s) (\<lambda>s'.
    case f 0 of
      ROW r \<Rightarrow>
        if b \<noteq> column 10 (r 1) then
          chat_of s' = chat_of s \<and> sd_msg (last (sendQueue s')) = m_badPassword @ loginBeforeMessage
        else if a \<in> idSet s then
          chat_of s' = chat_of s \<and> sd_msg (last (sendQueue s')) = m_doubleLogin @ loginBeforeMessage
        else
          chat_of s' = (chat_of s)(k \<mapsto> (a, column 20 (r 2), None)) \<and>
          sd_msg (last (sendQueue s')) = column 20 (r 2) @ m_entered @ waitRoomMessage
    | _ \<Rightarrow> chat_of s' = chat_of s \<and> sd_msg (last (sendQueue s')) = m_noAccount @ loginBeforeMessage)"
proof (cases "f 0")
  case NO_DATA
  have "nul_free a" using pieces_nul_free [OF m(1), of a "CHR 0x5C"] m(3) by simp
  then have sel: "selectUser env (setUserId a UserVo_new) (database s) =
      Inr (setUserId '''' (setUserId a UserVo_new), db')"
    by (rule selectUser_none [OF db(1) NO_DATA])
  have "tokens 2 message = Inr [a, b]" using tokens_pieces [OF m(1,2)] m(3) by simp
  with sel NO_DATA show ?thesis
    by (simp add: UserEnter_def UserVo_none(1) Let_def sendQueue_me)
next
  case (ROW r)
  then have "account_answer env (database s) a (column 10 (r 1)) (column 20 (r 2))"
    using db(1) by (auto simp: account_answer_def)
  from UserEnter_answer [OF s k m this] ROW show ?thesis by simp
qed (use db(2) in simp)

definition carl_enters :: string where "carl_enters = ''carl'' @ [CHR 0x5C] @ ''pw''"

lemma carl_enters_ok: "nul_free carl_enters" "length carl_enters < BUF_SIZE"
    "pieces (CHR 0x5C) carl_enters = [''carl'', ''pw'']"
  by (simp_all add: carl_enters_def nul_free_def BUF_SIZE_def pieces_def)

theorem login_outcomes_witness:
  "ok (UserEnter demo_cfg 7 carl_enters demo_world) (\<lambda>s'.
     chat_of s' = (chat_of demo_world)(7 \<mapsto> (''carl'', ''Bob'', None)) \<and>
     sd_msg (last (sendQueue s')) = ''Bob'' @ m_entered @ waitRoomMessage)"
proof -
  let ?st = "\<lparr>query = q_selectUser, params = [SqlText (take 10 ''carl'')], cols = [10, 10, 20]\<rparr>"
  let ?f = "\<lambda>i::nat. if i = 0 then ROW demo_row else NO_DATA"
  have q: "SQLExecute demo_cfg (database demo_world) q_selectUser [SqlText (take 10 ''carl'')]
      [10, 10, 20] = ([?st], 1, ?f)"
    by (simp add: SQLExecute_def demo_exec_def)
  have "column 10 (demo_row 1) = ''pw''" "column 20 (demo_row 2) = ''Bob''"
    by (simp_all add: column_def upto_nul_def demo_row_def)
  then show ?thesis
    using login_outcomes [OF demo_world_ok _ _ carl_enters_ok _ q] by (simp add: NAME_SIZE_def)
qed

section \<open>Making an account\<close>

lemma InsertUser_none:
  assumes "nul_free a" "nul_free b" "nul_free c" "length b < 10" "length c < NAME_SIZE"
  shows "InsertUser env (setNickName c (setPassword b (setUserId a
      (UserVo_copy (setUserId '''' (setUserId a UserVo_new)))))) db =
    Inr (fst (SQLExecute env db q_InsertUser [SqlText (take 10 a), SqlText b, SqlText c] []))"
proof -
  let ?vo = "UserVo_copy (setUserId '''' (setUserId a UserVo_new))"
  have "userId_v ?vo = strncpy 20 ''''" "length (nickName_v ?vo) = 20" "length (password_v ?vo) = 10"
    by (simp_all add: UserVo_copy_def Vo_copy_def vo_defs vo_simps)
  then show ?thesis
    using assms
    by (simp add: InsertUser_def vo_defs vo_simps cstr_strncpy cstr_strncpy_into NAME_SIZE_def
        split_beta Let_def)
qed

text \<open>
  A request for a new account with an id, a password and a nickname. When the database has
  no row for the first ten characters of the id, exactly one insert is executed, with that prefix,
  the password and the nickname; when it has one, nothing is inserted. No session changes.
\<close>

theorem register_outcomes:
  assumes m: "nul_free message" "length message < BUF_SIZE" "pieces (CHR 0x5C) message = [a, b, c]"
      "length b < 10" "length c < NAME_SIZE"
    and db: "SQLExecute env (database s) q_selectUser [SqlText (take 10 a)] [10, 10, 20] = (db', res, f)"
      "f 0 \<noteq> FETCH_ERR"
  shows "ok (UserMake env k message s) (\<lambda>s'. same_sessions s s' \<and>
    (if f 0 = NO_DATA then
       database s' = fst (SQLExecute env db' q_InsertUser
         [SqlText (take 10 a), SqlText b, SqlText c] []) \<and>
       sd_msg (last (sendQueue s')) = a @ m_made @ loginBeforeMessage
     else
       database s' = db' \<and> sd_msg (last (sendQueue s')) = m_idTaken @ loginBeforeMessage))"
proof -
  have t: "tokens 3 message = Inr [a, b, c]" using tokens_pieces [OF m(1,2)] m(3) by simp
  have nf: "nul_free a" "nul_free b" "nul_free c" and a: "a \<noteq> ''''"
    using pieces_nul_free [OF m(1), of _ "CHR 0x5C"] pieces_nonempty [of a "CHR 0x5C" message] m(3)
    by simp_all
  show ?thesis
  proof (cases "f 0")
    case NO_DATA
    then show ?thesis
      by (simp add: UserMake_def t selectUser_none [OF db(1) NO_DATA nf(1)] UserVo_none(1)
          InsertUser_none [OF nf m(4,5)] Let_def sendQueue_me)
  next
    case (ROW r)
    then have "account_answer env (database s) a (column 10 (r 1)) (column 20 (r 2))"
      using db(1) by (auto simp: account_answer_def)
    then obtain vo where "selectUser env (setUserId a UserVo_new) (database s) = Inr (vo, db')"
      "getUserId (UserVo_copy vo) = Inr (take 10 a)"
      using selectUser_answer [OF _ nf(1), of env "database s"] db(1) by (metis fst_conv)
    with ROW a show ?thesis by (simp add: UserMake_def t Let_def sendQueue_me)
  qed (use db(2) in simp)
qed

definition new_account :: string where
  "new_account = ''new'' @ [CHR 0x5C] @ ''pw'' @ [CHR 0x5C] @ ''Neu''"

theorem register_outcomes_witness:
  "ok (UserMake demo_cfg 7 new_account demo_world) (\<lambda>s'. same_sessions demo_world s' \<and>
     map params (database s') = [[SqlText ''new''], [SqlText ''new'', SqlText ''pw'', SqlText ''Neu'']])"
proof -
  let ?st = "\<lparr>query = q_selectUser, params = [SqlText (take 10 ''new'')], cols = [10, 10, 20]\<rparr>"
  have q: "SQLExecute demo_cfg (database demo_world) q_selectUser [SqlText (take 10 ''new'')]
      [10, 10, 20] = ([?st], 1, \<lambda>i. NO_DATA)"
    by (simp add: SQLExecute_def demo_exec_def)
  have "nul_free new_account" "length new_account < BUF_SIZE"
    "pieces (CHR 0x5C) new_account = [''new'', ''pw'', ''Neu'']"
    by (simp_all add: new_account_def nul_free_def BUF_SIZE_def pieces_def)
  then have "ok (UserMake demo_cfg 7 new_account demo_world) (\<lambda>s'. same_sessions demo_world s' \<and>
      database s' = fst (SQLExecute demo_cfg [?st] q_InsertUser
        [SqlText (take 10 ''new''), SqlText ''pw'', SqlText ''Neu''] []))"
    using register_outcomes [OF _ _ _ _ _ q, of new_account "''pw''" "''Neu''" 7]
    by (auto simp: NAME_SIZE_def elim: ok_mono)
  then show ?thesis by (auto simp: SQLExecute_def demo_exec_def elim!: ok_mono)
qed

section \<open>What the field sizes do\<close>

text \<open>
  A password of ten characters or more never logs anybody in: the stored one is read back
  into ten bytes with a terminator, and the comparison is with all of what the client sent.
\<close>

theorem long_password_refused:
  assumes sql: "sql_ok env"
    and m: "nul_free message" "length message < BUF_SIZE" "pieces (CHR 0x5C) message = [a, b]"
    and b: "10 \<le> length b"
  shows "ok (UserEnter env k message s) (\<lambda>s'. chat_of s' = chat_of s \<and> idSet s' = idSet s)"
proof -
  have t: "tokens 2 message = Inr [a, b]" using tokens_pieces [OF m(1,2)] m(3) by simp
  have a: "nul_free a" using pieces_nul_free [OF m(1), of a "CHR 0x5C"] m(3) by simp
  then have "NUL \<in> set (userId_v (setUserId a UserVo_new))" by (simp add: vo_defs vo_simps)
  note sel = selectUser_cases [OF sql this, of "database s"]
  show ?thesis
  proof (cases rule: sel)
    case 1
    then show ?thesis by (simp add: UserEnter_def t UserVo_none(1) Let_def)
  next
    case (2 db' pw nick)
    then have "pw \<noteq> b" using b by auto
    with 2 show ?thesis by (simp add: UserEnter_def t UserVo_row [OF refl a] Let_def)
  qed
qed

theorem long_password_refused_witness:
  "ok (UserEnter demo_cfg 7 (''carl'' @ [CHR 0x5C] @ ''0123456789'') demo_world)
     (\<lambda>s'. chat_of s' = chat_of demo_world \<and> idSet s' = idSet demo_world)"
  by (rule long_password_refused [where a = "''carl''" and b = "''0123456789''"])
     (simp_all add: demo_sql_ok nul_free_def BUF_SIZE_def pieces_def)

text \<open>Two ids that agree in their first ten characters are one account.\<close>

lemma InitUser_live: "post (InitUser env a k nick s) (\<lambda>s'. liveSocket s' = liveSocket s)"
  by (auto simp: InitUser_def Let_def intro!: post_bindI)

lemma InitUser_live_from: "liveSocket s1 = L \<Longrightarrow> post (InitUser env a k nick s1) (\<lambda>s'. liveSocket s' = L)"
  using InitUser_live [of env a k nick s1] by simp

lemma UserEnter_live: "post (UserEnter env k m s) (\<lambda>s'. liveSocket s' = liveSocket s)"
  by (auto simp: UserEnter_def Let_def intro!: post_bindI InitUser_live_from split: list.split)

lemma login_request:
  assumes "nul_free a" "nul_free b" "CHR 0x5C \<notin> set a" "CHR 0x5C \<notin> set b" "a \<noteq> ''''" "b \<noteq> ''''"
    and "length a < NAME_SIZE" "length b < 10"
  shows "pieces (CHR 0x5C) (a @ [CHR 0x5C] @ b) = [a, b]"
    "request_ok STATUS_LOGOUT USER_ENTER (a @ [CHR 0x5C] @ b)"
proof -
  have "split_on (CHR 0x5C) (a @ [CHR 0x5C] @ b) = [a, b]"
    using assms(3,4) by (simp add: split_on_free split_on_sep)
  with assms(5,6) show p: "pieces (CHR 0x5C) (a @ [CHR 0x5C] @ b) = [a, b]" by (simp add: pieces_def)
  show "request_ok STATUS_LOGOUT USER_ENTER (a @ [CHR 0x5C] @ b)"
    unfolding request_ok_def p using assms
    by (simp add: NAME_SIZE_def nul_free_def)
qed

lemma login_again:
  assumes sql: "sql_ok env" and s: "world_ok s"
    and k: "map_of (userMap s) k = None" "map_of (liveSocket s) k \<noteq> None" and new: "a \<notin> idSet s"
    and a: "nul_free a" "CHR 0x5C \<notin> set a" "a \<noteq> ''''" "length a < NAME_SIZE"
    and b: "nul_free b" "CHR 0x5C \<notin> set b" "b \<noteq> ''''" "length b < 10"
    and ans: "account_answer env (database s) a b nick"
  obtains s' where "UserEnter env k (a @ [CHR 0x5C] @ b) s = Inr s'" "world_ok s'"
    "chat_of s' = (chat_of s)(k \<mapsto> (a, nick, None))" "liveSocket s' = liveSocket s"
proof -
  let ?m = "a @ [CHR 0x5C] @ b"
  note req = login_request [OF a(1) b(1) a(2) b(2) a(3) b(3) a(4) b(4)]
  have m: "nul_free ?m" "length ?m < BUF_SIZE" using a b by (simp_all add: nul_free_def NAME_SIZE_def BUF_SIZE_def)
  obtain s' where s': "UserEnter env k ?m s = Inr s'" "world_ok s'"
    using UserEnter_moves [OF sql req(2) s k] unfolding ok_iff moves_def by blast
  moreover have "chat_of s' = (chat_of s)(k \<mapsto> (a, nick, None))"
    using UserEnter_answer [OF s k m req(1) a(4) ans] s'(1) new by simp
  moreover have "liveSocket s' = liveSocket s" using UserEnter_live [of env k ?m s] s'(1) by simp
  ultimately show thesis by (rule that)
qed

text \<open>
  The check for a double login compares whole ids, the database only their first ten
  characters: with two ids that agree in those, one account is logged in on two connections at once.
\<close>

theorem one_account_twice:
  assumes sql: "sql_ok env" and s: "world_ok s" and kk: "k1 \<noteq> k2"
    and k1: "map_of (userMap s) k1 = None" "map_of (liveSocket s) k1 \<noteq> None"
    and k2: "map_of (userMap s) k2 = None" "map_of (liveSocket s) k2 \<noteq> None"
    and ids: "a1 \<noteq> a2" "take 10 a1 = take 10 a2" "a1 \<notin> idSet s" "a2 \<notin> idSet s"
    and a1: "nul_free a1" "CHR 0x5C \<notin> set a1" "a1 \<noteq> ''''" "length a1 < NAME_SIZE"
    and a2: "nul_free a2" "CHR 0x5C \<notin> set a2" "a2 \<noteq> ''''" "length a2 < NAME_SIZE"
    and b: "nul_free b" "CHR 0x5C \<notin> set b" "b \<noteq> ''''" "length b < 10"
    and ans: "\<forall>db. account_answer env db a1 b nick"
  shows "ok (sbind (UserEnter env k1 (a1 @ [CHR 0x5C] @ b) s) (UserEnter env k2 (a2 @ [CHR 0x5C] @ b)))
    (\<lambda>s'. chat_of s' k1 = Some (a1, nick, None) \<and> chat_of s' k2 = Some (a2, nick, None))"
proof -
  obtain s1 where s1: "UserEnter env k1 (a1 @ [CHR 0x5C] @ b) s = Inr s1" "world_ok s1"
    "chat_of s1 = (chat_of s)(k1 \<mapsto> (a1, nick, None))" "liveSocket s1 = liveSocket s"
    using login_again [OF sql s k1 ids(3) a1 b] ans by blast
  have free: "a2 \<notin> idSet s1"
  proof
    assume "a2 \<in> idSet s1"
    then obtain k u where u: "map_of (userMap s1) k = Some u" "uid u = a2"
      using world_okD(5) [OF s1(2)] by (auto simp: ids_ok_def ran_def)
    have c: "chat_of s1 k = Some (a2, uname u, room_of u)" using chat_of_Some [OF u(1)] u(2) by simp
    then have "k \<noteq> k1" using s1(3) ids(1) by auto
    then have "chat_of s k = Some (a2, uname u, room_of u)" using c s1(3) by simp
    then obtain v where v: "map_of (userMap s) k = Some v" "uid v = a2" by (auto simp: chat_of_def)
    show False using world_user(3) [OF s v(1)] v(2) ids(4) by simp
  qed
  have "chat_of s1 k2 = None" using s1(3) kk k2(1) by simp
  then have k2': "map_of (userMap s1) k2 = None" "map_of (liveSocket s1) k2 \<noteq> None"
    using k2(2) s1(4) by simp_all
  have "account_answer env (database s1) a2 b nick" using ans ids(2) by (simp add: account_answer_def)
  then obtain s2 where "UserEnter env k2 (a2 @ [CHR 0x5C] @ b) s1 = Inr s2"
    "chat_of s2 = (chat_of s1)(k2 \<mapsto> (a2, nick, None))"
    using login_again [OF sql s1(2) k2' free a2 b] by blast
  then show ?thesis using s1(1,3) kk by simp
qed

text \<open>The same server with a fourth client, on socket 8.\<close>

definition demo_world4 :: "stmt list server" where
  "demo_world4 = InsertLiveSocket 8 ''10.0.0.8'' demo_world"

lemma demo_world4_simps:
  "userMap demo_world4 = userMap demo_world" "idSet demo_world4 = idSet demo_world"
  "map_of (liveSocket demo_world4) 7 \<noteq> None" "map_of (liveSocket demo_world4) 8 \<noteq> None"
  "world_ok demo_world4"
  using InsertLiveSocket_ok(1) [OF demo_world_ok, of 8 "''10.0.0.8''"]
  by (simp_all add: demo_world4_def InsertLiveSocket_def sm_insert_def)

theorem one_account_twice_witness:
  "ok (sbind (UserEnter demo_cfg 7 (''choiinsung1'' @ [CHR 0x5C] @ ''pw'') demo_world4)
         (UserEnter demo_cfg 8 (''choiinsung2'' @ [CHR 0x5C] @ ''pw'')))
    (\<lambda>s'. chat_of s' 7 = Some (''choiinsung1'', ''Bob'', None) \<and>
          chat_of s' 8 = Some (''choiinsung2'', ''Bob'', None))"
proof -
  have "column 10 (demo_row 1) = ''pw''" "column 20 (demo_row 2) = ''Bob''"
    by (simp_all add: column_def upto_nul_def demo_row_def)
  then have "\<forall>db. account_answer demo_cfg db ''choiinsung1'' ''pw'' ''Bob''"
    by (auto simp: account_answer_def SQLExecute_def demo_exec_def)
  then show ?thesis
    by (intro one_account_twice [OF demo_sql_ok demo_world4_simps(5)])
       (simp_all add: demo_world4_simps nul_free_def NAME_SIZE_def)
qed

end
