(* ===== verification/Rooms.thy ===== *)
theory Rooms
  imports Demo
begin

text \<open>
  Rooms and messages: making, entering and leaving a room, a chat line, a whisper, what the send worker
  makes of the queue, and what a packet for a room puts on the wire.
\<close>

section \<open>Making and entering\<close>

text \<open>
  C21: One client makes a room under a name nobody uses, another one enters it: the room lists
  them in that order, both are chatting there, and the queue holds the answer for the first and the
  announcement to the room.
\<close>

theorem make_then_enter:
  assumes s: "world_ok s" and kk: "k1 \<noteq> k2"
    and k1: "map_of (userMap s) k1 = Some u1" "status u1 = STATUS_WAITING"
    and k2: "map_of (userMap s) k2 = Some u2" "status u2 = STATUS_WAITING"
    and rn: "nul_free rn" "length rn < NAME_SIZE" "map_of (roomMap s) rn = None"
  shows "ok (sbind (RoomMake k1 rn s) (RoomEnter k2 rn)) (\<lambda>s'.
    world_ok s' \<and> map_of (roomMap s') rn = Some \<lparr>userList = [k1, k2]\<rparr> \<and>
    chat_of s' = (chat_of s)(k1 \<mapsto> (uid u1, uname u1, Some rn), k2 \<mapsto> (uid u2, uname u2, Some rn)) \<and>
    map (\<lambda>d. (sd_direction d, sd_mySocket d, sd_roomName d, sd_msg d)) (sendQueue s') =
      map (\<lambda>d. (sd_direction d, sd_mySocket d, sd_roomName d, sd_msg d)) (sendQueue s) @
      [(SEND_ME, Some k1, '''', rn @ m_roomMade @ chatRoomMessage),
       (SEND_ROOM, None, rn, uname u2 @ m_joined @ chatRoomMessage)])"
proof -
  define s1 where "s1 = InsertSendQueue SEND_ME (rn @ m_roomMade @ chatRoomMessage) '''' k1
      STATUS_CHATTIG (s\<lparr>userMap := am_modify k1 (join_room rn) (userMap s),
         roomMap := sm_put rn \<lparr>userList = [k1]\<rparr> (roomMap s)\<rparr>)"
  have 1: "RoomMake k1 rn s = Inr s1"
    using rn(3) k1(1) by (simp add: RoomMake_def session_names_ok [OF s k1(1)] upd_user_def
        join_room_def [abs_def] room_then_user s1_def)
  have w1: "world_ok s1" using RoomMake_moves [OF s k1 rn(1,2)] 1 by (simp add: moves_def)
  have u2: "map_of (userMap s1) k2 = Some u2" using k2(1) kk by (simp add: map_of_am_modify s1_def)
  let ?s2 = "InsertSendQueue SEND_ROOM (uname u2 @ m_joined @ chatRoomMessage) rn 0 STATUS_CHATTIG
      (s1\<lparr>userMap := am_modify k2 (join_room rn) (userMap s1),
          roomMap := am_modify rn (\<lambda>r. r\<lparr>userList := userList r @ [k2]\<rparr>) (roomMap s1)\<rparr>)"
  have r1: "map_of (roomMap s1) rn = Some \<lparr>userList = [k1]\<rparr>"
    using world_okD(2) [OF s] by (simp add: map_of_sm_put s1_def)
  have 2: "RoomEnter k2 rn s1 = Inr ?s2"
    using r1 u2 by (simp add: RoomEnter_def session_names_ok [OF w1 u2] upd_user_def
        join_room_def [abs_def])
  have "world_ok ?s2" using RoomEnter_moves [OF w1 u2 k2(2), of rn] 2 by (simp add: moves_def)
  moreover have "map_of (roomMap ?s2) rn = Some \<lparr>userList = [k1, k2]\<rparr>"
    using r1 by (simp add: map_of_am_modify)
  moreover have "chat_of ?s2 = (chat_of s)(k1 \<mapsto> (uid u1, uname u1, Some rn),
      k2 \<mapsto> (uid u2, uname u2, Some rn))"
    using k1(1) k2(1) kk join_room_ok [OF world_user(1) [OF s k1(1)] rn(1,2)]
      join_room_ok [OF world_user(1) [OF s k2(1)] rn(1,2)]
    by (auto simp: chat_of_def fun_eq_iff map_of_am_modify s1_def)
  moreover have "sendQueue ?s2 = sendQueue s @
      [\<lparr>sd_msg = rn @ m_roomMade @ chatRoomMessage, sd_mySocket = Some k1, sd_roomName = '''',
        sd_direction = SEND_ME, sd_status = STATUS_CHATTIG\<rparr>,
       \<lparr>sd_msg = uname u2 @ m_joined @ chatRoomMessage, sd_mySocket = None, sd_roomName = rn,
        sd_direction = SEND_ROOM, sd_status = STATUS_CHATTIG\<rparr>]"
    by (simp add: InsertSendQueue_def s1_def)
  ultimately show ?thesis unfolding 1 sbind.simps 2 ok.simps by simp
qed

text \<open>The server with Bob's room, and Carl waiting on socket 7.\<close>

definition demo_world_carl :: "stmt list server" where
  "demo_world_carl = demo_world\<lparr>idSet := insert ''carl'' (idSet demo_world),
     userMap := um_put (ord demo_cfg) 7 (demo_user ''Carl'' '''' ''carl'' STATUS_WAITING)
       (userMap demo_world)\<rparr>"

abbreviation "Carl \<equiv> demo_user ''Carl'' '''' ''carl'' STATUS_WAITING"

lemma Carl_simps [simp]:
  "uname Carl = ''Carl''" "rname Carl = ''''" "uid Carl = ''carl''" "user_ok Carl" "status Carl = STATUS_WAITING"
  by (simp_all add: demo_user_names nul_free_def NAME_SIZE_def) (simp add: demo_user_def)

lemma demo_world_carl_ok: "world_ok demo_world_carl"
  using moves_login [OF demo_world_ok, of 7 Carl "ord demo_cfg"]
  by (simp add: moves_def demo_world_carl_def)

lemma demo_world_carl_simps:
  "map_of (userMap demo_world_carl) 5 = Some Ann" "map_of (userMap demo_world_carl) 6 = Some Bob"
  "map_of (userMap demo_world_carl) 7 = Some Carl" "roomMap demo_world_carl = roomMap demo_world"
  "net_of demo_world_carl = demo_net"
  using map_of_um_put [OF world_okD(1) [OF demo_world_ok]] by (simp_all add: demo_world_carl_def)

theorem make_then_enter_witness:
  "ok (sbind (RoomMake 5 ''loft'' demo_world_carl) (RoomEnter 7 ''loft'')) (\<lambda>s'.
     map_of (roomMap s') ''loft'' = Some \<lparr>userList = [5, 7]\<rparr>)"
  by (rule ok_mono [OF make_then_enter [OF demo_world_carl_ok _ demo_world_carl_simps(1) _
        demo_world_carl_simps(3)]])
     (auto simp: demo_world_carl_simps nul_free_def NAME_SIZE_def)

text \<open>
  Making a room under a name in use and entering a room that does not exist queue a reply to
  the client and change nothing else.
\<close>

theorem room_refused:
  assumes s: "world_ok s" and k: "map_of (userMap s) k = Some u"
  shows "(if map_of (roomMap s) rn \<noteq> None then RoomMake k rn s else RoomEnter k rn s) =
    Inr (s\<lparr>sendQueue := sendQueue s @ [\<lparr>
      sd_msg = rn @ (if map_of (roomMap s) rn \<noteq> None then m_roomTaken else m_noRoom) @ waitRoomMessage,
      sd_mySocket = Some k, sd_roomName = '''', sd_direction = SEND_ME,
      sd_status = STATUS_WAITING\<rparr>]\<rparr>)"
  by (simp add: RoomMake_def RoomEnter_def session_names_ok [OF s k] InsertSendQueue_def)

theorem room_refused_witness:
  "RoomMake 5 ''den'' demo_world = Inr (demo_world\<lparr>sendQueue := [\<lparr>
      sd_msg = ''den'' @ m_roomTaken @ waitRoomMessage, sd_mySocket = Some 5, sd_roomName = '''',
      sd_direction = SEND_ME, sd_status = STATUS_WAITING\<rparr>]\<rparr>)"
  using room_refused [OF demo_world_ok, of 5 Ann "''den''"] by simp

section \<open>Leaving\<close>

text \<open>
  C22: The text \<open>\out\<close> takes a client out of its room: every member, the leaver included, is sent the
  notice at once and in list order; the room keeps the others in their order, and is gone when
  there are none; the client is back in the waiting room under its names.
\<close>

theorem room_out:
  assumes s: "world_ok s" and k: "map_of (userMap s) k = Some u" "status u = STATUS_CHATTIG"
    and r: "map_of (roomMap s) (rname u) = Some r"
  shows "ok (StatusChat env k direction s_out s) (\<lambda>s'.
    chat_of s' = (chat_of s)(k \<mapsto> (uid u, uname u, None)) \<and>
    sends (wire (net_of s')) = sends (wire (net_of s)) @
      map (\<lambda>m. (m, wire_packet (status_int STATUS_CHATTIG) 0 (uname u @ m_left))) (userList r) \<and>
    map_of (roomMap s') (rname u) =
      (if userList r = [k] then None else Some \<lparr>userList = removeAll k (userList r)\<rparr>) \<and>
    (\<exists>d. sendQueue s' = sendQueue s @ [d] \<and> sd_mySocket d = Some k \<and> sd_msg d = waitRoomMessage))"
proof -
  have "distinct (members (map_of (roomMap s)) (rname u))" and "userList r \<noteq> []"
    using world_okD(6) [OF s] r by (simp_all add: rooms_ok_def)
  then have dl: "distinct (userList r)" using r by (simp add: members_def)
  have "set (userList r) = {k} \<longleftrightarrow> userList r = [k]"
  proof
    assume "set (userList r) = {k}"
    with dl show "userList r = [k]"
      by (cases "userList r") (auto simp: subset_singleton_iff)
  qed simp
  moreover have "list_without k r = \<lparr>userList = removeAll k (userList r)\<rparr>"
    by (cases r) (simp add: list_without_def)
  moreover have "post (StatusChat env k direction s_out s) (\<lambda>s'.
      \<exists>d. sendQueue s' = sendQueue s @ [d] \<and> sd_mySocket d = Some k \<and> sd_msg d = waitRoomMessage)"
    by (auto simp: StatusChat_def broadcast_leave_def reset_session_def upd_user_def sendQueue_me
        sbind_Inr_iff intro!: post_bindI split: option.splits)
  ultimately show ?thesis
    unfolding room_notice_def
    by (intro ok_mono [OF ok_post [OF StatusChat_out [OF s k r]]]) (auto simp: room_notice_def)
qed

theorem room_out_witness:
  "ok (StatusChat demo_cfg 6 USER_GOOD s_out demo_world) (\<lambda>s'.
     chat_of s' = (chat_of demo_world)(6 \<mapsto> (''bob'', ''Bob'', None)) \<and> map_of (roomMap s') ''den'' = None \<and>
     sends (wire (net_of s')) = [(6, wire_packet 3 0 (''Bob'' @ m_left))])"
  using room_out [OF demo_world_ok, of 6 Bob "\<lparr>userList = [6]\<rparr>" demo_cfg USER_GOOD]
  by (auto simp: demo_net_def start_net_def elim: ok_mono)

section \<open>Talking\<close>

text \<open>
  An ordinary line in a room queues one message for that room, with the speaker's name in front,
  and executes one insert into the chat log with name, room and text.
\<close>

theorem chat_line:
  assumes s: "world_ok s" and k: "map_of (userMap s) k = Some u" "status u = STATUS_CHATTIG"
    and m: "nul_free message" "length message < 512" "message \<noteq> s_out" "\<not> contains s_add message"
    and d: "direction \<noteq> USER_GOOD" "direction \<noteq> FILE_SEND"
  shows "StatusChat env k direction message s = Inr (s\<lparr>
    sendQueue := sendQueue s @ [\<lparr>sd_msg = uname u @ '':'' @ message, sd_mySocket = None,
      sd_roomName = rname u, sd_direction = SEND_ROOM, sd_status = STATUS_CHATTIG\<rparr>],
    database := fst (SQLExecute env (database s) q_InsertChatting
      [SqlText (uname u), SqlText (rname u), SqlText message] [])\<rparr>)"
proof -
  note u = world_user(1) [OF s k(1)]
  have "room_of u = Some (rname u)" using k(2) by (simp add: room_of_def)
  then obtain r where r: "map_of (roomMap s) (rname u) = Some r"
    using rooms_member [OF world_okD(6) [OF s] k(1)] by blast
  have len: "length (uname u) < 20" "length (rname u) < 20"
    using user_ok_lengths [OF u] by (simp_all add: NAME_SIZE_def)
  let ?vo = "setStatus 0 (setDirection 0 (setMsg message (setRoomName (rname u)
      (setNickName (uname u) LogVo_new))))"
  have "getNickName ?vo = Inr (uname u)" "getRoomName ?vo = Inr (rname u)" "getMsg ?vo = Inr message"
    using len m(1,2) by (simp_all add: vo_defs vo_simps cstr_strncpy)
  then have "InsertChatting env ?vo (database s) = Inr (fst (SQLExecute env (database s) q_InsertChatting
      [SqlText (uname u), SqlText (rname u), SqlText message] []))"
    by (simp add: InsertChatting_def split_beta Let_def)
  then show ?thesis
    using r k(1) m(3,4) d user_ok_cstr(2) [OF u]
    by (simp add: StatusChat_def session_names_ok [OF s k(1)] Let_def InsertSendQueue_def)
qed

theorem chat_line_witness:
  "StatusChat demo_cfg 6 DIRECTION_MAX ''hello'' demo_world = Inr (demo_world\<lparr>
    sendQueue := [\<lparr>sd_msg = ''Bob:hello'', sd_mySocket = None, sd_roomName = ''den'',
      sd_direction = SEND_ROOM, sd_status = STATUS_CHATTIG\<rparr>],
    database := [\<lparr>query = q_InsertChatting,
      params = [SqlText ''Bob'', SqlText ''den'', SqlText ''hello''], cols = []\<rparr>]\<rparr>)"
  using chat_line [OF demo_world_ok, of 6 Bob "''hello''" DIRECTION_MAX demo_cfg]
  by (simp add: nul_free_def s_out_def s_add_def SQLExecute_def demo_exec_def)

text \<open>
  C23: A whisper names a user and a text. It queues exactly one message: for the first session in
  the map's order whose nickname is that name, with the sender's name in front; for the sender, when
  it names itself or nobody has the name.
\<close>

theorem whisper_reaches:
  assumes s: "world_ok s" and k: "map_of (userMap s) k = Some u"
    and m: "nul_free message" "length message < BUF_SIZE" "pieces (CHR 0x5C) message = [name, text]"
  shows "Whisper k message s = Inr (s\<lparr>sendQueue := sendQueue s @
    [case List.find (\<lambda>(k, u). uname u = name) (userMap s) of
       Some (k', v) \<Rightarrow>
         if name = uname u then
           \<lparr>sd_msg = m_selfWhisper @ waitRoomMessage, sd_mySocket = Some k, sd_roomName = '''',
             sd_direction = SEND_ME, sd_status = STATUS_WAITING\<rparr>
         else
           \<lparr>sd_msg = uname u @ m_whisperFrom @ text, sd_mySocket = Some k', sd_roomName = '''',
             sd_direction = SEND_ME, sd_status = STATUS_WHISPER\<rparr>
     | None \<Rightarrow>
         \<lparr>sd_msg = name @ m_notFound, sd_mySocket = Some k, sd_roomName = '''',
           sd_direction = SEND_ME, sd_status = STATUS_WAITING\<rparr>]\<rparr>)"
proof -
  have t: "tokens 2 message = Inr [name, text]" using tokens_pieces [OF m(1,2)] m(3) by simp
  have "(k, u) \<in> set (userMap s)" using um.entry_iff [OF world_okD(1) [OF s]] k by simp
  then have "List.find (\<lambda>(k, u). uname u = name) (userMap s) = None \<Longrightarrow> name \<noteq> uname u"
    by (auto simp: find_None_iff)
  then show ?thesis
    by (auto simp: Whisper_def session_names_ok [OF s k] t world_find_user [OF s] InsertSendQueue_def
        split: option.split)
qed

theorem whisper_reaches_witness:
  "Whisper 5 (''Bob'' @ [CHR 0x5C] @ ''psst'') demo_world = Inr (demo_world\<lparr>sendQueue :=
    [\<lparr>sd_msg = ''Ann'' @ m_whisperFrom @ ''psst'', sd_mySocket = Some 6, sd_roomName = '''',
      sd_direction = SEND_ME, sd_status = STATUS_WHISPER\<rparr>]\<rparr>)"
  using whisper_reaches [OF demo_world_ok, of 5 Ann "''Bob'' @ [CHR 0x5C] @ ''psst''" "''Bob''" "''psst''"]
  by (simp add: nul_free_def BUF_SIZE_def pieces_def)

section \<open>Sending\<close>

text \<open>
  Sending a text of at most 1003 bytes to a list of members posts one packet per member, in
  list order: total length, status, zero, the text and its terminator; nothing else that is
  outstanding is touched.
\<close>

theorem room_broadcast:
  assumes "owns n R S L" and msg: "nul_free msg" "length msg \<le> MAX_TEXT"
  shows "ok (SendToRoomMsg pst msg ks st n) (\<lambda>n'.
    net_ok n' \<and>
    sends (wire n') = sends (wire n) @
      map (\<lambda>k. (k, bytes_of_short (int (length msg + 11)) @ bytes_of_int (status_int st) @
        replicate 4 NUL @ msg @ [NUL])) ks \<and>
    same_blocks (ran S \<union> L) (charPool n) (charPool n') \<and>
    (\<forall>i\<in>pending n. mp_mem (ioPool n') i = mp_mem (ioPool n) i))"
proof -
  have inv: "net_inv n (ran S \<union> L) (R \<union> dom S)" and p: "pending n = R \<union> dom S"
    using assms(1) by (simp_all add: owns_def)
  have "net_ok n" using assms(1) by (auto simp: net_ok_def)
  from ok_conjI [OF net_ok_room [OF this msg] posted_room [OF inv msg]]
  show ?thesis by (rule ok_mono) (auto simp: posted_def p wire_packet_def bytes_of_int_0)
qed

lemma demo_net_owns: "owns demo_net {} Map.empty {}"
  using CharPool_new_inv [of 1 "\<lambda>_. NUL"] MPool_new_inv [of 1 "\<lambda>_. zero_io"]
  by (simp add: owns_def demo_net_def start_net_def net_inv_def pending_def io_typed_def
      MPool_new_def MPool_grow_def zero_io_def)

theorem room_broadcast_witness:
  "ok (SendToRoomMsg (\<lambda>_. NUL) ''hi'' [6, 7] STATUS_CHATTIG demo_net) (\<lambda>n'.
     sends (wire n') =
       [(6, [CHR 0x0D, NUL, CHR 0x03, NUL, NUL, NUL, NUL, NUL, NUL, NUL, CHR ''h'', CHR ''i'', NUL]),
        (7, [CHR 0x0D, NUL, CHR 0x03, NUL, NUL, NUL, NUL, NUL, NUL, NUL, CHR ''h'', CHR ''i'', NUL])])"
proof -
  have "bytes_of_short 13 = [CHR 0x0D, NUL]" "bytes_of_int 3 = [CHR 0x03, NUL, NUL, NUL]"
    by code_simp+
  moreover have "replicate 4 NUL = [NUL, NUL, NUL, NUL]" by (simp add: numeral_eq_Suc)
  ultimately show ?thesis
    by (intro ok_mono [OF room_broadcast [OF demo_net_owns]])
       (auto simp: nul_free_def MAX_TEXT_def demo_net_def start_net_def)
qed

text \<open>What one entry of the queue asks for.\<close>

definition deliver :: "(string \<rightharpoonup> ROOM_DATA) \<Rightarrow> Send_DATA \<Rightarrow> (SOCKET \<times> char list) list" where
  "deliver R d =
     (let packet = wire_packet (status_int (sd_status d)) 0 (sd_msg d) in
      case sd_direction d of
        SEND_ME \<Rightarrow> (case sd_mySocket d of None \<Rightarrow> [] | Some k \<Rightarrow> [(k, packet)])
      | SEND_ROOM \<Rightarrow> map (\<lambda>k. (k, packet)) (members R (sd_roomName d))
      | _ \<Rightarrow> [])"

definition text_entry :: "Send_DATA \<Rightarrow> bool" where
  "text_entry d \<longleftrightarrow> nul_free (sd_msg d) \<and> length (sd_msg d) \<le> MAX_TEXT \<and> sd_direction d \<noteq> SEND_FILE"

lemma send_entry_deliver:
  assumes n: "net_ok (net_of s)" and d: "text_entry d"
  obtains n' where "send_entry env d s = Inr (s\<lparr>net_of := n'\<rparr>)" "net_ok n'"
    "sends (wire n') = sends (wire (net_of s)) @ deliver (map_of (roomMap s)) d"
proof -
  let ?p = "wire_packet (status_int (sd_status d)) 0 (sd_msg d)"
  have msg: "nul_free (sd_msg d)" "length (sd_msg d) \<le> MAX_TEXT" using d by (simp_all add: text_entry_def)
  obtain co mo where inv: "net_inv (net_of s) co mo" using n by (rule net_ok_inv)
  have one: "\<exists>n'. SendToOneMsg (past env) (sd_msg d) k (sd_status d) (net_of s) = Inr n' \<and> net_ok n' \<and>
      sends (wire n') = sends (wire (net_of s)) @ [(k, ?p)]" for k
    using SendToOneMsg_net [OF n msg] by metis
  have room: "\<exists>n'. SendToRoomMsg (past env) (sd_msg d) ks (sd_status d) (net_of s) = Inr n' \<and> net_ok n' \<and>
      sends (wire n') = sends (wire (net_of s)) @ map (\<lambda>k. (k, ?p)) ks" for ks
    using ok_conjI [OF net_ok_room [OF n msg] posted_room [OF inv msg]]
    by (simp only: ok_iff posted_def) metis
  have "\<exists>n'. send_entry env d s = Inr (s\<lparr>net_of := n'\<rparr>) \<and> net_ok n' \<and>
      sends (wire n') = sends (wire (net_of s)) @ deliver (map_of (roomMap s)) d"
  proof (cases "sd_direction d")
    case SEND_ME
    show ?thesis
    proof (cases "sd_mySocket d")
      case None
      with SEND_ME n show ?thesis by (intro exI [of _ "net_of s"]) (simp add: send_entry_def deliver_def)
    next
      case (Some k)
      then show ?thesis using SEND_ME one [of k] by (auto simp: send_entry_def deliver_def)
    qed
  next
    case SEND_ROOM
    show ?thesis
    proof (cases "map_of (roomMap s) (sd_roomName d)")
      case None
      with SEND_ROOM n show ?thesis
        by (intro exI [of _ "net_of s"]) (simp add: send_entry_def deliver_def members_def)
    next
      case (Some r)
      then show ?thesis using SEND_ROOM room [of "userList r"]
        by (auto simp: send_entry_def deliver_def members_def)
    qed
  next
    case SEND_MAX
    with n show ?thesis by (intro exI [of _ "net_of s"]) (simp add: send_entry_def deliver_def)
  qed (use d in \<open>simp add: text_entry_def\<close>)
  with that show thesis by blast
qed

lemma send_entries_deliver:
  "net_ok (net_of s) \<Longrightarrow> \<forall>d\<in>set ds. text_entry d \<Longrightarrow>
   \<exists>n'. send_entries env ds s = Inr (s\<lparr>net_of := n'\<rparr>) \<and> net_ok n' \<and>
     sends (wire n') = sends (wire (net_of s)) @ concat (map (deliver (map_of (roomMap s))) ds)"
proof (induction ds arbitrary: s)
  case Nil
  then show ?case by (intro exI [of _ "net_of s"]) simp
next
  case (Cons d ds)
  obtain n1 where n1: "send_entry env d s = Inr (s\<lparr>net_of := n1\<rparr>)" "net_ok n1"
      "sends (wire n1) = sends (wire (net_of s)) @ deliver (map_of (roomMap s)) d"
    using send_entry_deliver [of s d] Cons.prems by (metis list.set_intros(1))
  show ?case using Cons.IH [of "s\<lparr>net_of := n1\<rparr>"] Cons.prems n1 by auto
qed

text \<open>
  C25: One call of the send worker empties the queue and posts, in queue order, each reply to
  its socket and each announcement to the members its room has at that time.
\<close>

theorem Sendwork_delivers:
  assumes "net_ok (net_of s)" and "sendQueue s \<noteq> []" and "\<forall>d\<in>set (sendQueue s). text_entry d"
  shows "ok (Sendwork env s) (\<lambda>s'. sendQueue s' = [] \<and> net_ok (net_of s') \<and>
    userMap s' = userMap s \<and> roomMap s' = roomMap s \<and>
    sends (wire (net_of s')) =
      sends (wire (net_of s)) @ concat (map (deliver (map_of (roomMap s))) (sendQueue s)))"
proof -
  obtain n' where "send_entries env (sendQueue s) (s\<lparr>sendQueue := []\<rparr>) =
        Inr (s\<lparr>sendQueue := [], net_of := n'\<rparr>)" "net_ok n'"
      "sends (wire n') = sends (wire (net_of s)) @
        concat (map (deliver (map_of (roomMap s))) (sendQueue s))"
    using send_entries_deliver [of "s\<lparr>sendQueue := []\<rparr>" "sendQueue s" env] assms by auto
  then show ?thesis using assms(2) by (simp add: Sendwork_def)
qed

theorem Sendwork_delivers_witness:
  "ok (Sendwork demo_cfg (InsertSendQueue SEND_ROOM ''Bob:hello'' ''den'' 0 STATUS_CHATTIG
      (InsertSendQueue SEND_ME ''hi'' '''' 5 STATUS_WAITING demo_world)))
    (\<lambda>s'. sendQueue s' = [] \<and> sends (wire (net_of s')) =
      [(5, wire_packet 2 0 ''hi''), (6, wire_packet 3 0 ''Bob:hello'')])"
  by (rule ok_mono [OF Sendwork_delivers])
     (auto simp: demo_net_ok text_entry_def nul_free_def MAX_TEXT_def InsertSendQueue_def deliver_def
        members_def Let_def, simp add: demo_net_def start_net_def)

section \<open>Files\<close>

text \<open>
  A client in a room that announces a file and sends name and contents the way the file
  sender does: the file is on the server's disk, byte for byte, and two entries for the room are
  queued, the announcement and the file's path.
\<close>

theorem file_upload:
  assumes s: "world_ok s" and k: "map_of (userMap s) k = Some u" "status u = STATUS_CHATTIG"
    and m: "message \<noteq> s_out" "\<not> contains s_add message"
    and f: "udp_in (udp_of s) = nm # file_chunks bs @ ds" "nul_free nm" "length nm < 4086"
      "can_create env (''Downloads'' @ ''/'' @ nm)"
  shows "ok (StatusChat env k FILE_SEND message s) (\<lambda>s'. same_sessions s s' \<and>
    map_of (disk (udp_of s')) (''Downloads'' @ ''/'' @ nm) = Some bs \<and> udp_in (udp_of s') = ds \<and>
    sendQueue s' = sendQueue s @
      [\<lparr>sd_msg = '''', sd_mySocket = None, sd_roomName = rname u, sd_direction = SEND_ROOM,
         sd_status = STATUS_FILE_SEND\<rparr>,
       \<lparr>sd_msg = ''Downloads'' @ ''/'' @ nm, sd_mySocket = None, sd_roomName = rname u,
         sd_direction = SEND_FILE, sd_status = STATUS_FILE_SEND\<rparr>])"
proof -
  note u = world_user(1) [OF s k(1)]
  have "length (uname u) < 20" using user_ok_lengths(1) [OF u] by (simp add: NAME_SIZE_def)
  then obtain u' db' where "RecvFile env (uname u) (udp_of s) (database s) =
      Inr (''Downloads'' @ ''/'' @ nm, u', db')"
    "map_of (disk u') (''Downloads'' @ ''/'' @ nm) = Some bs" "udp_in u' = ds"
    using RecvFile_ok [OF f, of "uname u" "database s"] by (auto simp: ok_iff)
  then show ?thesis
    using k(1) m user_ok_cstr(2) [OF u]
    by (simp add: StatusChat_def session_names_ok [OF s k(1)] Let_def InsertSendQueue_def
        same_sessions_def)
qed

definition demo_upload :: "stmt list server" where
  "demo_upload = demo_world\<lparr>udp_of :=
     \<lparr>udp_in = ''a.txt'' # file_chunks ''data'', udp_out = [], disk = []\<rparr>\<rparr>"

theorem file_upload_witness:
  "ok (StatusChat demo_cfg 6 FILE_SEND '''' demo_upload)
     (\<lambda>s'. map_of (disk (udp_of s')) ''Downloads/a.txt'' = Some ''data'')"
proof -
  have "world_ok demo_upload" unfolding demo_upload_def
    by (rule iffD2 [OF same_sessions_world demo_world_ok]) simp
  from file_upload [OF this, of 6 Bob "''''" "''a.txt''" "''data''" "[]" demo_cfg]
  show ?thesis
    by (rule ok_mono) (simp_all add: demo_upload_def s_out_def s_add_def nul_free_def)
qed

section \<open>Requests as text\<close>

text \<open>The arguments of a request, with the separator the clients use.\<close>

fun join_args :: "string list \<Rightarrow> string" where
  "join_args [] = ''''"
| "join_args [a] = a"
| "join_args (a # b # as) = a @ [CHR 0x5C] @ join_args (b # as)"

lemma split_join: "args \<noteq> [] \<Longrightarrow> \<forall>a\<in>set args. CHR 0x5C \<notin> set a \<Longrightarrow>
    split_on (CHR 0x5C) (join_args args) = args"
  by (induction args rule: join_args.induct) (simp_all add: split_on_free split_on_sep)

lemma nul_free_join: "\<forall>a\<in>set args. nul_free a \<Longrightarrow> nul_free (join_args args)"
  by (induction args rule: join_args.induct) (auto simp: nul_free_def)

text \<open>
  Arguments joined with the separator are found again by the \<open>strtok\<close> loop, in order, when the
  array of the handler has room for them; one more is written past its end.
\<close>

theorem request_roundtrip:
  assumes "\<forall>a\<in>set args. a \<noteq> '''' \<and> nul_free a \<and> CHR 0x5C \<notin> set a"
    and "length (join_args args) < BUF_SIZE"
  shows "tokens n (join_args args) = (if length args \<le> n then Inr args else Inl IndexOverflow)"
proof -
  have "pieces (CHR 0x5C) (join_args args) = args"
  proof (cases args)
    case (Cons a as)
    have "filter (\<lambda>a. a \<noteq> '''') args = args" using assms(1) by (simp add: filter_True)
    then show ?thesis using split_join [of args] assms(1) Cons by (simp add: pieces_def)
  qed (simp add: pieces_def)
  then show ?thesis
    using tokens_pieces [OF nul_free_join assms(2)] assms(1) by simp
qed

theorem request_roundtrip_witness:
  "tokens 3 (join_args [''ann'', ''pw'', ''Ann'']) = Inr [''ann'', ''pw'', ''Ann''] \<and>
   tokens 2 (join_args [''ann'', ''pw'', ''Ann'']) = Inl IndexOverflow"
  using request_roundtrip [of "[''ann'', ''pw'', ''Ann'']" 3]
    request_roundtrip [of "[''ann'', ''pw'', ''Ann'']" 2]
  by (simp add: nul_free_def BUF_SIZE_def)

end
