(* ===== verification/ClientPool.thy ===== *)
theory ClientPool
  imports BytePool
begin

text \<open>
  The pools of the clients (\<open>src/Chat/Client/CharPool.cpp\<close>, \<open>MPool.cpp\<close>): 30000 blocks of 4096 bytes
  and 30000 \<open>PER_IO_DATA\<close>, on \<open>Concurrency::concurrent_queue\<close>. They satisfy the contracts of the
  server's pools, with their own block size.
\<close>

section \<open>The queue\<close>

text \<open>\<open>try_pop\<close> leaves its argument alone when the queue is empty; the callers then use it all the same.\<close>

definition try_pop :: "'a list \<Rightarrow> 'a option \<times> 'a list" where
  "try_pop q = (case q of [] \<Rightarrow> (None, []) | x # q' \<Rightarrow> (Some x, q'))"

definition popped :: "'a option \<Rightarrow> cpp_error + 'a" where
  "popped r = (case r of None \<Rightarrow> Inl Uninitialised | Some x \<Rightarrow> Inr x)"

section \<open>\<open>CharPool\<close>\<close>

definition cl_BLOCK_SIZE :: nat where "cl_BLOCK_SIZE = 4096"
definition cl_POOL_BLOCKS :: nat where "cl_POOL_BLOCKS = 30000"

definition cl_CharPool_grow :: "nat \<Rightarrow> CharPool \<Rightarrow> CharPool" where
  "cl_CharPool_grow n p =
     p\<lparr>cp_mem := (\<lambda>x. if cp_brk p \<le> x \<and> x < cp_brk p + cl_BLOCK_SIZE * n then NUL else cp_mem p x),
       cp_regions := (cp_brk p, cl_BLOCK_SIZE * n) # cp_regions p,
       cp_brk := cp_brk p + cl_BLOCK_SIZE * n,
       poolQueue := poolQueue p @ map (\<lambda>i. cp_brk p + cl_BLOCK_SIZE * i) [0..<n]\<rparr>"

definition cl_CharPool_new :: "(nat \<Rightarrow> char) \<Rightarrow> nat \<Rightarrow> CharPool" where
  "cl_CharPool_new mem brk = cl_CharPool_grow cl_POOL_BLOCKS
     \<lparr>cp_mem = mem, cp_regions = [], cp_brk = brk, poolQueue = []\<rparr>"

definition cl_CharPool_Malloc :: "CharPool \<Rightarrow> cpp_error + nat \<times> CharPool" where
  "cl_CharPool_Malloc p =
     (let p1 = (if poolQueue p = [] then cl_CharPool_grow 2000 p else p);
          (r, q) = try_pop (poolQueue p1)
      in sbind (popped r) (\<lambda>pointer. Inr (pointer, p1\<lparr>poolQueue := q\<rparr>)))"

text \<open>\<open>sizeof(BLOCK_SIZE)\<close> is four here too.\<close>

definition cl_CharPool_Free :: "nat \<Rightarrow> CharPool \<Rightarrow> cpp_error + CharPool" where
  "cl_CharPool_Free freePoint p =
     sbind (cp_write p freePoint (replicate 4 NUL)) (\<lambda>p.
     Inr (p\<lparr>poolQueue := poolQueue p @ [freePoint]\<rparr>))"

section \<open>\<open>MPool\<close>\<close>

definition cl_MPool_grow :: "nat \<Rightarrow> MPool \<Rightarrow> MPool" where
  "cl_MPool_grow n p =
     p\<lparr>mp_mem := (\<lambda>x. if mp_brk p \<le> x \<and> x < mp_brk p + sizeof_PER_IO_DATA * n then zero_io
                       else mp_mem p x),
       mp_regions := (mp_brk p, sizeof_PER_IO_DATA * n) # mp_regions p,
       mp_brk := mp_brk p + sizeof_PER_IO_DATA * n,
       mp_queue := mp_queue p @ map (\<lambda>i. mp_brk p + sizeof_PER_IO_DATA * i) [0..<n]\<rparr>"

definition cl_MPool_new :: "(nat \<Rightarrow> PER_IO_DATA) \<Rightarrow> nat \<Rightarrow> MPool" where
  "cl_MPool_new mem brk = cl_MPool_grow cl_POOL_BLOCKS
     \<lparr>mp_mem = mem, mp_regions = [], mp_brk = brk, mp_queue = []\<rparr>"

definition cl_MPool_Malloc :: "MPool \<Rightarrow> cpp_error + nat \<times> MPool" where
  "cl_MPool_Malloc p =
     (let p1 = (if mp_queue p = [] then cl_MPool_grow 2000 p else p);
          (r, q) = try_pop (mp_queue p1)
      in sbind (popped r) (\<lambda>pointer. Inr (pointer, p1\<lparr>mp_queue := q\<rparr>)))"

definition cl_MPool_Free :: "nat \<Rightarrow> MPool \<Rightarrow> cpp_error + MPool" where
  "cl_MPool_Free freePoint p =
     (if in_region (mp_regions p) freePoint sizeof_PER_IO_DATA then
        Inr (p\<lparr>mp_mem := (mp_mem p)(freePoint := zero_io), mp_queue := mp_queue p @ [freePoint]\<rparr>)
      else Inl HeapOverflow)"

section \<open>The structures pool is the server's\<close>

lemma cl_MPool_grow_eq: "cl_MPool_grow n p = MPool_grow n p"
  using MPool_grow_queue [of n p] by (simp add: cl_MPool_grow_def MPool_grow_def)

lemma cl_MPool_Malloc_eq: "cl_MPool_Malloc p = MPool_Malloc p"
  using mp_queue_grow [of p]
  by (simp add: cl_MPool_Malloc_def MPool_Malloc_def try_pop_def popped_def cl_MPool_grow_eq
        ConcurrentQueue_empty_def ConcurrentQueue_top_def Let_def MORE_BLOCKS_def split: list.split)

lemma cl_MPool_Free_eq: "cl_MPool_Free a p = MPool_Free a p"
  by (simp add: cl_MPool_Free_def MPool_Free_def ConcurrentQueue_push_def)

lemma cl_MPool_new_inv: "0 < brk \<Longrightarrow> mp_inv (cl_MPool_new mem brk) {}"
  unfolding cl_MPool_new_def cl_MPool_grow_eq
  by (rule MPool_grow_inv) (simp_all add: mp_inv_def empty_pool_inv)

interpretation cmp: block_allocator cl_MPool_Malloc cl_MPool_Free mp_inv sizeof_PER_IO_DATA
  by unfold_locales
     (auto simp: cl_MPool_Malloc_eq cl_MPool_Free_eq dest: mpa.malloc_ok mpa.free_ok mpa.apart)

section \<open>The character pool\<close>

definition cl_inv :: "CharPool \<Rightarrow> nat set \<Rightarrow> bool" where
  "cl_inv p out \<longleftrightarrow> pool_inv cl_BLOCK_SIZE (cp_regions p) (cp_brk p) (poolQueue p) out"

lemma cl_BLOCK_SIZE_pos [simp]: "0 < cl_BLOCK_SIZE"
  by (simp add: cl_BLOCK_SIZE_def)

lemma cl_CharPool_grow_inv: "cl_inv p out \<Longrightarrow> poolQueue p = [] \<Longrightarrow> cl_inv (cl_CharPool_grow n p) out"
  by (simp add: cl_inv_def cl_CharPool_grow_def pool_inv_more)

lemma cl_CharPool_new_inv: "0 < brk \<Longrightarrow> cl_inv (cl_CharPool_new mem brk) {}"
  unfolding cl_CharPool_new_def
  by (rule cl_CharPool_grow_inv) (simp_all add: cl_inv_def empty_pool_inv)

lemma blocks_2000: "[0..<2000] = 0 # [1..<2000]"
  using upt_conv_Cons [of 0 2000] by simp

lemma cl_CharPool_Malloc_cases:
  obtains a q where "poolQueue p = a # q" "cl_CharPool_Malloc p = Inr (a, p\<lparr>poolQueue := q\<rparr>)"
  | "poolQueue p = []" "cl_CharPool_Malloc p = Inr (cp_brk p, (cl_CharPool_grow 2000 p)
       \<lparr>poolQueue := map (\<lambda>i. cp_brk p + cl_BLOCK_SIZE * i) [1..<2000]\<rparr>)"
  by (cases "poolQueue p")
     (simp_all add: cl_CharPool_Malloc_def try_pop_def popped_def cl_CharPool_grow_def blocks_2000)

lemma cl_CharPool_Malloc_inv:
  assumes "cl_inv p out"
  shows "ok (cl_CharPool_Malloc p) (\<lambda>(a, p'). a \<notin> out \<and> cl_inv p' (insert a out))"
proof (cases rule: cl_CharPool_Malloc_cases [of p])
  case (1 a q)
  with assms pool_inv_take show ?thesis by (fastforce simp: cl_inv_def)
next
  case 2
  have q: "poolQueue (cl_CharPool_grow 2000 p) =
      cp_brk p # map (\<lambda>i. cp_brk p + cl_BLOCK_SIZE * i) [1..<2000]"
    using 2(1) by (simp add: cl_CharPool_grow_def blocks_2000)
  have "cl_inv (cl_CharPool_grow 2000 p) out" using assms 2(1) by (rule cl_CharPool_grow_inv)
  then show ?thesis using pool_inv_take 2(2) unfolding cl_inv_def q by fastforce
qed

lemma cl_inv_region: "cl_inv p out \<Longrightarrow> a \<in> out \<Longrightarrow> in_region (cp_regions p) a cl_BLOCK_SIZE"
  unfolding cl_inv_def by (blast intro: pool_inv_region)

lemma cl_CharPool_Free_inv:
  assumes "cl_inv p out" and "a \<in> out"
  shows "ok (cl_CharPool_Free a p) (\<lambda>p'. cl_inv p' (out - {a}))"
  using assms pool_inv_put in_region_sub [OF cl_inv_region [OF assms], of a 4]
  by (auto simp: cl_CharPool_Free_def cl_inv_def cl_BLOCK_SIZE_def)

interpretation ccp: byte_pool cl_CharPool_Malloc cl_CharPool_Free cl_inv cl_BLOCK_SIZE
proof unfold_locales
  fix p out assume "cl_inv p out"
  then show "ok (cl_CharPool_Malloc p) (\<lambda>(a, p'). a \<notin> out \<and> cl_inv p' (insert a out))"
    by (rule cl_CharPool_Malloc_inv)
next
  fix a x p p' assume "cl_CharPool_Malloc p = Inr (a, p')" and "x < cp_brk p"
  then show "cp_mem p' x = cp_mem p x"
    by (cases rule: cl_CharPool_Malloc_cases [of p]) (auto simp: cl_CharPool_grow_def)
next
  fix a x p p' assume "cl_CharPool_Free a p = Inr p'" and "x < a \<or> a + cl_BLOCK_SIZE \<le> x"
  then show "cp_mem p' x = cp_mem p x"
    by (auto simp: cl_CharPool_Free_def cp_write_def mem_put_def cl_BLOCK_SIZE_def split: if_splits)
next
  fix p out a assume "cl_inv p out" "a \<in> out"
  then show "ok (cl_CharPool_Free a p) (\<lambda>p'. cl_inv p' (out - {a}))"
    and "in_region (cp_regions p) a cl_BLOCK_SIZE"
    by (rule cl_CharPool_Free_inv, rule cl_inv_region)
next
  fix p out a c assume "cl_inv p out" "a \<in> out" "c \<in> out" "a \<noteq> c"
  then show "a + cl_BLOCK_SIZE \<le> c \<or> c + cl_BLOCK_SIZE \<le> a"
    unfolding cl_inv_def by (rule pool_inv_apart)
qed (simp_all add: cl_inv_def pool_inv_def)

end
