(* ===== verification/Client.thy ===== *)
theory Client
  imports Packet ClientPool FileSvc
begin

text \<open>
  The console client (\<open>src/Chat/Client/Client.cpp\<close>): its two network threads, the menus of
  \<open>SendMsgThread\<close> and the file transfer over UDP.

  The keyboard is the list of lines still to be typed; a \<open>getline\<close> with nothing typed waits
  (\<open>Blocked\<close>). The console is what has been written since the last \<open>cls\<close>: the texts from the server
  and the menus repeated after a clear; the fixed prompts of the menus and the colours are left out.
  The socket to the server, the files that can be opened and the bytes behind a C string in memory
  (\<open>past\<close>) are parameters.
\<close>

section \<open>Menu texts\<close>

text \<open>The client has texts of its own (\<open>src/Chat/Client/common.h\<close>, in code page 949).\<close>

definition cl_loginBeforeMessage :: string where
  "cl_loginBeforeMessage = bytes [
     49, 46, 176, 232, 193, 164, 187, 253, 188, 186, 32, 50, 46, 183, 206, 177, 215, 192,
     206, 199, 207, 177, 226, 32, 51, 46, 193, 190, 183, 225, 32, 52, 46, 196, 220, 188, 214,
     193, 246, 191, 236, 177, 226]"

definition cl_waitRoomMessage :: string where
  "cl_waitRoomMessage = bytes [
     49, 46, 185, 230, 32, 193, 164, 186, 184, 32, 186, 184, 177, 226, 32, 50, 46, 185, 230,
     32, 184, 184, 181, 233, 177, 226, 32, 51, 46, 185, 230, 32, 192, 212, 192, 229, 199,
     207, 177, 226, 32, 52, 46, 192, 175, 192, 250, 32, 193, 164, 186, 184, 32, 53, 46, 196,
     163, 177, 184, 32, 193, 164, 186, 184, 32, 54, 46, 196, 163, 177, 184, 32, 176, 252,
     184, 174, 32, 55, 46, 177, 211, 188, 211, 184, 187, 32, 56, 46, 183, 206, 177, 215, 190,
     198, 191, 244, 32, 57, 46, 192, 206, 177, 226, 181, 181, 32, 193, 182, 200, 184, 32, 49,
     48, 46, 196, 220, 188, 214, 193, 246, 191, 236, 177, 226]"

definition cl_chatRoomMessage :: string where
  "cl_chatRoomMessage = bytes [
     179, 170, 176, 161, 189, 195, 183, 193, 184, 233, 32, 92, 111, 117, 116, 192, 187, 32,
     196, 220, 188, 214, 193, 246, 191, 236, 177, 226, 180, 194, 32, 92, 99, 108, 101, 97,
     114, 184, 166, 32, 196, 163, 177, 184, 195, 223, 176, 161, 180, 194, 32, 92, 97, 100,
     100, 32, 180, 208, 179, 215, 192, 211, 192, 187, 32, 198, 196, 192, 207, 192, 252, 188,
     219, 192, 186, 92, 115, 101, 110, 100, 184, 166, 32, 192, 175, 192, 250, 192, 206, 177,
     226, 181, 181, 180, 194, 92, 103, 111, 111, 100, 192, 187, 32, 192, 212, 183, 194, 199,
     207, 188, 188, 191, 228]"

section \<open>Numbers\<close>

text \<open>
  The client numbers the statuses and directions in a header of its own. They are the server's, except that
  the server knows three directions more.
\<close>

definition cl_statuses :: "(int \<times> ClientStatus) list" where
  "cl_statuses =
     [(0, STATUS_INIT), (1, STATUS_LOGOUT), (2, STATUS_WAITING), (3, STATUS_CHATTIG), (4, STATUS_WHISPER),
      (5, STATUS_FILE_SEND), (6, STATUS_MAX)]"

definition cl_directions :: "(int \<times> Direction) list" where
  "cl_directions =
     [(1, USER_MAKE), (2, USER_ENTER), (3, ROOM_MAKE), (4, ROOM_ENTER), (5, ROOM_OUT),
      (6, WHISPER), (7, ROOM_INFO), (8, ROOM_USER_INFO), (9, FRIEND_INFO), (10, FRIEND_ADD),
      (11, FRIEND_GO), (12, FRIEND_DELETE), (13, LOG_OUT), (14, FILE_SEND), (15, USER_GOOD),
      (16, USER_GOOD_INFO), (17, DIRECTION_MAX)]"

lemma numbers_agree:
  "(i, st) \<in> set cl_statuses \<Longrightarrow> status_int st = i"
  "direction_table = cl_directions @ [(20, CALLCOUNT), (21, BAN), (22, EXIT)]"
  by (auto simp: cl_statuses_def cl_directions_def direction_table_def)

section \<open>State\<close>

definition OP_READ :: int where "OP_READ = 6"
definition OP_WRITE :: int where "OP_WRITE = 7"
definition OP_READ_MORE :: int where "OP_READ_MORE = 8"

record client =
  clientStatus :: int
  cl_net :: net
  console :: "string list"
  keyboard :: "string list"
  udp_sent :: "char list list"

section \<open>Sending and receiving\<close>

definition cl_RecvMore :: "SOCKET \<Rightarrow> nat \<Rightarrow> net \<Rightarrow> cpp_error + net" where
  "cl_RecvMore sock ioInfo n =
     sbind (mp_get (ioPool n) ioInfo) (\<lambda>io.
     Inr (n\<lparr>ioPool := mp_set ioInfo (io\<lparr>wsaBuf_len := BUF_SIZE, buffer := replicate BUF_SIZE NUL,
              wsaBuf_buf := OwnBuf, serverMode := OP_READ_MORE\<rparr>) (ioPool n),
            wire := wire n @ [WSARecv sock ioInfo]\<rparr>))"

definition cl_Recv :: "SOCKET \<Rightarrow> net \<Rightarrow> cpp_error + net" where
  "cl_Recv sock n =
     sbind (cl_MPool_Malloc (ioPool n)) (\<lambda>(ioInfo, mp).
     sbind (mp_get mp ioInfo) (\<lambda>io.
     Inr (n\<lparr>ioPool := mp_set ioInfo (io\<lparr>wsaBuf_len := BUF_SIZE, wsaBuf_buf := OwnBuf,
              serverMode := OP_READ, recvByte := 0, totByte := 0\<rparr>) mp,
            wire := wire n @ [WSARecv sock ioInfo]\<rparr>)))"

text \<open>
  \<open>copy(msg, msg + len, packet + 10)\<close> copies the size of the whole packet, ten bytes more than the
  text and its NUL (\<open>text_bytes\<close>).
\<close>

definition cl_fill_packet ::
    "(nat \<Rightarrow> char) \<Rightarrow> string \<Rightarrow> int \<Rightarrow> int \<Rightarrow> nat \<Rightarrow> CharPool \<Rightarrow> cpp_error + CharPool" where
  "cl_fill_packet past msg st dir packet cp =
     sbind (cp_write cp packet (bytes_of_short (int (packet_len msg)))) (\<lambda>cp.
     sbind (cp_write cp (packet + 2) (bytes_of_int st)) (\<lambda>cp.
     sbind (cp_write cp (packet + 6) (bytes_of_int dir)) (\<lambda>cp.
     cp_write cp (packet + 10) (text_bytes past msg))))"

definition cl_SendMsg ::
    "(nat \<Rightarrow> char) \<Rightarrow> SOCKET \<Rightarrow> string \<Rightarrow> int \<Rightarrow> int \<Rightarrow> net \<Rightarrow> cpp_error + net" where
  "cl_SendMsg past clientSock msg st dir n =
     sbind (cl_MPool_Malloc (ioPool n)) (\<lambda>(ioInfo, mp).
     sbind (cl_CharPool_Malloc (charPool n)) (\<lambda>(packet, cp).
     sbind (cl_fill_packet past msg st dir packet cp) (\<lambda>cp.
     sbind (mp_get mp ioInfo) (\<lambda>io.
     sbind (cp_read cp packet (packet_len msg)) (\<lambda>bs.
     Inr (n\<lparr>charPool := cp,
            ioPool := mp_set ioInfo (io\<lparr>wsaBuf_buf := PoolBuf packet, wsaBuf_len := packet_len msg,
                                        serverMode := OP_WRITE\<rparr>) mp,
            wire := wire n @ [WSASend clientSock bs ioInfo]\<rparr>))))))"

section \<open>Reading packets\<close>

text \<open>
  The client's \<open>PacketReading\<close> differs from the server's in the first branch: a surplus of more than
  \<open>BUF_SIZE\<close> bytes, which a negative size field gives, returns 0 with nothing copied.
\<close>

definition cl_PacketReading ::
    "PER_IO_DATA \<Rightarrow> int \<Rightarrow> CharPool \<Rightarrow> cpp_error + int \<times> PER_IO_DATA \<times> CharPool" where
  "cl_PacketReading io bytesTrans cp =
     (if serverMode io = OP_READ then
        (if bytesTrans \<ge> 2 then
           sbind (slice (buffer io) 0 2) (\<lambda>h.
           sbind (cl_CharPool_Malloc cp) (\<lambda>(rb, cp).
           let io = io\<lparr>bodySize := short_of_bytes h, recvBuffer := rb\<rparr> in
           if bytesTrans - bodySize io > 0 \<and> bytesTrans - bodySize io \<le> int BUF_SIZE then
             sbind (slice (buffer io) 0 (bodySize io)) (\<lambda>d.
             sbind (cp_write cp rb d) (\<lambda>cp.
             sbind (slice (buffer io) (bodySize io) bytesTrans) (\<lambda>t.
             Inr (short_of (bytesTrans - bodySize io),
                  io\<lparr>buffer := overwrite (buffer io) 0 t\<rparr>, cp))))
           else if bytesTrans - bodySize io = 0 then
             sbind (slice (buffer io) 0 (bodySize io)) (\<lambda>d.
             sbind (cp_write cp rb d) (\<lambda>cp.
             Inr (0, io, cp)))
           else if bytesTrans - bodySize io < 0 then
             sbind (slice (buffer io) 0 bytesTrans) (\<lambda>d.
             sbind (cp_write cp rb d) (\<lambda>cp.
             Inr (short_of (bytesTrans - bodySize io),
                  io\<lparr>recvByte := short_of bytesTrans\<rparr>, cp)))
           else Inr (0, io, cp)))
         else if bytesTrans = 1 then
           sbind (slice (buffer io) 0 bytesTrans) (\<lambda>d.
           Inr (-1,
                io\<lparr>bodySize := short_of_bytes (overwrite (bytes_of_short (bodySize io)) 0 d),
                   recvByte := short_of bytesTrans, totByte := 0\<rparr>, cp))
         else Inr (0, io, cp))
      else
        (let io = io\<lparr>serverMode := OP_READ\<rparr> in
         if recvByte io < 2 then
           (if recvByte io < 0 then Inl IndexOverflow
            else
              sbind (slice (buffer io) 0 (2 - recvByte io)) (\<lambda>h.
              sbind (cl_CharPool_Malloc cp) (\<lambda>(rb, cp).
              let io = io\<lparr>bodySize := short_of_bytes
                             (overwrite (bytes_of_short (bodySize io)) (nat (recvByte io)) h),
                          recvBuffer := rb\<rparr> in
              sbind (slice (buffer io) (2 - recvByte io) (bodySize io + 2 - recvByte io)) (\<lambda>d.
              sbind (cp_write cp (rb + 2) d) (\<lambda>cp.
              if bytesTrans - bodySize io > 0 then
                sbind (slice (buffer io) (bodySize io - recvByte io) bytesTrans) (\<lambda>t.
                Inr (short_of (bytesTrans - (bodySize io - recvByte io)),
                     io\<lparr>buffer := overwrite (buffer io) 0 t\<rparr>, cp))
              else Inr (0, io, cp))))))
         else
           sbind (slice (buffer io) 0 (bodySize io - recvByte io)) (\<lambda>d.
           sbind (cp_write cp (recvBuffer io + nat (recvByte io)) d) (\<lambda>cp.
           if bytesTrans - bodySize io > 0 then
             sbind (slice (buffer io) (bodySize io - recvByte io) bytesTrans) (\<lambda>t.
             Inr (short_of (bytesTrans - (bodySize io - recvByte io)),
                  io\<lparr>buffer := overwrite (buffer io) 0 t\<rparr>, cp))
           else if bytesTrans - bodySize io = 0 then Inr (0, io, cp)
           else
             sbind (slice (buffer io) 2 bytesTrans) (\<lambda>t.
             let io' = io\<lparr>buffer := overwrite (buffer io) 0 t, recvByte := short_of bytesTrans\<rparr> in
             Inr (short_of (bytesTrans - (bodySize io' - recvByte io')), io', cp))))))"

text \<open>The status and the block with the text; the caller prints and frees it.\<close>

definition cl_DataCopy ::
    "PER_IO_DATA \<Rightarrow> CharPool \<Rightarrow> cpp_error + (int \<times> nat) \<times> CharPool" where
  "cl_DataCopy io cp =
     sbind (cp_read cp (recvBuffer io + 2) 4) (\<lambda>st.
     sbind (cl_CharPool_Malloc cp) (\<lambda>(msg, cp).
     sbind (cp_read cp (recvBuffer io + 10) (copy_len io)) (\<lambda>d.
     sbind (cp_write cp msg d) (\<lambda>cp.
     sbind (cl_CharPool_Free (recvBuffer io) cp) (\<lambda>cp.
     Inr ((int_of_bytes st, msg), cp))))))"

section \<open>\<open>RecvMsgThread\<close>\<close>

definition cl_show :: "string \<Rightarrow> client \<Rightarrow> client" where
  "cl_show msg c = c\<lparr>console := console c @ [msg]\<rparr>"

definition cl_cls :: "client \<Rightarrow> client" where
  "cl_cls c = c\<lparr>console := []\<rparr>"

text \<open>
  What the client does with one message from the server. Logged out, waiting and chatting become its
  own status; a whisper is shown without changing it; any other status is dropped.
\<close>

definition cl_update :: "int \<Rightarrow> string \<Rightarrow> client \<Rightarrow> client" where
  "cl_update st msg c =
     (if st \<in> {status_int STATUS_LOGOUT, status_int STATUS_WAITING, status_int STATUS_CHATTIG} then
        cl_show msg ((if clientStatus c \<noteq> st then cl_cls c else c)\<lparr>clientStatus := st\<rparr>)
      else if st = status_int STATUS_WHISPER then cl_show msg c
      else c)"

text \<open>The texts are printed from their block, which then goes back to the pool.\<close>

definition cl_message :: "int \<Rightarrow> nat \<Rightarrow> CharPool \<Rightarrow> client \<Rightarrow> cpp_error + CharPool \<times> client" where
  "cl_message st msg cp c =
     sbind (if st \<in> {status_int STATUS_LOGOUT, status_int STATUS_WAITING, status_int STATUS_CHATTIG,
                     status_int STATUS_WHISPER}
            then sbind (cp_cstr cp msg) (\<lambda>str. Inr (cl_update st str c))
            else Inr c) (\<lambda>c.
     sbind (cl_CharPool_Free msg cp) (\<lambda>cp. Inr (cp, c)))"

text \<open>
  The loop over the packets of one completed receive; None when it does not end. It is the same in
  both clients: \<open>reading\<close> is their \<open>PacketReading\<close>, \<open>handle\<close> what they do with a packet that is complete.
\<close>

partial_function (option) packet_loop ::
    "(PER_IO_DATA \<Rightarrow> int \<Rightarrow> CharPool \<Rightarrow> cpp_error + int \<times> PER_IO_DATA \<times> CharPool) \<Rightarrow>
     (PER_IO_DATA \<Rightarrow> CharPool \<Rightarrow> 'c \<Rightarrow> cpp_error + CharPool \<times> 'c) \<Rightarrow>
     PER_IO_DATA \<Rightarrow> int \<Rightarrow> CharPool \<Rightarrow> 'c \<Rightarrow>
     (cpp_error + int \<times> PER_IO_DATA \<times> CharPool \<times> 'c) option" where
  "packet_loop reading handle io remainByte cp c =
     (case reading io remainByte cp of
        Inl e \<Rightarrow> Some (Inl e)
      | Inr (r, io1, cp1) \<Rightarrow>
          (if r \<ge> 0 then
             (case handle io1 cp1 c of
                Inl e \<Rightarrow> Some (Inl e)
              | Inr (cp2, c') \<Rightarrow>
                  (if r = 0 then Some (Inr (0, io1, cp2, c'))
                   else packet_loop reading handle io1 r cp2 c'))
           else Some (Inr (r, io1, cp1, c))))"

definition cl_handle :: "PER_IO_DATA \<Rightarrow> CharPool \<Rightarrow> client \<Rightarrow> cpp_error + CharPool \<times> client" where
  "cl_handle io cp c = sbind (cl_DataCopy io cp) (\<lambda>((st, msg), cp). cl_message st msg cp c)"

definition cl_recv_loop ::
    "PER_IO_DATA \<Rightarrow> int \<Rightarrow> CharPool \<Rightarrow> client \<Rightarrow>
     (cpp_error + int \<times> PER_IO_DATA \<times> CharPool \<times> client) option" where
  "cl_recv_loop = packet_loop cl_PacketReading cl_handle"

definition cl_give_back :: "nat \<Rightarrow> net \<Rightarrow> cpp_error + net" where
  "cl_give_back i n =
     sbind (cl_MPool_Free i (ioPool n)) (\<lambda>mp. Inr (n\<lparr>ioPool := mp, wire := wire n @ [Freed i]\<rparr>))"

definition cl_recv_completed :: "SOCKET \<Rightarrow> nat \<Rightarrow> nat \<Rightarrow> client \<Rightarrow> cpp_error + client" where
  "cl_recv_completed sock i bytesTrans c =
     (let n = cl_net c in
      sbind (mp_get (ioPool n) i) (\<lambda>io.
      case cl_recv_loop io (short_of (min (short_of (int bytesTrans)) (int BUF_SIZE))) (charPool n) c of
        None \<Rightarrow> Inl Diverges
      | Some r \<Rightarrow>
          sbind r (\<lambda>(remainByte, io, cp, c).
          let n = n\<lparr>charPool := cp, ioPool := mp_set i io (ioPool n)\<rparr> in
          sbind
            (if remainByte = 0 then sbind (cl_give_back i n) (cl_Recv sock)
             else cl_RecvMore sock i n) (\<lambda>n.
          Inr (c\<lparr>cl_net := n\<rparr>)))))"

text \<open>
  One turn of the thread. \<open>bytesTrans\<close> is a \<open>short\<close> handed over as a \<open>LPDWORD\<close>: it keeps the low 16
  bits of the number reported.
\<close>

definition cl_RecvMsgThread ::
    "bool \<Rightarrow> nat \<Rightarrow> SOCKET \<Rightarrow> nat \<Rightarrow> client \<Rightarrow> cpp_error + client" where
  "cl_RecvMsgThread success bytesTrans sock i c =
     (if short_of (int bytesTrans) = 0 \<and> \<not> success then Inl ProcessExit
      else
        sbind (mp_get (ioPool (cl_net c)) i) (\<lambda>io.
        if serverMode io = OP_READ_MORE \<or> serverMode io = OP_READ then
          cl_recv_completed sock i bytesTrans c
        else if serverMode io = OP_WRITE then
          sbind (case wsaBuf_buf io of
                   PoolBuf a \<Rightarrow> cl_CharPool_Free a (charPool (cl_net c)) | _ \<Rightarrow> Inl HeapOverflow) (\<lambda>cp.
          sbind (cl_give_back i ((cl_net c)\<lparr>charPool := cp\<rparr>)) (\<lambda>n. Inr (c\<lparr>cl_net := n\<rparr>)))
        else sbind (cl_give_back i (cl_net c)) (\<lambda>n. Inr (c\<lparr>cl_net := n\<rparr>))))"

text \<open>The kernel has put the received bytes into the structure's buffer before it reports them.\<close>

definition cl_arrives :: "nat \<Rightarrow> char list \<Rightarrow> client \<Rightarrow> client" where
  "cl_arrives i bs c =
     (let n = cl_net c; io = mp_mem (ioPool n) i in
      c\<lparr>cl_net := n\<lparr>ioPool := mp_set i (io\<lparr>buffer := overwrite (buffer io) 0 bs\<rparr>) (ioPool n)\<rparr>\<rparr>)"

section \<open>The keyboard\<close>

definition getline :: "client \<Rightarrow> cpp_error + string \<times> client" where
  "getline c =
     (case keyboard c of [] \<Rightarrow> Inl Blocked | l # ls \<Rightarrow> Inr (l, c\<lparr>keyboard := ls\<rparr>))"

text \<open>The loops that ask until the line is good.\<close>

fun first_good :: "(string \<Rightarrow> bool) \<Rightarrow> string list \<Rightarrow> cpp_error + string \<times> string list" where
  "first_good good [] = Inl Blocked"
| "first_good good (l # ls) = (if good l then Inr (l, ls) else first_good good ls)"

definition ask :: "(string \<Rightarrow> bool) \<Rightarrow> client \<Rightarrow> cpp_error + string \<times> client" where
  "ask good c = sbind (first_good good (keyboard c)) (\<lambda>(l, ls). Inr (l, c\<lparr>keyboard := ls\<rparr>))"

text \<open>\<open>[a-z|A-Z|0-9]+\<close>: the bar stands inside the brackets, so it is accepted as well.\<close>

definition IsAlphaNumber :: "string \<Rightarrow> bool" where
  "IsAlphaNumber str \<longleftrightarrow> str \<noteq> [] \<and>
     list_all (\<lambda>c. let n = (of_char c :: nat) in
       97 \<le> n \<and> n \<le> 122 \<or> n = 124 \<or> 65 \<le> n \<and> n \<le> 90 \<or> 48 \<le> n \<and> n \<le> 57) str"

definition good_account :: "string \<Rightarrow> bool" where
  "good_account l \<longleftrightarrow> l \<noteq> '''' \<and> length l \<le> 10 \<and> IsAlphaNumber l"

definition good_password :: "string \<Rightarrow> bool" where
  "good_password l \<longleftrightarrow> l \<noteq> '''' \<and> 4 \<le> length l \<and> length l \<le> 10 \<and> IsAlphaNumber l"

definition good_nickname :: "string \<Rightarrow> bool" where
  "good_nickname l \<longleftrightarrow> l \<noteq> '''' \<and> length l \<le> 20"

section \<open>Files\<close>

text \<open>\<open>replaceFileDir\<close>: one kind of slash.\<close>

definition replaceFileDir :: "string \<Rightarrow> string" where
  "replaceFileDir fileDir = map (\<lambda>c. if c = CHR 0x5C then CHR 0x2F else c) fileDir"

text \<open>The loop of \<open>FileSend\<close> that erases up to the first slash while there is one.\<close>

function erase_dirs :: "string \<Rightarrow> string" where
  "erase_dirs fileDir =
     (case dropWhile (\<lambda>c. c \<noteq> CHR 0x2F) fileDir of [] \<Rightarrow> fileDir | _ # rest \<Rightarrow> erase_dirs rest)"
  by pat_completeness auto
termination
proof (relation "measure length")
  fix fileDir rest :: string and c assume "dropWhile (\<lambda>c. c \<noteq> CHR 0x2F) fileDir = c # rest"
  then have "Suc (length rest) = length (dropWhile (\<lambda>c. c \<noteq> CHR 0x2F) fileDir)" by simp
  with length_dropWhile_le [of "\<lambda>c. c \<noteq> CHR 0x2F" fileDir]
  show "(rest, fileDir) \<in> measure length" by simp
qed simp

declare erase_dirs.simps [simp del]

text \<open>The name, then the file in pieces as \<open>fread\<close> returns them, the last one empty.\<close>

definition cl_FileSend :: "char list \<Rightarrow> string \<Rightarrow> client \<Rightarrow> cpp_error + client" where
  "cl_FileSend content fileDir c =
     sbind (cstr (strncpy BUF_SIZE (upto_nul (erase_dirs fileDir)))) (\<lambda>fileName.
     Inr (c\<lparr>udp_sent := udp_sent c @ fileName # file_chunks content\<rparr>))"

text \<open>
  One file in \<open>RecvFileThread\<close>, from the queue of datagrams to the disk: the name, then the contents
  until a datagram that is empty or too long.
\<close>

definition cl_RecvFile ::
    "(string \<Rightarrow> bool) \<Rightarrow> char list list \<Rightarrow> (string \<times> char list) list \<Rightarrow>
     cpp_error + char list list \<times> (string \<times> char list) list" where
  "cl_RecvFile creatable ds dsk =
     (case ds of
        [] \<Rightarrow> Inl Blocked
      | d # ds \<Rightarrow>
          if BUF_SIZE \<le> length d then Inl IndexOverflow
          else
            let fileName = upto_nul d; fileDir = ''Downloads'' @ ''/'' @ fileName in
            if BUF_SIZE \<le> length fileDir then Inl IndexOverflow
            else
              sbind (recv_chunks (creatable fileDir) ds []) (\<lambda>(bs, ds').
              if \<not> creatable fileDir then Inl NullPointer
              else Inr (ds', (fileDir, bs) # am_erase fileDir dsk)))"

section \<open>\<open>SendMsgThread\<close>\<close>

text \<open>The outcome of a menu: the next line, or a text to send with its direction and status.\<close>

datatype menu =
    Continue
  | Request string int int

definition no_direction :: int where "no_direction = -1"

text \<open>\<open>STATUS_LOGOUT\<close>.\<close>

definition menu_logout :: "string \<Rightarrow> client \<Rightarrow> cpp_error + menu \<times> client" where
  "menu_logout msg c =
     (if msg = ''1'' then
        sbind (ask good_account c) (\<lambda>(msg, c).
        sbind (ask good_password c) (\<lambda>(password1, c).
        sbind (ask (\<lambda>l. l \<noteq> '''' \<and> l = password1) c) (\<lambda>(_, c).
        sbind (ask good_nickname c) (\<lambda>(nickname, c).
        Inr (Request (msg @ [CHR 0x5C] @ password1 @ [CHR 0x5C] @ nickname)
               (int_of_direction USER_MAKE) (status_int STATUS_LOGOUT), c)))))
      else if msg = ''2'' then
        sbind (getline c) (\<lambda>(msg, c).
        sbind (getline c) (\<lambda>(password, c).
        Inr (Request (msg @ [CHR 0x5C] @ password)
               (int_of_direction USER_ENTER) (status_int STATUS_LOGOUT), c)))
      else if msg = ''3'' then Inl ProcessExit
      else if msg = ''4'' then Inr (Continue, cl_show cl_loginBeforeMessage (cl_cls c))
      else Inr (Request msg no_direction (-1), c))"

text \<open>
  \<open>STATUS_WAITING\<close>. In the friend menu the test for 1 is an \<open>if\<close> of its own, and an unknown choice
  leaves the 6 in \<open>msg\<close>.
\<close>

definition menu_friends :: "string \<Rightarrow> client \<Rightarrow> cpp_error + menu \<times> client" where
  "menu_friends msg c =
     sbind (getline c) (\<lambda>(direct, c).
     sbind (if direct = ''1'' then
              sbind (getline c) (\<lambda>(msg, c). Inr (msg, int_of_direction FRIEND_ADD, c))
            else Inr (msg, no_direction, c)) (\<lambda>(msg, direction, c).
     if direct = ''2'' then
       sbind (getline c) (\<lambda>(msg, c). Inr (Request msg (int_of_direction FRIEND_GO) (-1), c))
     else if direct = ''3'' then
       sbind (getline c) (\<lambda>(msg, c). Inr (Request msg (int_of_direction FRIEND_DELETE) (-1), c))
     else Inr (Request msg direction (-1), c)))"

definition menu_waiting :: "string \<Rightarrow> client \<Rightarrow> cpp_error + menu \<times> client" where
  "menu_waiting msg c =
     (if msg = ''1'' then Inr (Request msg (int_of_direction ROOM_INFO) (-1), c)
      else if msg = ''2'' then
        sbind (getline c) (\<lambda>(msg, c). Inr (Request msg (int_of_direction ROOM_MAKE) (-1), c))
      else if msg = ''3'' then
        sbind (getline c) (\<lambda>(msg, c). Inr (Request msg (int_of_direction ROOM_ENTER) (-1), c))
      else if msg = ''4'' then Inr (Request msg (int_of_direction ROOM_USER_INFO) (-1), c)
      else if msg = ''5'' then Inr (Request msg (int_of_direction FRIEND_INFO) (-1), c)
      else if msg = ''6'' then menu_friends msg c
      else if msg = ''7'' then
        sbind (getline c) (\<lambda>(msg, c).
        sbind (getline c) (\<lambda>(Msg, c).
        Inr (Request (msg @ [CHR 0x5C] @ Msg) (int_of_direction WHISPER) (-1), c)))
      else if msg = ''8'' then Inr (Request msg (int_of_direction LOG_OUT) (-1), c)
      else if msg = ''9'' then Inr (Request msg (int_of_direction USER_GOOD_INFO) (-1), c)
      else if msg = ''10'' then Inr (Continue, cl_show cl_waitRoomMessage (cl_cls c))
      else Inr (Request msg no_direction (-1), c))"

definition s_clear :: string where "s_clear = CHR 0x5C # ''clear''"
definition s_good :: string where "s_good = CHR 0x5C # ''good''"
definition s_send :: string where "s_send = CHR 0x5C # ''send''"

text \<open>\<open>STATUS_CHATTIG\<close>. \<open>files\<close> is what \<open>fopen\<close> finds. The file is announced with an empty packet.\<close>

definition menu_chatting ::
    "(nat \<Rightarrow> char) \<Rightarrow> (string \<Rightarrow> char list option) \<Rightarrow> SOCKET \<Rightarrow> string \<Rightarrow> client \<Rightarrow>
     cpp_error + menu \<times> client" where
  "menu_chatting past files clientSock msg c =
     (if msg = s_clear then Inr (Continue, cl_show cl_chatRoomMessage (cl_cls c))
      else if contains s_good msg then
        sbind (getline c) (\<lambda>(msg, c). Inr (Request msg (int_of_direction USER_GOOD) (-1), c))
      else if contains s_send msg then
        sbind (getline c) (\<lambda>(fileDir, c).
        let fileDir = replaceFileDir fileDir in
        case files (upto_nul fileDir) of
          None \<Rightarrow> Inr (Continue, c)
        | Some content \<Rightarrow>
            sbind (cl_SendMsg past clientSock '''' (-1) (int_of_direction FILE_SEND) (cl_net c)) (\<lambda>n.
            sbind (cl_FileSend content fileDir (c\<lparr>cl_net := n\<rparr>)) (\<lambda>c. Inr (Continue, c))))
      else Inr (Request msg no_direction (-1), c))"

text \<open>One turn of the thread: a line, the menu of the current status, the packet.\<close>

definition cl_SendMsgThread ::
    "(nat \<Rightarrow> char) \<Rightarrow> (string \<Rightarrow> char list option) \<Rightarrow> SOCKET \<Rightarrow> client \<Rightarrow> cpp_error + client" where
  "cl_SendMsgThread past files clientSock c =
     sbind (getline c) (\<lambda>(msg, c).
     sbind
       (if clientStatus c = status_int STATUS_LOGOUT then menu_logout msg c
        else if clientStatus c = status_int STATUS_WAITING then menu_waiting msg c
        else if clientStatus c = status_int STATUS_CHATTIG then
          menu_chatting past files clientSock msg c
        else Inr (Request msg no_direction (-1), c)) (\<lambda>(act, c).
     case act of
       Continue \<Rightarrow> Inr c
     | Request msg direction st \<Rightarrow>
         if msg = '''' then Inr c
         else
           sbind (cl_SendMsg past clientSock msg st direction (cl_net c)) (\<lambda>n.
           Inr (c\<lparr>cl_net := n\<rparr>))))"

text \<open>The start: \<open>clientStatus\<close> is a global, zero until the server has sent a status.\<close>

definition cl_main :: "(nat \<Rightarrow> char) \<Rightarrow> (nat \<Rightarrow> PER_IO_DATA) \<Rightarrow> nat \<Rightarrow> string list \<Rightarrow> SOCKET \<Rightarrow>
    cpp_error + client" where
  "cl_main mem ios brk lines sock =
     sbind (cl_Recv sock \<lparr>charPool = cl_CharPool_new mem brk, ioPool = cl_MPool_new ios brk, wire = []\<rparr>)
       (\<lambda>n. Inr \<lparr>clientStatus = status_int STATUS_INIT, cl_net = n, console = [], keyboard = lines,
                 udp_sent = []\<rparr>)"

end
