(* ===== verification/ClientCorrect.thy ===== *)
theory ClientCorrect
  imports Client
begin

text \<open>
  The client keeps its pools in order, sends well-formed packets, and shows what the server sends,
  in order, once each.
\<close>

definition cl_net_inv :: "net \<Rightarrow> nat set \<Rightarrow> nat set \<Rightarrow> bool" where
  "cl_net_inv n co mo \<longleftrightarrow> cl_inv (charPool n) co \<and> mp_inv (ioPool n) mo"

lemma cl_MPool_Malloc_Inr:
  assumes "mp_inv p mo"
  obtains i p' where "cl_MPool_Malloc p = Inr (i, p')" "i \<notin> mo" "mp_inv p' (insert i mo)"
    "\<forall>b\<in>mo. mp_mem p' b = mp_mem p b" "mp_get p' i = Inr (mp_mem p' i)"
proof -
  obtain i p' where m: "MPool_Malloc p = Inr (i, p')" "i \<notin> mo" "mp_inv p' (insert i mo)"
    using ok_MPool_Malloc_Inr [OF assms] .
  show thesis
    using m MPool_Malloc_mem [OF assms m(1)] ok_mp_get [OF m(3)]
    by (intro that) (auto simp: cl_MPool_Malloc_eq)
qed

section \<open>Sending\<close>

text \<open>Up to 4075 bytes of text fit the client's blocks.\<close>

lemma cl_packet_len: "nul_free msg \<Longrightarrow> length msg + 21 \<le> cl_BLOCK_SIZE \<Longrightarrow> packet_len msg = length msg + 11"
  by (simp add: packet_len_def upto_nul_id cl_BLOCK_SIZE_def BUF_SIZE_def)

lemma cl_text_bytes: "nul_free msg \<Longrightarrow> length msg + 21 \<le> cl_BLOCK_SIZE \<Longrightarrow>
    text_bytes past msg = (msg @ [NUL]) @ map past [0..<10]"
  by (simp add: text_bytes_def cl_packet_len upto_nul_id)

lemma cl_fill_packet_ok:
  assumes inv: "cl_inv cp (insert a out)" and a: "a \<notin> out"
    and msg: "nul_free msg" "length msg + 21 \<le> cl_BLOCK_SIZE"
  obtains cp' where "cl_fill_packet past msg st dir a cp = Inr cp'" "cl_inv cp' (insert a out)"
    "same_on cl_BLOCK_SIZE out cp cp'"
    "cp_read cp' a (packet_len msg) = Inr (wire_packet st dir msg)"
proof -
  let ?L = "bytes_of_short (int (length msg + 11))" and ?S = "bytes_of_int st" and ?D = "bytes_of_int dir"
  let ?T = "(msg @ [NUL]) @ map past [0..<10]"
  have room: "length msg + 21 \<le> 4096" using msg(2) by (simp add: cl_BLOCK_SIZE_def)
  have z: "holds cp a []" by (simp add: holds_def)
  obtain p1 where 1: "cp_write cp (a + length []) ?L = Inr p1" "cl_inv p1 (insert a out)"
      "same_on cl_BLOCK_SIZE out cp p1" "holds p1 a ([] @ ?L)"
    by (rule ccp.write_next [OF inv a z, of ?L]) (simp_all add: cl_BLOCK_SIZE_def)
  obtain p2 where 2: "cp_write p1 (a + length ([] @ ?L)) ?S = Inr p2" "cl_inv p2 (insert a out)"
      "same_on cl_BLOCK_SIZE out p1 p2" "holds p2 a (([] @ ?L) @ ?S)"
    by (rule ccp.write_next [OF 1(2) a 1(4), of ?S]) (simp_all add: cl_BLOCK_SIZE_def)
  obtain p3 where 3: "cp_write p2 (a + length (([] @ ?L) @ ?S)) ?D = Inr p3" "cl_inv p3 (insert a out)"
      "same_on cl_BLOCK_SIZE out p2 p3" "holds p3 a ((([] @ ?L) @ ?S) @ ?D)"
    by (rule ccp.write_next [OF 2(2) a 2(4), of ?D]) (simp_all add: cl_BLOCK_SIZE_def)
  obtain p4 where 4: "cp_write p3 (a + length ((([] @ ?L) @ ?S) @ ?D)) ?T = Inr p4"
      "cl_inv p4 (insert a out)" "same_on cl_BLOCK_SIZE out p3 p4"
      "holds p4 a (((([] @ ?L) @ ?S) @ ?D) @ ?T)"
    by (rule ccp.write_next [OF 3(2) a 3(4), of ?T]) (use room in \<open>simp_all add: cl_BLOCK_SIZE_def\<close>)
  have "cl_fill_packet past msg st dir a cp = Inr p4"
    using 1(1) 2(1) 3(1) 4(1)
    by (simp add: cl_fill_packet_def cl_packet_len [OF msg] cl_text_bytes [OF msg] add.commute)
  moreover have "same_on cl_BLOCK_SIZE out cp p4"
    using 1(3) 2(3) 3(3) 4(3) by (auto simp: same_on_def)
  moreover have "cp_read p4 a (packet_len msg) = Inr (wire_packet st dir msg)"
  proof -
    have e: "(((([] @ ?L) @ ?S) @ ?D) @ ?T) = wire_packet st dir msg @ map past [0..<10]"
      by (simp add: wire_packet_def)
    have "holds p4 a (wire_packet st dir msg)" using 4(4) unfolding e holds_append by blast
    moreover have "in_region (cp_regions p4) a (length (wire_packet st dir msg))"
      by (rule ccp.sub_region [OF 4(2) insertI1])
         (use room in \<open>simp_all add: wire_packet_def cl_BLOCK_SIZE_def\<close>)
    ultimately show ?thesis
      using holds_read [of p4 a "wire_packet st dir msg"]
      by (simp add: cl_packet_len [OF msg] wire_packet_def add.commute)
  qed
  ultimately show thesis using 4(2) that by blast
qed

lemma cl_SendMsg_ok:
  assumes inv: "cl_net_inv n co mo" and msg: "nul_free msg" "length msg + 21 \<le> cl_BLOCK_SIZE"
  shows "ok (cl_SendMsg past sock msg st dir n) (\<lambda>n'. \<exists>i a. i \<notin> mo \<and> a \<notin> co \<and>
    cl_net_inv n' (insert a co) (insert i mo) \<and>
    same_on cl_BLOCK_SIZE co (charPool n) (charPool n') \<and>
    (\<forall>b\<in>mo. mp_mem (ioPool n') b = mp_mem (ioPool n) b) \<and>
    serverMode (mp_mem (ioPool n') i) = OP_WRITE \<and> wsaBuf_buf (mp_mem (ioPool n') i) = PoolBuf a \<and>
    wire n' = wire n @ [WSASend sock (wire_packet st dir msg) i])"
proof -
  obtain i mp where mp: "cl_MPool_Malloc (ioPool n) = Inr (i, mp)" "i \<notin> mo" "mp_inv mp (insert i mo)"
      "\<forall>b\<in>mo. mp_mem mp b = mp_mem (ioPool n) b" "mp_get mp i = Inr (mp_mem mp i)"
    using inv by (auto simp: cl_net_inv_def elim: cl_MPool_Malloc_Inr)
  obtain a cp1 where m: "cl_CharPool_Malloc (charPool n) = Inr (a, cp1)" "a \<notin> co"
      "cl_inv cp1 (insert a co)" "same_on cl_BLOCK_SIZE co (charPool n) cp1"
    using inv by (auto simp: cl_net_inv_def elim: ccp.malloc_Inr)
  obtain cp2 where f: "cl_fill_packet past msg st dir a cp1 = Inr cp2" "cl_inv cp2 (insert a co)"
      "same_on cl_BLOCK_SIZE co cp1 cp2"
      "cp_read cp2 a (packet_len msg) = Inr (wire_packet st dir msg)"
    using cl_fill_packet_ok [OF m(3,2) msg] .
  show ?thesis
    using mp m f same_on_trans [OF m(4) f(3)] by (auto simp: cl_SendMsg_def cl_net_inv_def)
qed

section \<open>Receiving\<close>

lemma cl_PacketReading_packet:
  assumes inv: "cl_inv cp out" and mode: "serverMode io = OP_READ"
    and len: "length (buffer io) = BUF_SIZE" "length msg \<le> MAX_TEXT"
    and buf: "take n (buffer io) = wire_packet st dir msg @ rest"
    and n: "n = length msg + 11 + length rest" "n \<le> BUF_SIZE"
  obtains rb io' cp' where "cl_PacketReading io (int n) cp = Inr (int (length rest), io', cp')"
    "rb \<notin> out" "cl_inv cp' (insert rb out)" "same_on cl_BLOCK_SIZE out cp cp'"
    "recvBuffer io' = rb" "bodySize io' = int (length msg + 11)" "serverMode io' = OP_READ"
    "length (buffer io') = BUF_SIZE" "take (length rest) (buffer io') = rest"
    "holds cp' rb (wire_packet st dir msg)"
proof -
  let ?P = "wire_packet st dir msg" and ?B = "length msg + 11"
  note front = packet_front [OF len(1) buf n]
  obtain a cp1 where m: "cl_CharPool_Malloc cp = Inr (a, cp1)" "a \<notin> out" "cl_inv cp1 (insert a out)"
      "same_on cl_BLOCK_SIZE out cp cp1"
    using ccp.malloc_Inr [OF inv] .
  obtain cp2 where w: "cp_write cp1 a ?P = Inr cp2" "cl_inv cp2 (insert a out)"
      "same_on cl_BLOCK_SIZE out cp1 cp2" "holds cp2 a ?P"
    by (rule ccp.write_block [OF m(3,2), of a ?P])
       (use len(2) in \<open>simp_all add: MAX_TEXT_def cl_BLOCK_SIZE_def\<close>)
  have sb: "same_on cl_BLOCK_SIZE out cp cp2" using m(4) w(3) by (rule same_on_trans)
  show thesis
  proof (cases "rest = []")
    case True
    then have "int n = int ?B" using n by simp
    then have "cl_PacketReading io (int n) cp =
        Inr (0, io\<lparr>bodySize := int ?B, recvBuffer := a\<rparr>, cp2)"
      using mode front m(1) w(1) by (simp add: cl_PacketReading_def)
    with True m w sb len mode show thesis
      by (intro that [of "io\<lparr>bodySize := int ?B, recvBuffer := a\<rparr>" cp2 a]) simp_all
  next
    case False
    then have d: "0 < int n - int ?B" "int n - int ?B \<le> int BUF_SIZE" using n by simp_all
    then have "cl_PacketReading io (int n) cp = Inr (int (length rest),
        io\<lparr>bodySize := int ?B, recvBuffer := a, buffer := overwrite (buffer io) 0 rest\<rparr>, cp2)"
      using mode front m(1) w(1) by (simp add: cl_PacketReading_def)
    with m w sb len n mode show thesis
      by (intro that [of "io\<lparr>bodySize := int ?B, recvBuffer := a,
            buffer := overwrite (buffer io) 0 rest\<rparr>" cp2 a]) (simp_all add: overwrite_def)
  qed
qed

text \<open>One message from its block into a block of its own.\<close>

lemma cl_DataCopy_packet:
  assumes inv: "cl_inv cp (insert rb out)" and rb: "rb \<notin> out" "recvBuffer io = rb"
    and size: "bodySize io = int (length msg + 11)" and msg: "nul_free msg" "length msg \<le> MAX_TEXT"
    and body: "holds cp rb (wire_packet st dir msg)"
  obtains m cp' where "cl_DataCopy io cp = Inr ((int32_of st, m), cp')" "m \<notin> out"
    "cl_inv cp' (insert m out)" "same_on cl_BLOCK_SIZE out cp cp'" "cp_cstr cp' m = Inr msg"
proof -
  have len: "10 \<le> cl_BLOCK_SIZE" "length msg + 21 \<le> cl_BLOCK_SIZE"
    using msg(2) by (simp_all add: MAX_TEXT_def cl_BLOCK_SIZE_def)
  have "holds cp (rb + 2) (bytes_of_int st @ bytes_of_int dir @ msg @ [NUL])"
    using body holds_append [of cp rb "bytes_of_short (int (length msg + 11))"]
    by (simp add: wire_packet_def)
  note fields = ccp.packet_fields [OF inv len(1) this]
  obtain m p1 d p2 p3 where p: "cl_CharPool_Malloc cp = Inr (m, p1)"
      "cp_read p1 (rb + 10) (length msg + 11) = Inr d" "cp_write p1 m d = Inr p2"
      "cl_CharPool_Free rb p2 = Inr p3" "m \<notin> out" "cl_inv p3 (insert m out)"
      "same_on cl_BLOCK_SIZE out cp p3" "cp_cstr p3 m = Inr msg"
    using ccp.copy_text [OF inv rb(1) msg(1) len(2) fields(3)] .
  have "cl_DataCopy io cp = Inr ((int32_of st, m), p3)"
    using fields(1) p(1-4) rb(2) copy_len_packet [OF msg(2) size]
    by (simp add: cl_DataCopy_def int_of_bytes_inverse)
  then show thesis using p(5-8) by (rule that)
qed

lemma packet_of_not_Nil: "packet_of m \<noteq> []"
  by (cases m) (simp add: packet_of_def wire_packet_def)

text \<open>
  What the loop needs of a client: a whole packet at the front of the buffer is split off, and its
  handling leaves the pool as it was and the client as \<open>receive\<close> says. \<open>valid\<close> is what handling relies on.
\<close>

locale packet_client =
  fixes reading :: "PER_IO_DATA \<Rightarrow> int \<Rightarrow> CharPool \<Rightarrow> cpp_error + int \<times> PER_IO_DATA \<times> CharPool"
    and handle :: "PER_IO_DATA \<Rightarrow> CharPool \<Rightarrow> 'c \<Rightarrow> cpp_error + CharPool \<times> 'c"
    and receive :: "message \<Rightarrow> 'c \<Rightarrow> 'c"
    and valid :: "'c \<Rightarrow> bool"
  assumes reading_packet: "cl_inv cp out \<Longrightarrow> serverMode io = OP_READ \<Longrightarrow>
      length (buffer io) = BUF_SIZE \<Longrightarrow> length msg \<le> MAX_TEXT \<Longrightarrow>
      take n (buffer io) = wire_packet st dir msg @ rest \<Longrightarrow>
      n = length msg + 11 + length rest \<Longrightarrow> n \<le> BUF_SIZE \<Longrightarrow>
      \<exists>rb io' cp'. reading io (int n) cp = Inr (int (length rest), io', cp') \<and>
        rb \<notin> out \<and> cl_inv cp' (insert rb out) \<and> same_on cl_BLOCK_SIZE out cp cp' \<and>
        recvBuffer io' = rb \<and> bodySize io' = int (length msg + 11) \<and> serverMode io' = OP_READ \<and>
        length (buffer io') = BUF_SIZE \<and> take (length rest) (buffer io') = rest \<and>
        holds cp' rb (wire_packet st dir msg)"
    and handle_packet: "cl_inv cp (insert rb out) \<Longrightarrow> rb \<notin> out \<Longrightarrow> recvBuffer io = rb \<Longrightarrow>
      bodySize io = int (length msg + 11) \<Longrightarrow> nul_free msg \<Longrightarrow> length msg \<le> MAX_TEXT \<Longrightarrow>
      holds cp rb (wire_packet st dir msg) \<Longrightarrow> valid c \<Longrightarrow>
      \<exists>cp'. handle io cp c = Inr (cp', receive (st, dir, msg) c) \<and> cl_inv cp' out \<and>
        same_on cl_BLOCK_SIZE out cp cp'"
    and valid_receive: "valid c \<Longrightarrow> valid (receive m c)"
begin

lemma loop_step:
  assumes inv: "cl_inv cp out" and mode: "serverMode io = OP_READ"
    and len: "length (buffer io) = BUF_SIZE" "n \<le> BUF_SIZE"
    and m: "sendable m" and c: "valid c"
    and buf: "take n (buffer io) = packet_of m @ rest" "n = length (packet_of m) + length rest"
  obtains io' cp' where "cl_inv cp' out" "same_on cl_BLOCK_SIZE out cp cp'" "serverMode io' = OP_READ"
    "length (buffer io') = BUF_SIZE" "take (length rest) (buffer io') = rest"
    "packet_loop reading handle io (int n) cp c =
      (if rest = [] then Some (Inr (0, io', cp', receive m c))
       else packet_loop reading handle io' (int (length rest)) cp' (receive m c))"
proof -
  obtain st dir msg where M: "m = (st, dir, msg)" by (cases m)
  have msg: "nul_free msg" "length msg \<le> MAX_TEXT" using m M by (auto simp: sendable_def)
  have b: "take n (buffer io) = wire_packet st dir msg @ rest" "n = length msg + 11 + length rest"
    using buf M by (simp_all add: packet_of_def)
  obtain rb io1 cp1 where r: "reading io (int n) cp = Inr (int (length rest), io1, cp1)"
      "rb \<notin> out" "cl_inv cp1 (insert rb out)" "same_on cl_BLOCK_SIZE out cp cp1" "recvBuffer io1 = rb"
      "bodySize io1 = int (length msg + 11)" "serverMode io1 = OP_READ"
      "length (buffer io1) = BUF_SIZE" "take (length rest) (buffer io1) = rest"
      "holds cp1 rb (wire_packet st dir msg)"
    using reading_packet [OF inv mode len(1) msg(2) b len(2)] by blast
  obtain cp2 where k: "handle io1 cp1 c = Inr (cp2, receive m c)"
      "cl_inv cp2 out" "same_on cl_BLOCK_SIZE out cp1 cp2"
    using handle_packet [OF r(3,2,5,6) msg r(10) c] M by blast
  show thesis
  proof (rule that [OF k(2) same_on_trans [OF r(4) k(3)] r(7-9)])
    show "packet_loop reading handle io (int n) cp c =
      (if rest = [] then Some (Inr (0, io1, cp2, receive m c))
       else packet_loop reading handle io1 (int (length rest)) cp2 (receive m c))"
      using r(1) k(1) by (subst packet_loop.simps) simp
  qed
qed

lemma loop_packets:
  assumes "cl_inv cp out" and "serverMode io = OP_READ" and "length (buffer io) = BUF_SIZE"
    and "ms \<noteq> []" and "\<forall>m\<in>set ms. sendable m" and "valid c"
    and "take n (buffer io) = concat (map packet_of ms)"
    and "n = length (concat (map packet_of ms))" and "n \<le> BUF_SIZE"
  shows "\<exists>io' cp'. packet_loop reading handle io (int n) cp c =
      Some (Inr (0, io', cp', fold receive ms c)) \<and>
      cl_inv cp' out \<and> same_on cl_BLOCK_SIZE out cp cp' \<and> length (buffer io') = BUF_SIZE"
  using assms
proof (induction ms arbitrary: io cp c n)
  case Nil
  then show ?case by simp
next
  case (Cons m ms)
  let ?rest = "concat (map packet_of ms)"
  have m: "sendable m" "valid c" "take n (buffer io) = packet_of m @ ?rest"
    "n = length (packet_of m) + length ?rest"
    using Cons.prems(5-8) by simp_all
  obtain io1 cp1 where s: "cl_inv cp1 out" "same_on cl_BLOCK_SIZE out cp cp1" "serverMode io1 = OP_READ"
      "length (buffer io1) = BUF_SIZE" "take (length ?rest) (buffer io1) = ?rest"
      "packet_loop reading handle io (int n) cp c =
        (if ?rest = [] then Some (Inr (0, io1, cp1, receive m c))
         else packet_loop reading handle io1 (int (length ?rest)) cp1 (receive m c))"
    using loop_step [OF Cons.prems(1-3,9) m] .
  show ?case
  proof (cases "ms = []")
    case True
    with s show ?thesis by (intro exI [of _ io1] exI [of _ cp1]) simp
  next
    case False
    then have ne: "?rest \<noteq> []" using packet_of_not_Nil by (cases ms) auto
    obtain io' cp' where "packet_loop reading handle io1 (int (length ?rest)) cp1 (receive m c) =
        Some (Inr (0, io', cp', fold receive ms (receive m c)))"
        "cl_inv cp' out" "same_on cl_BLOCK_SIZE out cp1 cp'" "length (buffer io') = BUF_SIZE"
      using Cons.IH [OF s(1,3,4) False _ valid_receive [OF m(2), of m] s(5) refl] Cons.prems(5,8,9) by auto
    with s ne show ?thesis
      by (intro exI [of _ io'] exI [of _ cp']) (auto intro: same_on_trans)
  qed
qed

end

section \<open>The console client\<close>

definition cl_receive :: "message \<Rightarrow> client \<Rightarrow> client" where
  "cl_receive m c = (case m of (st, _, msg) \<Rightarrow> cl_update (int32_of st) msg c)"

interpretation clp: packet_client cl_PacketReading cl_handle cl_receive "\<lambda>_. True"
proof
  fix cp out and io :: PER_IO_DATA and n msg st dir rest
  assume "cl_inv cp out" "serverMode io = OP_READ" "length (buffer io) = BUF_SIZE"
    "length msg \<le> MAX_TEXT" "take n (buffer io) = wire_packet st dir msg @ rest"
    "n = length msg + 11 + length rest" "n \<le> BUF_SIZE"
  from cl_PacketReading_packet [OF this]
  show "\<exists>rb io' cp'. cl_PacketReading io (int n) cp = Inr (int (length rest), io', cp') \<and>
        rb \<notin> out \<and> cl_inv cp' (insert rb out) \<and> same_on cl_BLOCK_SIZE out cp cp' \<and>
        recvBuffer io' = rb \<and> bodySize io' = int (length msg + 11) \<and> serverMode io' = OP_READ \<and>
        length (buffer io') = BUF_SIZE \<and> take (length rest) (buffer io') = rest \<and>
        holds cp' rb (wire_packet st dir msg)"
    by metis
next
  fix cp rb out and io :: PER_IO_DATA and msg st dir c
  assume p: "cl_inv cp (insert rb out)" "rb \<notin> out" "recvBuffer io = rb"
    "bodySize io = int (length msg + 11)" "nul_free msg" "length msg \<le> MAX_TEXT"
    "holds cp rb (wire_packet st dir msg)"
  obtain m p3 where d: "cl_DataCopy io cp = Inr ((int32_of st, m), p3)" "m \<notin> out"
      "cl_inv p3 (insert m out)" "same_on cl_BLOCK_SIZE out cp p3" "cp_cstr p3 m = Inr msg"
    using cl_DataCopy_packet [OF p] .
  obtain p4 where f: "cl_CharPool_Free m p3 = Inr p4" "cl_inv p4 out" "same_on cl_BLOCK_SIZE out p3 p4"
    using ccp.free_block [OF d(3,2)] .
  have "cl_handle io cp c = Inr (p4, cl_receive (st, dir, msg) c)"
    using d(1,5) f(1) by (simp add: cl_handle_def cl_message_def cl_receive_def cl_update_def)
  with f(2) same_on_trans [OF d(4) f(3)]
  show "\<exists>cp'. cl_handle io cp c = Inr (cp', cl_receive (st, dir, msg) c) \<and> cl_inv cp' out \<and>
      same_on cl_BLOCK_SIZE out cp cp'"
    by blast
qed simp

text \<open>Showing messages leaves the rest of the client alone.\<close>

lemma cl_receive_simps [simp]:
  "cl_net (cl_receive m c) = cl_net c" "keyboard (cl_receive m c) = keyboard c"
  "udp_sent (cl_receive m c) = udp_sent c"
  by (simp_all add: cl_receive_def cl_update_def cl_show_def cl_cls_def split: prod.split)

lemma fold_receive_simps [simp]:
  "cl_net (fold cl_receive ms c) = cl_net c" "keyboard (fold cl_receive ms c) = keyboard c"
  "udp_sent (fold cl_receive ms c) = udp_sent c"
  by (induction ms arbitrary: c) simp_all

lemma cl_receive_net: "cl_receive m (c\<lparr>cl_net := n\<rparr>) = (cl_receive m c)\<lparr>cl_net := n\<rparr>"
  by (simp add: cl_receive_def cl_update_def cl_show_def cl_cls_def split: prod.split)

lemma fold_receive_net: "fold cl_receive ms (c\<lparr>cl_net := n\<rparr>) = (fold cl_receive ms c)\<lparr>cl_net := n\<rparr>"
  by (induction ms arbitrary: c) (simp_all add: cl_receive_net)

text \<open>The status is the last one that is a client's status.\<close>

definition own_status :: "int \<Rightarrow> bool" where
  "own_status st \<longleftrightarrow>
     st \<in> {status_int STATUS_LOGOUT, status_int STATUS_WAITING, status_int STATUS_CHATTIG}"

lemma clientStatus_receive: "clientStatus (cl_receive (st, dir, msg) c) =
    (if own_status (int32_of st) then int32_of st else clientStatus c)"
  unfolding cl_receive_def cl_update_def own_status_def by (simp add: cl_show_def)

lemma clientStatus_fold: "clientStatus (fold cl_receive ms c) =
    last (clientStatus c # filter own_status (map (int32_of \<circ> fst) ms))"
proof (induction ms arbitrary: c)
  case (Cons m ms)
  then show ?case by (cases m) (simp add: clientStatus_receive)
qed simp

text \<open>A structure comes back to the pool; a receive takes one.\<close>

lemma cl_next_recv:
  assumes inv: "cl_net_inv n co (insert i mo)" and i: "i \<notin> mo"
  shows "ok (sbind (cl_give_back i n) (cl_Recv sock)) (\<lambda>n'. \<exists>j. j \<notin> mo \<and>
    cl_net_inv n' co (insert j mo) \<and> wire n' = wire n @ [Freed i, WSARecv sock j] \<and>
    serverMode (mp_mem (ioPool n') j) = OP_READ)"
proof -
  have "insert i mo - {i} = mo" using i by blast
  then obtain mp where f: "cl_MPool_Free i (ioPool n) = Inr mp" "mp_inv mp mo"
    using cmp.free_ok [of "ioPool n" "insert i mo" i] inv by (auto simp: cl_net_inv_def ok_iff)
  obtain j mp' where m: "cl_MPool_Malloc mp = Inr (j, mp')" "j \<notin> mo" "mp_inv mp' (insert j mo)"
      "mp_get mp' j = Inr (mp_mem mp' j)"
    using cl_MPool_Malloc_Inr [OF f(2)] by metis
  show ?thesis using f m inv by (simp add: cl_give_back_def cl_Recv_def cl_net_inv_def)
qed

text \<open>A completed receive of whole packets.\<close>

lemma cl_completion:
  assumes inv: "cl_net_inv (cl_net c) co (insert i mo)" and i: "i \<notin> mo"
    and io: "serverMode (mp_mem (ioPool (cl_net c)) i) = OP_READ"
      "length (buffer (mp_mem (ioPool (cl_net c)) i)) = BUF_SIZE"
    and ms: "ms \<noteq> []" "\<forall>m\<in>set ms. sendable m"
    and bs: "bs = concat (map packet_of ms)" "length bs \<le> BUF_SIZE"
  shows "ok (cl_RecvMsgThread True (length bs) sock i (cl_arrives i bs c)) (\<lambda>c'. \<exists>j n.
    c' = (fold cl_receive ms c)\<lparr>cl_net := n\<rparr> \<and> j \<notin> mo \<and> cl_net_inv n co (insert j mo) \<and>
    wire n = wire (cl_net c) @ [Freed i, WSARecv sock j] \<and>
    serverMode (mp_mem (ioPool n) j) = OP_READ)"
proof -
  let ?io = "(mp_mem (ioPool (cl_net c)) i)"
  let ?io1 = "?io\<lparr>buffer := overwrite (buffer ?io) 0 bs\<rparr>"
  let ?n1 = "(cl_net c)\<lparr>ioPool := mp_set i ?io1 (ioPool (cl_net c))\<rparr>"
  let ?c1 = "c\<lparr>cl_net := ?n1\<rparr>"
  have arr: "cl_arrives i bs c = ?c1" by (simp add: cl_arrives_def Let_def)
  have buf: "length (buffer ?io1) = BUF_SIZE" "take (length bs) (buffer ?io1) = concat (map packet_of ms)"
    using io(2) bs by (simp_all add: overwrite_def)
  have cp: "cl_inv (charPool ?n1) co" and mp: "mp_inv (ioPool ?n1) (insert i mo)"
    using inv by (simp_all add: cl_net_inv_def)
  have get: "mp_get (ioPool ?n1) i = Inr ?io1" using ok_mp_get [OF mp] by simp
  have short: "short_of (min (short_of (int (length bs))) (int BUF_SIZE)) = int (length bs)"
    using bs(2) by (simp add: BUF_SIZE_def short_of_id)
  obtain io' cp' where loop: "cl_recv_loop ?io1 (int (length bs)) (charPool ?n1) ?c1 =
      Some (Inr (0, io', cp', fold cl_receive ms ?c1))" "cl_inv cp' co"
    using clp.loop_packets [OF cp _ buf(1) ms TrueI buf(2) arg_cong [OF bs(1), of length] bs(2), of ?c1] io(1)
    by (auto simp: cl_recv_loop_def)
  let ?n2 = "?n1\<lparr>charPool := cp', ioPool := mp_set i io' (ioPool ?n1)\<rparr>"
  have "cl_net_inv ?n2 co (insert i mo)" using loop(2) mp by (simp add: cl_net_inv_def)
  from cl_next_recv [OF this i, of sock] obtain n j where n:
      "sbind (cl_give_back i ?n2) (cl_Recv sock) = Inr n" "j \<notin> mo" "cl_net_inv n co (insert j mo)"
      "wire n = wire (cl_net c) @ [Freed i, WSARecv sock j]" "serverMode (mp_mem (ioPool n) j) = OP_READ"
    by (auto simp: ok_iff)
  have "cl_recv_completed sock i (length bs) ?c1 = Inr ((fold cl_receive ms ?c1)\<lparr>cl_net := n\<rparr>)"
    using get short loop(1) n(1) by (simp add: cl_recv_completed_def Let_def)
  then have "cl_RecvMsgThread True (length bs) sock i ?c1 = Inr ((fold cl_receive ms c)\<lparr>cl_net := n\<rparr>)"
    using get io(1) by (simp add: cl_RecvMsgThread_def fold_receive_net)
  then show ?thesis unfolding arr using n(2-5) by auto
qed

section \<open>The keyboard\<close>

lemma first_good_skip:
  "\<forall>l\<in>set bad. \<not> good l \<Longrightarrow> good l \<Longrightarrow> first_good good (bad @ l # ls) = Inr (l, ls)"
  by (induction bad) auto

lemma first_good_Inr: "first_good good ls = Inr (l, ls') \<Longrightarrow> good l"
  by (induction ls) (auto split: if_splits)

lemma ask_Inr: "ask good c = Inr (l, c') \<Longrightarrow> good l"
  by (auto simp: ask_def sbind_Inr_iff dest: first_good_Inr)

lemma IsAlphaNumber_plain: "IsAlphaNumber s \<Longrightarrow> nul_free s \<and> CHR 0x5C \<notin> set s"
  by (auto simp: IsAlphaNumber_def nul_free_def list_all_iff Let_def)

section \<open>The start of a client\<close>

definition cl_ready :: "client \<Rightarrow> nat set \<Rightarrow> nat \<Rightarrow> nat set \<Rightarrow> bool" where
  "cl_ready c co i mo \<longleftrightarrow>
     cl_net_inv (cl_net c) co (insert i mo) \<and> i \<notin> mo \<and>
     serverMode (mp_mem (ioPool (cl_net c)) i) = OP_READ \<and>
     length (buffer (mp_mem (ioPool (cl_net c)) i)) = BUF_SIZE"

lemma cl_main_ok:
  assumes "0 < brk"
  shows "ok (cl_main mem ios brk lines sock) (\<lambda>c. \<exists>i. cl_ready c {} i {} \<and>
    recvBuffer (mp_mem (ioPool (cl_net c)) i) = 0 \<and>
    cp_regions (charPool (cl_net c)) = [(brk, cl_BLOCK_SIZE * cl_POOL_BLOCKS)] \<and>
    clientStatus c = status_int STATUS_INIT \<and> console c = [] \<and> keyboard c = lines \<and> udp_sent c = [] \<and>
    wire (cl_net c) = [WSARecv sock i])"
proof -
  let ?p = "cl_MPool_new ios brk"
  have blocks: "[0..<cl_POOL_BLOCKS] = 0 # [1..<cl_POOL_BLOCKS]"
    using upt_conv_Cons [of 0 cl_POOL_BLOCKS]
    by (simp only: One_nat_def) (simp add: cl_POOL_BLOCKS_def)
  have q: "mp_queue ?p = brk # map (\<lambda>i. brk + sizeof_PER_IO_DATA * i) [1..<cl_POOL_BLOCKS]"
    by (simp add: cl_MPool_new_def cl_MPool_grow_def blocks)
  obtain i mp where m: "cl_MPool_Malloc ?p = Inr (i, mp)" "mp_inv mp (insert i {})"
      "mp_get mp i = Inr (mp_mem mp i)"
    using cl_MPool_Malloc_Inr [OF cl_MPool_new_inv [OF assms]] by metis
  have "i = brk" "mp = ?p\<lparr>mp_queue := map (\<lambda>i. brk + sizeof_PER_IO_DATA * i) [1..<cl_POOL_BLOCKS]\<rparr>"
    using m(1) q by (auto simp: cl_MPool_Malloc_def try_pop_def popped_def)
  then have z: "mp_mem mp i = zero_io"
    by (simp add: cl_MPool_new_def cl_MPool_grow_def sizeof_PER_IO_DATA_def cl_POOL_BLOCKS_def)
  have "cl_inv (cl_CharPool_new mem brk) {}" using assms by (rule cl_CharPool_new_inv)
  then show ?thesis
    using m z by (simp add: cl_main_def cl_Recv_def cl_ready_def cl_net_inv_def zero_io_def)
      (simp add: cl_CharPool_new_def cl_CharPool_grow_def)
qed

lemma cl_ready_completion:
  assumes "cl_ready c co i mo" and "ms \<noteq> []" "\<forall>m\<in>set ms. sendable m"
    and "bs = concat (map packet_of ms)" "length bs \<le> BUF_SIZE"
  shows "ok (cl_RecvMsgThread True (length bs) sock i (cl_arrives i bs c)) (\<lambda>c'. \<exists>j n.
    c' = (fold cl_receive ms c)\<lparr>cl_net := n\<rparr> \<and> j \<notin> mo \<and> cl_net_inv n co (insert j mo) \<and>
    wire n = wire (cl_net c) @ [Freed i, WSARecv sock j] \<and>
    serverMode (mp_mem (ioPool n) j) = OP_READ)"
  by (rule cl_completion) (use assms in \<open>auto simp: cl_ready_def\<close>)

end
