(* ===== verification/BClient.thy ===== *)
theory BClient
  imports ClientCorrect
begin

text \<open>
  The load generator (\<open>src/Chat/Client/BClient.cpp\<close>): many bots in one process. A bot waits in the make
  queue until a \<open>MakeMsgThread\<close> has given it a command, then in the send queue until a
  \<open>SendMsgThread\<close> has sent it; \<open>RecvMsgThread\<close> keeps the status the server has given each bot. One turn
  of a thread is one step. The results of \<open>rand\<close> in a turn (\<open>rnd\<close>), and what an uninitialised
  \<open>INFO_CLIENT\<close> holds in its numbers (\<open>raw\<close>), are parameters.
\<close>

section \<open>State\<close>

record INFO_CLIENT =
  ic_Sock :: SOCKET
  ic_clientStatus :: int
  ic_direction :: int
  ic_id :: string
  ic_message :: string
  ic_job :: int

record bots =
  clientMap :: "(SOCKET \<times> INFO_CLIENT) list"
  makeQueue :: "INFO_CLIENT list"
  bot_sendQueue :: "INFO_CLIENT list"
  bot_net :: net

section \<open>\<open>ClientQueue\<close>\<close>

definition pushSendQueue :: "INFO_CLIENT \<Rightarrow> bots \<Rightarrow> bots" where
  "pushSendQueue info b = b\<lparr>bot_sendQueue := bot_sendQueue b @ [info]\<rparr>"

definition pushMakeQueue :: "INFO_CLIENT \<Rightarrow> bots \<Rightarrow> bots" where
  "pushMakeQueue info b = b\<lparr>makeQueue := makeQueue b @ [info]\<rparr>"

text \<open>From an empty queue comes the local variable as it was declared: empty strings, any numbers.\<close>

definition popSendQueue :: "INFO_CLIENT \<Rightarrow> bots \<Rightarrow> INFO_CLIENT \<times> bots" where
  "popSendQueue raw b =
     (case bot_sendQueue b of
        [] \<Rightarrow> (raw\<lparr>ic_id := '''', ic_message := ''''\<rparr>, b)
      | info # q \<Rightarrow> (info\<lparr>ic_job := 1\<rparr>, b\<lparr>bot_sendQueue := q\<rparr>))"

definition popMakeQueue :: "INFO_CLIENT \<Rightarrow> bots \<Rightarrow> INFO_CLIENT \<times> bots" where
  "popMakeQueue raw b =
     (case makeQueue b of
        [] \<Rightarrow> (raw\<lparr>ic_id := '''', ic_message := ''''\<rparr>, b)
      | info # q \<Rightarrow> (info\<lparr>ic_job := 1\<rparr>, b\<lparr>makeQueue := q\<rparr>))"

section \<open>The network\<close>

text \<open>\<open>Recv\<close>, \<open>RecvMore\<close> and \<open>DataCopy\<close> are the console client's, line for line.\<close>

definition bot_Recv :: "SOCKET \<Rightarrow> net \<Rightarrow> cpp_error + net" where
  "bot_Recv = cl_Recv"

definition bot_RecvMore :: "SOCKET \<Rightarrow> nat \<Rightarrow> net \<Rightarrow> cpp_error + net" where
  "bot_RecvMore = cl_RecvMore"

definition bot_DataCopy :: "PER_IO_DATA \<Rightarrow> CharPool \<Rightarrow> cpp_error + (int \<times> nat) \<times> CharPool" where
  "bot_DataCopy = cl_DataCopy"

text \<open>\<open>SendMsg\<close> has no status: those four bytes of the packet stay as the block has them.\<close>

definition bot_fill_packet ::
    "(nat \<Rightarrow> char) \<Rightarrow> string \<Rightarrow> int \<Rightarrow> nat \<Rightarrow> CharPool \<Rightarrow> cpp_error + CharPool" where
  "bot_fill_packet past msg dir packet cp =
     sbind (cp_write cp packet (bytes_of_short (int (packet_len msg)))) (\<lambda>cp.
     sbind (cp_write cp (packet + 6) (bytes_of_int dir)) (\<lambda>cp.
     cp_write cp (packet + 10) (text_bytes past msg)))"

definition bot_SendMsg ::
    "(nat \<Rightarrow> char) \<Rightarrow> SOCKET \<Rightarrow> string \<Rightarrow> int \<Rightarrow> net \<Rightarrow> cpp_error + net" where
  "bot_SendMsg past clientSock msg dir n =
     sbind (cl_MPool_Malloc (ioPool n)) (\<lambda>(ioInfo, mp).
     sbind (cl_CharPool_Malloc (charPool n)) (\<lambda>(packet, cp).
     sbind (bot_fill_packet past msg dir packet cp) (\<lambda>cp.
     sbind (mp_get mp ioInfo) (\<lambda>io.
     sbind (cp_read cp packet (packet_len msg)) (\<lambda>bs.
     Inr (n\<lparr>charPool := cp,
            ioPool := mp_set ioInfo (io\<lparr>wsaBuf_buf := PoolBuf packet, wsaBuf_len := packet_len msg,
                                        serverMode := OP_WRITE\<rparr>) mp,
            wire := wire n @ [WSASend clientSock bs ioInfo]\<rparr>))))))"

text \<open>
  \<open>PacketReading\<close> is the console client's but for a surplus of more than \<open>BUF_SIZE\<close> bytes (a negative
  size field), where the whole buffer is copied. Nothing in its \<open>try\<close> block throws.
\<close>

definition bot_PacketReading ::
    "PER_IO_DATA \<Rightarrow> int \<Rightarrow> CharPool \<Rightarrow> cpp_error + int \<times> PER_IO_DATA \<times> CharPool" where
  "bot_PacketReading io bytesTrans cp =
     (if serverMode io = OP_READ \<and> 2 \<le> bytesTrans \<and>
         int BUF_SIZE < bytesTrans - short_of_bytes (take 2 (buffer io)) then
        sbind (slice (buffer io) 0 2) (\<lambda>h.
        sbind (cl_CharPool_Malloc cp) (\<lambda>(rb, cp).
        let io = io\<lparr>bodySize := short_of_bytes h, recvBuffer := rb\<rparr> in
        sbind (slice (buffer io) 0 (int BUF_SIZE)) (\<lambda>d.
        sbind (cp_write cp rb d) (\<lambda>cp.
        Inr (0, io, cp)))))
      else cl_PacketReading io bytesTrans cp)"

section \<open>\<open>RecvMsgThread\<close>\<close>

text \<open>The status of the bot in the map; the text is not looked at.\<close>

definition bot_handle ::
    "SOCKET \<Rightarrow> PER_IO_DATA \<Rightarrow> CharPool \<Rightarrow> (SOCKET \<times> INFO_CLIENT) list \<Rightarrow>
     cpp_error + CharPool \<times> (SOCKET \<times> INFO_CLIENT) list" where
  "bot_handle sock io cp m =
     sbind (bot_DataCopy io cp) (\<lambda>((st, msg), cp).
     sbind (if st \<in> {status_int STATUS_LOGOUT, status_int STATUS_WAITING, status_int STATUS_CHATTIG}
            then sbind (am_at m sock) (\<lambda>_.
                 Inr (am_modify sock (\<lambda>i. if ic_clientStatus i \<noteq> st then i\<lparr>ic_clientStatus := st\<rparr> else i) m))
            else Inr m) (\<lambda>m.
     sbind (cl_CharPool_Free msg cp) (\<lambda>cp. Inr (cp, m))))"

definition bot_RecvMsgThread ::
    "bool \<Rightarrow> nat \<Rightarrow> SOCKET \<Rightarrow> nat \<Rightarrow> bots \<Rightarrow> cpp_error + bots" where
  "bot_RecvMsgThread success bytesTrans sock i b =
     (if short_of (int bytesTrans) = 0 \<and> \<not> success then Inl ProcessExit
      else
        sbind (mp_get (ioPool (bot_net b)) i) (\<lambda>io.
        if serverMode io = OP_READ_MORE \<or> serverMode io = OP_READ then
          (case packet_loop bot_PacketReading (bot_handle sock) io
                  (short_of (min (short_of (int bytesTrans)) (int BUF_SIZE)))
                  (charPool (bot_net b)) (clientMap b) of
             None \<Rightarrow> Inl Diverges
           | Some r \<Rightarrow>
               sbind r (\<lambda>(remainByte, io, cp, m).
               let n = (bot_net b)\<lparr>charPool := cp, ioPool := mp_set i io (ioPool (bot_net b))\<rparr> in
               sbind
                 (if remainByte = 0 then sbind (cl_give_back i n) (bot_Recv sock)
                  else bot_RecvMore sock i n) (\<lambda>n.
               Inr (b\<lparr>clientMap := m, bot_net := n\<rparr>))))
        else if serverMode io = OP_WRITE then
          sbind (case wsaBuf_buf io of
                   PoolBuf a \<Rightarrow> cl_CharPool_Free a (charPool (bot_net b)) | _ \<Rightarrow> Inl HeapOverflow) (\<lambda>cp.
          sbind (cl_give_back i ((bot_net b)\<lparr>charPool := cp\<rparr>)) (\<lambda>n. Inr (b\<lparr>bot_net := n\<rparr>)))
        else sbind (cl_give_back i (bot_net b)) (\<lambda>n. Inr (b\<lparr>bot_net := n\<rparr>))))"

definition bot_arrives :: "nat \<Rightarrow> char list \<Rightarrow> bots \<Rightarrow> bots" where
  "bot_arrives i bs b =
     (let n = bot_net b; io = mp_mem (ioPool n) i in
      b\<lparr>bot_net := n\<lparr>ioPool := mp_set i (io\<lparr>buffer := overwrite (buffer io) 0 bs\<rparr>) (ioPool n)\<rparr>\<rparr>)"

section \<open>\<open>MakeMsgThread\<close>\<close>

definition bot_password :: string where "bot_password = ''1234''"

definition bot_msgs :: "string list" where
  "bot_msgs = [
     bytes [190, 200, 179, 231, 199, 207, 188, 188, 191, 228, 33],
     bytes [185, 221, 176, 169, 189, 192, 180, 207, 180, 217, 33],
     bytes [176, 237, 184, 191, 189, 192, 180, 207, 180, 217],
     ''Hello World'',
     bytes [176, 239, 180, 207, 196, 161, 191, 205],
     bytes [190, 198, 184, 174, 176, 161, 197, 228],
     ''C++'',
     bytes [177, 194, 184, 240, 180, 215],
     bytes [182, 175, 197, 165],
     bytes [199, 207, 192, 204]]"

definition bot_rooms :: "string list" where
  "bot_rooms = [
     ''EPL'',
     bytes [188, 188, 184, 174, 191, 161],
     bytes [182, 243, 184, 174, 176, 161],
     bytes [186, 208, 181, 165, 189, 186, 184, 174, 176, 161],
     bytes [191, 249, 181, 229, 196, 197],
     bytes [192, 175, 183, 206],
     bytes [190, 198, 189, 195, 190, 200, 196, 197],
     bytes [75, 184, 174, 177, 215],
     bytes [74, 184, 174, 177, 215],
     ''UCL'',
     ''UEL'',
     ''ACL'',
     bytes [184, 174, 177, 215, 190, 211],
     bytes [191, 161, 183, 185, 181, 240, 186, 241, 189, 195],
     ''CSL'',
     bytes [188, 246, 198, 228, 184, 163, 184, 174, 176, 161]]"

text \<open>
  The command for a bot of status \<open>cStatus\<close>. The nickname drawn in the first two branches is not used.
\<close>

definition bot_command :: "(nat \<Rightarrow> nat) \<Rightarrow> int \<Rightarrow> string \<Rightarrow> INFO_CLIENT \<Rightarrow> INFO_CLIENT" where
  "bot_command rnd cStatus idName info =
     (if cStatus = status_int STATUS_LOGOUT then
        (if rnd 0 mod 2 = 1 then
           info\<lparr>ic_direction := int_of_direction USER_MAKE,
                ic_message := idName @ [CHR 0x5C] @ bot_password @ [CHR 0x5C] @ idName\<rparr>
         else
           info\<lparr>ic_direction := int_of_direction USER_ENTER,
                ic_message := idName @ [CHR 0x5C] @ bot_password\<rparr>)
      else if cStatus = status_int STATUS_WAITING \<or> cStatus = status_int STATUS_CHATTIG then
        (if rnd 0 mod 4 = 0 then
           (if rnd 1 mod 10 \<le> 6 then
              info\<lparr>ic_direction := int_of_direction ROOM_ENTER, ic_message := bot_rooms ! (rnd 2 mod 16)\<rparr>
            else
              info\<lparr>ic_direction := int_of_direction ROOM_MAKE, ic_message := bot_rooms ! (rnd 2 mod 16)\<rparr>)
         else
           info\<lparr>ic_direction := -1,
                ic_message := (if rnd 1 mod 70 = 1 then CHR 0x5C # ''out''
                               else bot_msgs ! (rnd 1 mod 70 mod 10))\<rparr>)
      else info)"

definition bot_MakeMsgThread :: "(nat \<Rightarrow> nat) \<Rightarrow> INFO_CLIENT \<Rightarrow> bots \<Rightarrow> cpp_error + bots" where
  "bot_MakeMsgThread rnd raw b =
     (let (info, b) = popMakeQueue raw b in
      if ic_job info = 1 then
        sbind (am_at (clientMap b) (ic_Sock info)) (\<lambda>found.
        let info = bot_command rnd (ic_clientStatus found) (ic_id found) info in
        Inr (pushSendQueue (info\<lparr>ic_job := 0\<rparr>) b))
      else Inr b)"

section \<open>\<open>SendMsgThread\<close>\<close>

definition bot_SendMsgThread :: "(nat \<Rightarrow> char) \<Rightarrow> INFO_CLIENT \<Rightarrow> bots \<Rightarrow> cpp_error + bots" where
  "bot_SendMsgThread past raw b =
     (let (info, b) = popSendQueue raw b in
      if ic_job info = 1 then
        sbind (bot_SendMsg past (ic_Sock info) (ic_message info) (ic_direction info) (bot_net b)) (\<lambda>n.
        Inr (pushMakeQueue (info\<lparr>ic_job := 0\<rparr>) (b\<lparr>bot_net := n\<rparr>)))
      else Inr b)"

section \<open>\<open>main\<close>\<close>

definition bot_alpha :: string where
  "bot_alpha = ''ABCDEFGHIJKLMNOPQRSTUVWXYZabcdefghijklmnopqrstuvwxyz''"

text \<open>The id of bot \<open>i\<close>: one letter, \<open>i / 52 + 1\<close> times.\<close>

definition bot_id :: "nat \<Rightarrow> string" where
  "bot_id i = replicate (i div 52 + 1) (bot_alpha ! (i mod 52))"

definition bot_info :: "INFO_CLIENT \<Rightarrow> SOCKET \<Rightarrow> nat \<Rightarrow> INFO_CLIENT" where
  "bot_info raw sock i =
     raw\<lparr>ic_Sock := sock, ic_clientStatus := status_int STATUS_LOGOUT, ic_id := bot_id i,
          ic_message := '''', ic_job := 0\<rparr>"

text \<open>The loop over the sockets it opens, from the \<open>i\<close>-th on.\<close>

fun bot_open :: "INFO_CLIENT \<Rightarrow> nat \<Rightarrow> SOCKET list \<Rightarrow> bots \<Rightarrow> cpp_error + bots" where
  "bot_open raw i [] b = Inr b"
| "bot_open raw i (sock # socks) b =
     (let info = bot_info raw sock i in
      sbind (bot_Recv sock (bot_net b)) (\<lambda>n.
      bot_open raw (Suc i) socks
        (b\<lparr>makeQueue := makeQueue b @ [info], clientMap := (sock, info) # am_erase sock (clientMap b),
           bot_net := n\<rparr>)))"

definition bot_main ::
    "INFO_CLIENT \<Rightarrow> (nat \<Rightarrow> char) \<Rightarrow> (nat \<Rightarrow> PER_IO_DATA) \<Rightarrow> nat \<Rightarrow> SOCKET list \<Rightarrow> cpp_error + bots" where
  "bot_main raw mem ios brk socks =
     bot_open raw 0 socks
       \<lparr>clientMap = [], makeQueue = [], bot_sendQueue = [],
        bot_net = \<lparr>charPool = cl_CharPool_new mem brk, ioPool = cl_MPool_new ios brk, wire = []\<rparr>\<rparr>"

end
