(* ===== verification/BotCorrect.thy ===== *)
theory BotCorrect
  imports BClient
begin

text \<open>
  The bots: no bot is lost or duplicated, each command is a well-formed packet, and the map has the
  last status the server has sent.
\<close>

section \<open>Packets\<close>

lemma le_bytes_le_nat: "le_bytes (length bs) (le_nat bs) = bs"
  by (induction bs) simp_all

lemma four_bytes: "length bs = 4 \<Longrightarrow> \<exists>st. bytes_of_int st = bs"
proof -
  assume "length bs = 4"
  moreover have "le_nat bs < 256 ^ length bs" by (induction bs) (simp_all add: of_char_def)
  ultimately have "bytes_of_int (int (le_nat bs)) = bs"
    using le_bytes_le_nat [of bs] by (simp add: bytes_of_int_def nat_mod_distrib)
  then show ?thesis ..
qed

lemma bot_fill_packet_ok:
  assumes inv: "cl_inv cp (insert a out)" and a: "a \<notin> out"
    and msg: "nul_free msg" "length msg + 21 \<le> cl_BLOCK_SIZE"
  obtains cp' st where "bot_fill_packet past msg dir a cp = Inr cp'" "cl_inv cp' (insert a out)"
    "same_on cl_BLOCK_SIZE out cp cp'"
    "cp_read cp' a (packet_len msg) = Inr (wire_packet st dir msg)"
proof -
  let ?L = "bytes_of_short (int (length msg + 11))" and ?D = "bytes_of_int dir"
  let ?T = "(msg @ [NUL]) @ map past [0..<10]"
  have room: "length msg + 21 \<le> 4096" using msg(2) by (simp add: cl_BLOCK_SIZE_def)
  obtain p1 where 1: "cp_write cp a ?L = Inr p1" "cl_inv p1 (insert a out)"
      "same_on cl_BLOCK_SIZE out cp p1" "holds p1 a ?L"
    by (rule ccp.write_block [OF inv a, of a ?L]) (simp_all add: cl_BLOCK_SIZE_def)
  obtain p2 where 2: "cp_write p1 (a + 6) ?D = Inr p2" "cl_inv p2 (insert a out)"
      "same_on cl_BLOCK_SIZE out p1 p2" "holds p2 (a + 6) ?D"
      "\<And>x. x < a + 6 \<or> a + 6 + length ?D \<le> x \<Longrightarrow> cp_mem p2 x = cp_mem p1 x"
    by (rule ccp.write_block [OF 1(2) a, of "a + 6" ?D]) (simp_all add: cl_BLOCK_SIZE_def)
  obtain p3 where 3: "cp_write p2 (a + 10) ?T = Inr p3" "cl_inv p3 (insert a out)"
      "same_on cl_BLOCK_SIZE out p2 p3" "holds p3 (a + 10) ?T"
      "\<And>x. x < a + 10 \<or> a + 10 + length ?T \<le> x \<Longrightarrow> cp_mem p3 x = cp_mem p2 x"
    by (rule ccp.write_block [OF 2(2) a, of "a + 10" ?T])
       (use room in \<open>simp_all add: cl_BLOCK_SIZE_def\<close>)
  define S where "S = map (cp_mem p3) [a + 2..<a + 2 + 4]"
  obtain st where st: "bytes_of_int st = S" using four_bytes [of S] by (auto simp: S_def)
  have hL: "holds p3 a ?L" using 1(4) 2(5) 3(5) by (simp add: holds_def)
  have hS: "holds p3 (a + 2) S" unfolding S_def by (simp add: holds_def)
  have hD: "holds p3 (a + 6) ?D" using 2(4) 3(5) by (simp add: holds_def)
  have e: "?L @ S @ ?D @ ?T = wire_packet st dir msg @ map past [0..<10]"
    by (simp add: wire_packet_def st)
  have "holds p3 a (?L @ S @ ?D @ ?T)"
    using hL hS hD 3(4) by (simp add: holds_append S_def add.commute add.left_commute)
  then have "holds p3 a (wire_packet st dir msg)" unfolding e holds_append by blast
  moreover have "in_region (cp_regions p3) a (length (wire_packet st dir msg))"
    by (rule ccp.sub_region [OF 3(2) insertI1]) (use room in \<open>simp_all add: cl_BLOCK_SIZE_def\<close>)
  ultimately have "cp_read p3 a (packet_len msg) = Inr (wire_packet st dir msg)"
    using holds_read [of p3 a "wire_packet st dir msg"] by (simp add: cl_packet_len [OF msg])
  moreover have "bot_fill_packet past msg dir a cp = Inr p3"
    using 1(1) 2(1) 3(1)
    by (simp add: bot_fill_packet_def cl_packet_len [OF msg] cl_text_bytes [OF msg])
  moreover have "same_on cl_BLOCK_SIZE out cp p3" using 1(3) 2(3) 3(3) by (auto simp: same_on_def)
  ultimately show thesis using 3(2) that by blast
qed

lemma bot_SendMsg_ok:
  assumes inv: "cl_net_inv n co mo" and msg: "nul_free msg" "length msg + 21 \<le> cl_BLOCK_SIZE"
  shows "ok (bot_SendMsg past sock msg dir n) (\<lambda>n'. \<exists>i a st. i \<notin> mo \<and> a \<notin> co \<and>
    cl_net_inv n' (insert a co) (insert i mo) \<and> wire n' = wire n @ [WSASend sock (wire_packet st dir msg) i])"
proof -
  obtain i mp where mp: "cl_MPool_Malloc (ioPool n) = Inr (i, mp)" "i \<notin> mo" "mp_inv mp (insert i mo)"
      "\<forall>b\<in>mo. mp_mem mp b = mp_mem (ioPool n) b" "mp_get mp i = Inr (mp_mem mp i)"
    using inv by (auto simp: cl_net_inv_def elim: cl_MPool_Malloc_Inr)
  obtain a cp1 where m: "cl_CharPool_Malloc (charPool n) = Inr (a, cp1)" "a \<notin> co"
      "cl_inv cp1 (insert a co)" "same_on cl_BLOCK_SIZE co (charPool n) cp1"
    using inv by (auto simp: cl_net_inv_def elim: ccp.malloc_Inr)
  obtain cp2 st where f: "bot_fill_packet past msg dir a cp1 = Inr cp2" "cl_inv cp2 (insert a co)"
      "cp_read cp2 a (packet_len msg) = Inr (wire_packet st dir msg)"
    using bot_fill_packet_ok [OF m(3,2) msg] by metis
  show ?thesis using mp m f by (auto simp: bot_SendMsg_def cl_net_inv_def)
qed

section \<open>Receiving\<close>

definition bot_receive ::
    "SOCKET \<Rightarrow> message \<Rightarrow> (SOCKET \<times> INFO_CLIENT) list \<Rightarrow> (SOCKET \<times> INFO_CLIENT) list" where
  "bot_receive sock m ics = (case m of (st, _, _) \<Rightarrow>
     if own_status (int32_of st) then am_modify sock (\<lambda>i. i\<lparr>ic_clientStatus := int32_of st\<rparr>) ics else ics)"

lemma bot_PacketReading_packet:
  assumes "length (buffer io) = BUF_SIZE" and buf: "take n (buffer io) = wire_packet st dir msg @ rest"
    and n: "n = length msg + 11 + length rest" "n \<le> BUF_SIZE"
  shows "bot_PacketReading io (int n) cp = cl_PacketReading io (int n) cp"
proof -
  note front = packet_front [OF assms]
  have "Inr (take 2 (buffer io)) = (Inr (bytes_of_short (int (length msg + 11))) :: cpp_error + char list)"
    using front(1) slice_0 [of 2 "buffer io"] assms(1) by (simp add: BUF_SIZE_def)
  then have "short_of_bytes (take 2 (buffer io)) = int (length msg + 11)" using front(4) by simp
  then show ?thesis using n(2) by (simp add: bot_PacketReading_def)
qed

interpretation btp: packet_client bot_PacketReading "bot_handle sock" "bot_receive sock"
    "\<lambda>m. map_of m sock \<noteq> None"
proof
  fix cp out and io :: PER_IO_DATA and n msg st dir rest
  assume p: "cl_inv cp out" "serverMode io = OP_READ" "length (buffer io) = BUF_SIZE"
    "length msg \<le> MAX_TEXT" "take n (buffer io) = wire_packet st dir msg @ rest"
    "n = length msg + 11 + length rest" "n \<le> BUF_SIZE"
  show "\<exists>rb io' cp'. bot_PacketReading io (int n) cp = Inr (int (length rest), io', cp') \<and>
        rb \<notin> out \<and> cl_inv cp' (insert rb out) \<and> same_on cl_BLOCK_SIZE out cp cp' \<and>
        recvBuffer io' = rb \<and> bodySize io' = int (length msg + 11) \<and> serverMode io' = OP_READ \<and>
        length (buffer io') = BUF_SIZE \<and> take (length rest) (buffer io') = rest \<and>
        holds cp' rb (wire_packet st dir msg)"
    unfolding bot_PacketReading_packet [OF p(3,5-7)] using clp.reading_packet [OF p] .
next
  fix cp rb out and io :: PER_IO_DATA and msg st dir and c :: "(SOCKET \<times> INFO_CLIENT) list"
  assume p: "cl_inv cp (insert rb out)" "rb \<notin> out" "recvBuffer io = rb"
    "bodySize io = int (length msg + 11)" "nul_free msg" "length msg \<le> MAX_TEXT"
    "holds cp rb (wire_packet st dir msg)" and c: "map_of c sock \<noteq> None"
  obtain m p3 where d: "cl_DataCopy io cp = Inr ((int32_of st, m), p3)" "m \<notin> out"
      "cl_inv p3 (insert m out)" "same_on cl_BLOCK_SIZE out cp p3" "cp_cstr p3 m = Inr msg"
    using cl_DataCopy_packet [OF p] .
  obtain p4 where f: "cl_CharPool_Free m p3 = Inr p4" "cl_inv p4 out" "same_on cl_BLOCK_SIZE out p3 p4"
    using ccp.free_block [OF d(3,2)] .
  have "(\<lambda>i. if ic_clientStatus i \<noteq> s then i\<lparr>ic_clientStatus := s\<rparr> else i) =
      (\<lambda>i. i\<lparr>ic_clientStatus := s\<rparr> :: INFO_CLIENT)" for s
    by (auto simp: fun_eq_iff)
  then have "bot_handle sock io cp c = Inr (p4, bot_receive sock (st, dir, msg) c)"
    using d(1) f(1) c by (auto simp: bot_handle_def bot_DataCopy_def bot_receive_def own_status_def)
  with f(2) same_on_trans [OF d(4) f(3)]
  show "\<exists>cp'. bot_handle sock io cp c = Inr (cp', bot_receive sock (st, dir, msg) c) \<and> cl_inv cp' out \<and>
      same_on cl_BLOCK_SIZE out cp cp'"
    by blast
next
  fix c :: "(SOCKET \<times> INFO_CLIENT) list" and m :: message
  assume "map_of c sock \<noteq> None"
  then show "map_of (bot_receive sock m c) sock \<noteq> None"
    by (cases m) (auto simp: bot_receive_def map_of_am_modify)
qed

section \<open>Turns\<close>

text \<open>
  Any thread may take the next turn. A pop from an empty queue finds a local variable whose \<open>job\<close> was
  never set; here it is not 1.
\<close>

inductive bot_step :: "bots \<Rightarrow> bots \<Rightarrow> bool" where
  make: "bot_MakeMsgThread rnd raw b = Inr b' \<Longrightarrow> ic_job raw \<noteq> 1 \<Longrightarrow> bot_step b b'"
| send: "bot_SendMsgThread past raw b = Inr b' \<Longrightarrow> ic_job raw \<noteq> 1 \<Longrightarrow> bot_step b b'"
| recv: "bot_RecvMsgThread success (length bs) sock i (bot_arrives i bs b) = Inr b' \<Longrightarrow> bot_step b b'"

inductive bots_from :: "bots \<Rightarrow> bots \<Rightarrow> bool" where
  start: "bots_from b b"
| turn: "bots_from b b1 \<Longrightarrow> bot_step b1 b2 \<Longrightarrow> bots_from b b2"

text \<open>The bots that wait in a queue, and who the map knows.\<close>

definition waiting :: "bots \<Rightarrow> SOCKET multiset" where
  "waiting b = mset (map ic_Sock (makeQueue b @ bot_sendQueue b))"

definition known :: "(SOCKET \<times> INFO_CLIENT) list \<Rightarrow> (SOCKET \<times> string) list" where
  "known m = map (\<lambda>(s, i). (s, ic_id i)) m"

lemma map_of_known: "map_of (known m) s = map_option ic_id (map_of m s)"
  by (induction m) (auto simp: known_def)

lemma packet_loop_raw:
  "packet_loop reading handle io r cp c = Some res \<Longrightarrow>
     (\<forall>io cp c cp' c'. handle io cp c = Inr (cp', c') \<longrightarrow> I c' = I c) \<longrightarrow>
     (\<forall>r' io' cp' c'. res = Inr (r', io', cp', c') \<longrightarrow> I c' = I c)"
proof (erule packet_loop.raw_induct [rotated], intro impI)
  fix loop :: "(PER_IO_DATA \<Rightarrow> int \<Rightarrow> CharPool \<Rightarrow> cpp_error + int \<times> PER_IO_DATA \<times> CharPool) \<Rightarrow>
      (PER_IO_DATA \<Rightarrow> CharPool \<Rightarrow> 'a \<Rightarrow> cpp_error + CharPool \<times> 'a) \<Rightarrow>
      PER_IO_DATA \<Rightarrow> int \<Rightarrow> CharPool \<Rightarrow> 'a \<Rightarrow>
      (cpp_error + int \<times> PER_IO_DATA \<times> CharPool \<times> 'a) option"
    and reading handle io r cp c res
  assume IH: "\<And>reading handle io r cp c res. loop reading handle io r cp c = Some res \<Longrightarrow>
      (\<forall>io cp c cp' c'. handle io cp c = Inr (cp', c') \<longrightarrow> I c' = I c) \<longrightarrow>
      (\<forall>r' io' cp' c'. res = Inr (r', io', cp', c') \<longrightarrow> I c' = I c)"
    and step: "(case reading io r cp of
        Inl e \<Rightarrow> Some (Inl e)
      | Inr (r, io1, cp1) \<Rightarrow>
          (if r \<ge> 0 then
             (case handle io1 cp1 c of
                Inl e \<Rightarrow> Some (Inl e)
              | Inr (cp2, c') \<Rightarrow>
                  (if r = 0 then Some (Inr (0, io1, cp2, c')) else loop reading handle io1 r cp2 c'))
           else Some (Inr (r, io1, cp1, c)))) = Some res"
    and h: "\<forall>io cp c cp' c'. handle io cp c = Inr (cp', c') \<longrightarrow> I c' = I c"
  show "\<forall>r' io' cp' c'. res = Inr (r', io', cp', c') \<longrightarrow> I c' = I c"
  proof (cases "\<exists>r1 io1 cp1 cp2 c1. reading io r cp = Inr (r1, io1, cp1) \<and> 0 \<le> r1 \<and>
      handle io1 cp1 c = Inr (cp2, c1)")
    case True
    then obtain r1 io1 cp1 cp2 c1 where p: "reading io r cp = Inr (r1, io1, cp1)" "0 \<le> r1"
      "handle io1 cp1 c = Inr (cp2, c1)" by blast
    have c1: "I c1 = I c" using h p(3) by blast
    show ?thesis
    proof (cases "r1 = 0")
      case False
      then have "loop reading handle io1 r1 cp2 c1 = Some res" using step p by simp
      from IH [OF this] h c1 show ?thesis by simp
    qed (use step p c1 in auto)
  qed (use step in \<open>auto split: sum.splits if_splits\<close>)
qed

lemma packet_loop_inv:
  assumes "packet_loop reading handle io r cp c = Some (Inr (r', io', cp', c'))"
    and "\<And>io cp c cp' c'. handle io cp c = Inr (cp', c') \<Longrightarrow> I c' = I c"
  shows "I c' = I c"
  using packet_loop_raw [OF assms(1), of I] assms(2) by blast

lemma bot_handle_known: "bot_handle sock io cp m = Inr (cp', m') \<Longrightarrow> known m' = known m"
  by (auto simp: bot_handle_def sbind_Inr_iff known_def am_modify_def split: if_splits prod.splits)

lemma am_at_find: "am_at m k = Inr v \<longleftrightarrow> map_of m k = Some v"
  by (auto simp: am_at_def split: option.splits)

lemma ic_Sock_command [simp]: "ic_Sock (bot_command rnd st idn info) = ic_Sock info"
  by (simp add: bot_command_def)

lemma bot_step_keeps:
  assumes "bot_step b b'"
  shows "waiting b' = waiting b \<and> known (clientMap b') = known (clientMap b)"
  using assms
proof (cases rule: bot_step.cases)
  case (make rnd raw)
  then show ?thesis
    by (auto simp: bot_MakeMsgThread_def popMakeQueue_def pushSendQueue_def waiting_def
        sbind_Inr_iff Let_def split: list.splits if_splits)
next
  case (send past raw)
  then show ?thesis
    by (auto simp: bot_SendMsgThread_def popSendQueue_def pushMakeQueue_def waiting_def
        sbind_Inr_iff Let_def split: list.splits if_splits)
next
  case (recv success bs sock i)
  then show ?thesis
    by (auto simp: bot_RecvMsgThread_def bot_arrives_def waiting_def sbind_Inr_iff Let_def
        dest!: packet_loop_inv [where I = known, OF _ bot_handle_known]
        split: list.splits if_splits option.splits)
qed

section \<open>The start\<close>

lemma bot_open_ok:
  assumes "cl_net_inv (bot_net b) co mo"
  shows "ok (bot_open raw i socks b) (\<lambda>b'.
    makeQueue b' = makeQueue b @ map (\<lambda>j. bot_info raw (socks ! j) (i + j)) [0..<length socks] \<and>
    bot_sendQueue b' = bot_sendQueue b \<and>
    map_of (clientMap b') = map_of (clientMap b) ++
      map_of (rev (map (\<lambda>j. (socks ! j, bot_info raw (socks ! j) (i + j))) [0..<length socks])) \<and>
    (\<exists>mo'. cl_net_inv (bot_net b') co mo'))"
  using assms
proof (induction socks arbitrary: i b mo)
  case Nil
  then show ?case by auto
next
  case (Cons s socks)
  obtain j mp where m: "cl_MPool_Malloc (ioPool (bot_net b)) = Inr (j, mp)" "mp_inv mp (insert j mo)"
      "mp_get mp j = Inr (mp_mem mp j)"
    using Cons.prems by (auto simp: cl_net_inv_def elim: cl_MPool_Malloc_Inr)
  obtain n where n: "bot_Recv s (bot_net b) = Inr n" "cl_net_inv n co (insert j mo)"
    using m Cons.prems by (simp add: bot_Recv_def cl_Recv_def cl_net_inv_def)
  let ?b = "b\<lparr>makeQueue := makeQueue b @ [bot_info raw s i],
    clientMap := (s, bot_info raw s i) # am_erase s (clientMap b), bot_net := n\<rparr>"
  have upt: "[0..<length (s # socks)] = 0 # map Suc [0..<length socks]"
    by (simp add: map_Suc_upt upt_conv_Cons del: upt_Suc)
  have one: "map_of (clientMap ?b) = (map_of (clientMap b))(s \<mapsto> bot_info raw s i)"
    by (auto simp: map_of_am_erase fun_eq_iff)
  have "ok (bot_open raw (Suc i) socks ?b) (\<lambda>b'.
    makeQueue b' = makeQueue ?b @ map (\<lambda>j. bot_info raw (socks ! j) (Suc i + j)) [0..<length socks] \<and>
    bot_sendQueue b' = bot_sendQueue ?b \<and>
    map_of (clientMap b') = map_of (clientMap ?b) ++
      map_of (rev (map (\<lambda>j. (socks ! j, bot_info raw (socks ! j) (Suc i + j))) [0..<length socks])) \<and>
    (\<exists>mo'. cl_net_inv (bot_net b') co mo'))"
    by (rule Cons.IH) (use n in simp)
  then show ?case
    unfolding upt one using n(1)
    by (auto elim!: ok_mono simp: Let_def comp_def map_add_upd_left)
qed

lemma bot_main_ok:
  assumes "0 < brk" and "distinct socks"
  shows "ok (bot_main raw mem ios brk socks) (\<lambda>b. waiting b = mset socks \<and>
    (\<forall>j<length socks. map_of (known (clientMap b)) (socks ! j) = Some (bot_id j)) \<and>
    (\<exists>mo. cl_net_inv (bot_net b) {} mo))"
proof -
  let ?n = "\<lparr>charPool = cl_CharPool_new mem brk, ioPool = cl_MPool_new ios brk, wire = []\<rparr>"
  let ?e = "map (\<lambda>j. (socks ! j, bot_info raw (socks ! j) j)) [0..<length socks]"
  have inv: "cl_net_inv ?n {} {}"
    using assms(1) by (simp add: cl_net_inv_def cl_CharPool_new_inv cl_MPool_new_inv)
  have fst: "map fst ?e = socks" by (simp add: comp_def map_nth)
  then have "distinct (map fst (rev ?e))" using assms(2) by (simp add: rev_map [symmetric])
  then have at: "map_of (rev ?e) (socks ! j) = Some (bot_info raw (socks ! j) j)" if "j < length socks" for j
    by (rule map_of_is_SomeI) (use that in auto)
  have socks: "map ic_Sock (map (\<lambda>j. bot_info raw (socks ! j) j) [0..<length socks]) = socks"
    by (simp add: comp_def bot_info_def map_nth)
  show ?thesis
    unfolding bot_main_def
    by (rule ok_mono [OF bot_open_ok [where co = "{}" and mo = "{}"]])
       (use inv at socks in \<open>auto simp: waiting_def map_of_known bot_info_def\<close>)
qed

section \<open>Properties\<close>


definition raw_info :: INFO_CLIENT where
  "raw_info = \<lparr>ic_Sock = 99, ic_clientStatus = 7, ic_direction = 7, ic_id = '''', ic_message = '''', ic_job = 0\<rparr>"


lemma bot_alpha_letters: "length bot_alpha = 52" "distinct bot_alpha"
  by (simp_all add: bot_alpha_def)

lemma bot_id_plain: "c \<in> set (bot_id j) \<Longrightarrow> c \<noteq> NUL \<and> c \<noteq> CHR 0x5C"
proof -
  assume "c \<in> set (bot_id j)"
  then have "c = bot_alpha ! (j mod 52)" by (auto simp: bot_id_def in_set_replicate)
  moreover have "j mod 52 < length bot_alpha" using bot_alpha_letters(1) by simp
  ultimately have "c \<in> set bot_alpha" using nth_mem by blast
  moreover have "NUL \<notin> set bot_alpha" "CHR 0x5C \<notin> set bot_alpha" by (simp_all add: bot_alpha_def)
  ultimately show ?thesis by blast
qed

lemma take_bot_id: "take 10 (bot_id i) = replicate (min 10 (i div 52 + 1)) (bot_alpha ! (i mod 52))"
  by (simp add: bot_id_def)

text \<open>
  No two bots have the same id, but the server stores ten characters of an id: from bot 468 on
  the bots of one letter all have the same account.
\<close>

theorem bot_ids_collide:
  "(bot_id i = bot_id j \<longleftrightarrow> i = j) \<and>
   (getUserId (setUserId (bot_id i) UserVo_new) = getUserId (setUserId (bot_id j) UserVo_new) \<longleftrightarrow>
      i = j \<or> 468 \<le> i \<and> 468 \<le> j \<and> i mod 52 = j mod 52)"
proof -
  have letter: "bot_alpha ! (i mod 52) = bot_alpha ! (j mod 52) \<longleftrightarrow> i mod 52 = j mod 52" for i j :: nat
    using bot_alpha_letters by (simp add: nth_eq_iff_index_eq)
  have same: "i div 52 = j div 52 \<and> i mod 52 = j mod 52 \<longleftrightarrow> i = j" for i j :: nat
    by (metis div_mult_mod_eq)
  have "nul_free (bot_id i)" for i using bot_id_plain by (auto simp: nul_free_def)
  then have get: "getUserId (setUserId (bot_id i) UserVo_new) = Inr (take 10 (bot_id i))" for i
    by (simp add: vo_defs cstr_strncpy_into)
  have repl: "replicate (Suc n) a = replicate (Suc m) b \<longleftrightarrow> n = m \<and> a = b" for n m and a b :: char
    by (auto simp: replicate_eq_replicate)
  have id: "bot_id i = bot_id j \<longleftrightarrow> i = j"
    using same [of i j] letter [of i j] by (simp add: bot_id_def repl del: replicate_Suc)
  have "take 10 (bot_id i) = take 10 (bot_id j) \<longleftrightarrow>
      min 9 (i div 52) = min 9 (j div 52) \<and> i mod 52 = j mod 52"
    using repl [of "min 9 (i div 52)" _ "min 9 (j div 52)"] letter [of i j]
    by (simp add: take_bot_id min_def del: replicate_Suc)
  also have "\<dots> \<longleftrightarrow> i = j \<or> 468 \<le> i \<and> 468 \<le> j \<and> i mod 52 = j mod 52"
    using same [of i j] by (auto simp: min_def split: if_splits)
  finally show ?thesis using id by (simp add: get)
qed

end
