(* ===== verification/Faults.thy ===== *)
theory Faults
  imports Accounts Rooms
begin

text \<open>
  What happens outside the bounds of \<open>event_ok\<close>: packets of size zero, packets cut in two, texts and
  names longer than the arrays, the look-up under the wrong key in \<open>FriendGo\<close>, a failing fetch.
\<close>

section \<open>A packet of size zero\<close>

text \<open>Free blocks start with a NUL: new memory is cleared, and \<open>Free\<close> clears four bytes.\<close>

definition clean :: "CharPool \<Rightarrow> bool" where
  "clean p \<longleftrightarrow> (\<forall>a\<in>set (poolQueue p). cp_mem p a = NUL)"

lemma clean_Malloc:
  assumes inv: "cp_inv p out" and "clean p" and m: "CharPool_Malloc p = Inr (a, p')"
  shows "clean p'" "cp_mem p' a = NUL"
proof -
  have "clean p' \<and> cp_mem p' a = NUL"
  proof (cases rule: CharPool_Malloc_cases [of p])
    case (1 b q)
    with assms(2) m show ?thesis by (auto simp: clean_def)
  next
    case 2
    have "cp_mem (CharPool_grow MORE_BLOCKS p) (cp_brk p + BLOCK_SIZE * i) = NUL" if "i < MORE_BLOCKS" for i
      using that by (simp add: CharPool_grow_def BLOCK_SIZE_def)
    from this [of 0] this m 2(2) show ?thesis
      by (auto simp: clean_def MORE_BLOCKS_def)
  qed
  then show "clean p'" "cp_mem p' a = NUL" by simp_all
qed

lemma clean_Free:
  assumes inv: "cp_inv p out" and a: "a \<in> out" and "clean p" and f: "CharPool_Free a p = Inr p'"
  shows "clean p'"
proof -
  have q: "poolQueue p' = poolQueue p @ [a]" and m: "cp_mem p' = mem_put (cp_mem p) a (replicate 4 NUL)"
    using f by (auto simp: CharPool_Free_def cp_write_def ConcurrentQueue_push_def split: if_splits)
  have "cp_mem p' b = NUL" if "b \<in> set (poolQueue p)" for b
  proof -
    have "b \<noteq> a" using inv a that by (auto simp: cp_inv_def pool_inv_def)
    moreover have "b \<in> block_starts BLOCK_SIZE (cp_regions p)" "a \<in> block_starts BLOCK_SIZE (cp_regions p)"
      using inv a that by (auto simp: cp_inv_def pool_inv_def)
    ultimately have "b + BLOCK_SIZE \<le> a \<or> a + BLOCK_SIZE \<le> b"
      using block_starts_apart [OF cp_inv_wf [OF inv]] by blast
    then have "b < a \<or> a + 4 \<le> b" by (auto simp: BLOCK_SIZE_def)
    then show ?thesis using assms(3) that by (simp add: m mem_put_outside clean_def)
  qed
  then show ?thesis by (simp add: clean_def q m mem_put_def)
qed

lemma cp_write_Nil: "cp_write p a [] = (if in_region (cp_regions p) a 0 then Inr p else Inl HeapOverflow)"
proof -
  have "mem_put (cp_mem p) a [] = cp_mem p" by (auto simp: mem_put_def fun_eq_iff)
  then show ?thesis by (simp add: cp_write_def)
qed

lemma cp_cstr_Nil:
  assumes "in_region (cp_regions p) a 1" and "cp_mem p a = NUL"
  shows "cp_cstr p a = Inr ''''"
  using assms by (simp add: cp_cstr_def)

text \<open>What one round needs, and leaves behind.\<close>

definition empty_packet :: "PER_IO_DATA \<Rightarrow> nat \<Rightarrow> CharPool \<Rightarrow> nat set \<Rightarrow> bool" where
  "empty_packet io n cp out \<longleftrightarrow>
     cp_inv cp out \<and> clean cp \<and> serverMode io = OP_RECV \<and> length (buffer io) = BUF_SIZE \<and>
     take 2 (buffer io) = [NUL, NUL] \<and> 2 \<le> n \<and> n \<le> BUF_SIZE"

lemma empty_packet_round:
  assumes e: "empty_packet io n cp out"
  shows "\<exists>io' cp1 cp2 r. PacketReading io (int n) cp = Inr (int n, io', cp1) \<and>
    DataCopy io' cp1 = Inr (r, cp2) \<and> empty_packet io' n cp2 out"
proof -
  have inv: "cp_inv cp out" and cl: "clean cp" and mode: "serverMode io = OP_RECV"
    and len: "length (buffer io) = BUF_SIZE" and z: "take 2 (buffer io) = [NUL, NUL]"
    and n: "2 \<le> n" "n \<le> BUF_SIZE" using e by (auto simp: empty_packet_def)
  obtain rb cp1 where m: "CharPool_Malloc cp = Inr (rb, cp1)" "rb \<notin> out" "cp_inv cp1 (insert rb out)"
    by (rule ok_Malloc_Inr [OF inv])
  note c1 = clean_Malloc [OF inv cl m(1)]
  have reg: "in_region (cp_regions c) b k" if "cp_inv c o'" "d \<in> o'" "d \<le> b" "b + k \<le> d + 1024" for c o' d b k
    using in_region_sub [OF cp_inv_region [OF that(1,2) le_refl]] that(3,4) by (simp add: BLOCK_SIZE_def)
  have r1: "in_region (cp_regions cp1) (rb + j) k" if "j + k \<le> 1024" for j k
    by (rule reg [OF m(3)]) (use that in auto)
  have h: "slice (buffer io) 0 2 = Inr [NUL, NUL]"
    using slice_0 [of 2 "buffer io"] z len by (simp add: BUF_SIZE_def)
  have sz: "short_of_bytes [NUL, NUL] = 0" by (simp add: short_of_bytes_def short_of_id)
  have s0: "slice (buffer io) 0 0 = Inr []" by (simp add: slice_def)
  have sn: "slice (buffer io) 0 (int n) = Inr (take n (buffer io))" using n len by simp
  have same: "overwrite (buffer io) 0 (take n (buffer io)) = buffer io"
    using n len by (simp add: overwrite_def min_def)
  let ?io = "io\<lparr>bodySize := 0, recvBuffer := rb\<rparr>"
  have "short_of (int n) = int n" using n by (simp add: short_of_id BUF_SIZE_def)
  then have rd: "PacketReading io (int n) cp = Inr (int n, ?io, cp1)"
    using mode h m(1) sz s0 sn n r1 [of 0 0] same
    by (simp add: PacketReading_def cp_write_Nil Let_def)
  obtain m2 cp2 where m2: "CharPool_Malloc cp1 = Inr (m2, cp2)" "m2 \<notin> insert rb out"
      "cp_inv cp2 (insert m2 (insert rb out))"
    by (rule ok_Malloc_Inr [OF m(3)])
  note c2 = clean_Malloc [OF m(3) c1(1) m2(1)]
  have r2: "in_region (cp_regions cp2) rb k" "in_region (cp_regions cp2) (rb + 10) 0"
    "in_region (cp_regions cp2) m2 0" if "k \<le> 1024" for k
    using that by (auto intro: reg [OF m2(3), of rb] reg [OF m2(3), of m2])
  obtain cp3 where f1: "CharPool_Free rb cp2 = Inr cp3"
      "cp_inv cp3 (insert m2 (insert rb out) - {rb})"
    using cpa.free_ok [OF m2(3), of rb] by (auto simp: ok_iff)
  have o1: "insert m2 (insert rb out) - {rb} = insert m2 out" using m(2) m2(2) by blast
  have c3: "clean cp3" by (rule clean_Free [OF m2(3) _ c2(1) f1(1)]) simp
  have "rb + BLOCK_SIZE \<le> m2 \<or> m2 + BLOCK_SIZE \<le> rb"
    using cp_inv_apart [OF m2(3), of rb m2] m2(2) by auto
  then have "m2 < rb \<or> rb + 4 \<le> m2" by (auto simp: BLOCK_SIZE_def)
  then have "cp_mem cp3 m2 = NUL" using CharPool_Free_mem [OF f1(1)] c2(2) by simp
  then have str: "cp_cstr cp3 m2 = Inr ''''"
    by (intro cp_cstr_Nil reg [OF f1(2), of m2]) (use m2(2) in auto)
  obtain cp4 where f2: "CharPool_Free m2 cp3 = Inr cp4" "cp_inv cp4 (insert m2 out - {m2})"
    using cpa.free_ok [OF f1(2) [unfolded o1], of m2] by (auto simp: ok_iff)
  have "insert m2 out - {m2} = out" using m2(2) by blast
  with f2(2) have inv4: "cp_inv cp4 out" by simp
  have "clean cp4" by (rule clean_Free [OF f1(2) _ c3 f2(1)]) (use m2(2) in auto)
  then have "empty_packet ?io n cp4 out" using inv4 mode len z n by (simp add: empty_packet_def)
  moreover have "\<exists>r. DataCopy ?io cp1 = Inr (r, cp4)"
    using r1 [of 2 4] r1 [of 6 4] m2(1) r2(2,3) [of 0] f1(1) str f2(1)
    by (simp add: DataCopy_def cp_read_def copy_len_def cp_write_Nil BUF_SIZE_def)
  ultimately show ?thesis using rd by blast
qed

text \<open>
  C38: A receive that starts with two zero bytes never leaves the loop over packets: a packet of
  size zero is read, copied and queued, and the same bytes are looked at again.
\<close>

theorem recv_loop_empty_packet:
  assumes "empty_packet io n cp out"
  shows "recv_loop sock io (int n) cp q = None"
proof (rule ccontr)
  assume "recv_loop sock io (int n) cp q \<noteq> None"
  then obtain y where y: "recv_loop sock io (int n) cp q = Some y" by auto
  let ?P = "\<lambda>(sock::SOCKET) io k cp (q::JOB_DATA list) (y::cpp_error + int \<times> PER_IO_DATA \<times> CharPool \<times> JOB_DATA list).
      \<not> (k = int n \<and> empty_packet io n cp out)"
  have "?P sock io (int n) cp q y"
  proof (rule recv_loop.raw_induct [where P = ?P, OF _ y])
    fix rec sock io k cp q y
    assume IH: "\<And>sock io k cp q y. rec sock io k cp q = Some y \<Longrightarrow> ?P sock io k cp q y"
      and body: "(case PacketReading io k cp of Inl e \<Rightarrow> Some (Inl e)
        | Inr (r, io1, cp1) \<Rightarrow>
            (if r \<ge> 0 then
               (case DataCopy io1 cp1 of Inl e \<Rightarrow> Some (Inl e)
                | Inr ((msg, st, dir), cp2) \<Rightarrow>
                    (let q = q @ [\<lparr>job_socket = sock, job_direction = dir, job_nowStatus = st, job_msg = msg\<rparr>] in
                     if r = 0 then Some (Inr (0, io1, cp2, q)) else rec sock io1 r cp2 q))
             else Some (Inr (r, io1, cp1, q)))) = Some y"
    show "?P sock io k cp q y"
    proof
      assume k: "k = int n \<and> empty_packet io n cp out"
      then obtain io' cp1 cp2 r where r: "PacketReading io (int n) cp = Inr (int n, io', cp1)"
          "DataCopy io' cp1 = Inr (r, cp2)" "empty_packet io' n cp2 out"
        using empty_packet_round by blast
      obtain msg st dir where "r = (msg, st, dir)" by (cases r)
      moreover have "int n \<noteq> 0" using k by (auto simp: empty_packet_def)
      ultimately have "rec sock io' (int n) cp2 (q @ [\<lparr>job_socket = sock, job_direction = dir,
          job_nowStatus = st, job_msg = msg\<rparr>]) = Some y"
        using body r k by (simp add: Let_def)
      then show False using IH r(3) by blast
    qed
  qed
  with assms show False by simp
qed

lemma start_pool_clean: "clean (CharPool_new (\<lambda>_. NUL) 1)"
  by (simp add: clean_def CharPool_new_def CharPool_grow_def)

theorem recv_loop_empty_packet_witness:
  "recv_loop 5 (zero_io\<lparr>serverMode := OP_RECV\<rparr>) 11 (CharPool_new (\<lambda>_. NUL) 1) [] = None"
proof -
  have "empty_packet (zero_io\<lparr>serverMode := OP_RECV\<rparr>) 11 (CharPool_new (\<lambda>_. NUL) 1) {}"
    using start_pool_clean CharPool_new_inv [of 1 "\<lambda>_. NUL"]
    by (simp add: empty_packet_def zero_io_def BUF_SIZE_def numeral_2_eq_2)
  from recv_loop_empty_packet [OF this] show ?thesis by simp
qed

section \<open>A packet in two parts\<close>

text \<open>
  The second receive of a packet of \<open>B\<close> bytes whose first \<open>n1\<close> bytes came before. The result,
  which should be the number of bytes left after the packet, is \<open>2 * n2 - B\<close>, since \<open>recvByte\<close> is
  overwritten before it is used: the packet counts as complete only when its two parts are equal; a
  last part of one byte is a copy of a reversed range.
\<close>

theorem PacketReading_second_part:
  assumes inv: "cp_inv cp out" and rb: "recvBuffer io \<in> out"
    and mode: "serverMode io = OP_RECV_MORE"
    and parts: "2 \<le> n1" "1 \<le> n2" "n1 + n2 = B" "B \<le> BLOCK_SIZE"
    and io: "recvByte io = int n1" "bodySize io = int B" "length (buffer io) = BUF_SIZE"
  shows "PacketReading io (int n2) cp =
    (if n2 = 1 then Inl BadCopy
     else Inr (2 * int n2 - int B,
       io\<lparr>serverMode := OP_RECV, recvByte := int n2,
          buffer := overwrite (buffer io) 0 (take (n2 - 2) (drop 2 (buffer io)))\<rparr>,
       cp\<lparr>cp_mem := mem_put (cp_mem cp) (recvBuffer io + n1) (take n2 (buffer io))\<rparr>))"
proof -
  have B: "int B - int n1 = int n2" using parts(3) by simp
  have n2: "n2 \<le> length (buffer io)" using parts io(3) by (simp add: BLOCK_SIZE_def BUF_SIZE_def)
  have reg: "in_region (cp_regions cp) (recvBuffer io + n1) n2"
    using in_region_sub [OF cp_inv_region [OF inv rb le_refl]] parts by simp
  have w: "cp_write cp (recvBuffer io + n1) (take n2 (buffer io)) =
      Inr (cp\<lparr>cp_mem := mem_put (cp_mem cp) (recvBuffer io + n1) (take n2 (buffer io))\<rparr>)"
    using reg n2 by (simp add: cp_write_def min_def)
  have t: "slice (buffer io) 2 (int n2) =
      (if n2 = 1 then Inl BadCopy else Inr (take (n2 - 2) (drop 2 (buffer io))))"
    using slice_mid [of 2 n2 "buffer io"] n2 parts(2) by (auto simp: slice_neg)
  have less: "int n2 < int B" using parts by simp
  have short: "short_of (int n2) = int n2" "short_of (2 * int n2 - int B) = 2 * int n2 - int B"
    using parts by (simp_all add: short_of_id BLOCK_SIZE_def)
  have res: "int n2 - (int B - int n2) = 2 * int n2 - int B" by simp
  show ?thesis
    using mode parts(1) io less n2 w t short B
    by (simp add: PacketReading_def op_defs Let_def res)
qed

theorem PacketReading_second_part_witness:
  "PacketReading (zero_io\<lparr>serverMode := OP_RECV_MORE, recvByte := 7, bodySize := 8, recvBuffer := 1\<rparr>) 1
     one_block = Inl BadCopy \<and>
   ok (PacketReading (zero_io\<lparr>serverMode := OP_RECV_MORE, recvByte := 5, bodySize := 8, recvBuffer := 1\<rparr>)
     3 one_block) (\<lambda>(remain, _). remain = -2)"
  using PacketReading_second_part [OF one_block_inv, of
      "zero_io\<lparr>serverMode := OP_RECV_MORE, recvByte := 7, bodySize := 8, recvBuffer := 1\<rparr>" 7 1 8]
    PacketReading_second_part [OF one_block_inv, of
      "zero_io\<lparr>serverMode := OP_RECV_MORE, recvByte := 5, bodySize := 8, recvBuffer := 1\<rparr>" 5 3 8]
  by (simp add: BLOCK_SIZE_def zero_io_def)

section \<open>Names and texts that do not fit\<close>

text \<open>
  A room name of 20 characters or more is accepted, but leaves \<open>roomName\<close> without a
  terminator: the maker is chatting, and its attempt to leave reads past the end of the array.
\<close>

theorem RoomMake_long_name:
  assumes s: "world_ok s" and k: "map_of (userMap s) k = Some u"
    and m: "nul_free message" "NAME_SIZE \<le> length message" "map_of (roomMap s) message = None"
  shows "ok (RoomMake k message s) (\<lambda>s'. GetStatus k s' = STATUS_CHATTIG \<and>
    (\<forall>env d. StatusChat env k d s_out s' = Inl Unterminated))"
proof -
  let ?u = "join_room message u"
  have "NUL \<notin> set (take NAME_SIZE message)"
    using m(1) by (auto simp: nul_free_def dest: in_set_takeD)
  then have bad: "cstr (roomName ?u) = Inl Unterminated"
    using m(2) by (simp add: join_room_def strncpy_def cstr_def)
  have names: "cstr (userName ?u) = Inr (uname u)" "cstr (userId ?u) = Inr (uid u)"
    using user_ok_cstr [OF world_user(1) [OF s k]] by (simp_all add: join_room_def)
  let ?s' = "InsertSendQueue SEND_ME (message @ m_roomMade @ chatRoomMessage) '''' k STATUS_CHATTIG
      (s\<lparr>userMap := am_modify k (join_room message) (userMap s),
         roomMap := sm_put message \<lparr>userList = [k]\<rparr> (roomMap s)\<rparr>)"
  have run: "RoomMake k message s = Inr ?s'"
    using m(3) k by (simp add: RoomMake_def session_names_ok [OF s k] upd_user_def
        join_room_def [abs_def] room_then_user)
  have k': "map_of (userMap ?s') k = Some ?u" using k by (simp add: map_of_am_modify)
  have "session_names k ?s' = Inr (uname u, uid u)"
    using k' names by (simp add: session_names_def)
  then have "StatusChat env k d s_out ?s' = Inl Unterminated" for env d
    using k' bad by (simp add: StatusChat_def)
  moreover have "GetStatus k ?s' = STATUS_CHATTIG" using k' by (simp add: GetStatus_def join_room_def)
  ultimately show ?thesis unfolding run by simp
qed

theorem RoomMake_long_name_witness:
  "ok (RoomMake 5 (replicate 20 (CHR ''x'')) demo_world) (\<lambda>s'. GetStatus 5 s' = STATUS_CHATTIG \<and>
     StatusChat demo_cfg 5 USER_GOOD s_out s' = Inl Unterminated)"
  using RoomMake_long_name [OF demo_world_ok, of 5 Ann "replicate 20 (CHR ''x'')"]
  by (simp add: nul_free_def NAME_SIZE_def numeral_eq_Suc)
     (auto elim: ok_mono)

section \<open>The friend's room\<close>

text \<open>The database's answer to \<open>selectOneFriend\<close>, as one row.\<close>

definition friend_answer :: "'db cfg \<Rightarrow> 'db \<Rightarrow> string \<Rightarrow> string \<Rightarrow> string \<Rightarrow> bool" where
  "friend_answer env db me message nick \<longleftrightarrow>
     (\<exists>db' res f r. SQLExecute env db q_selectOneFriend [SqlText (take 10 me), SqlText message]
        [20, 20, 20] = (db', res, f) \<and> f 0 = ROW r \<and> r 2 = nick)"

lemma selectOneFriend_answer:
  assumes "friend_answer env db me message nick"
    and "nul_free me" "nul_free message" "length message < NAME_SIZE" "nul_free nick" "length nick < 20"
  obtains vo db' where
    "selectOneFriend env (setRelationto message (setUserId me RelationVo_new)) db = Inr (vo, db')"
    "getNickName (RelationVo_copy vo) = Inr nick"
proof -
  let ?vo = "setRelationto message (setUserId me RelationVo_new)"
  obtain db' res f r where q: "SQLExecute env db q_selectOneFriend [SqlText (take 10 me), SqlText message]
      [20, 20, 20] = (db', res, f)" "f 0 = ROW r" "r 2 = nick"
    using assms(1) by (auto simp: friend_answer_def)
  have u: "getUserId ?vo = Inr (take 10 me)" "getRelationto ?vo = Inr message"
    using assms(2-4) by (simp_all add: vo_defs vo_simps cstr_strncpy_into cstr_strncpy NAME_SIZE_def)
  have nick: "column 20 (r 2) = nick"
    using assms(5,6) q(3) by (simp add: column_def upto_nul_id)
  let ?w = "setNickName nick (setRelationto (column 20 (r 1)) (setUserId (column 20 (r 0)) RelationVo_new))"
  have "selectOneFriend env ?vo db = Inr (?w, db')"
    using u q(1,2) nick by (simp add: selectOneFriend_def)
  moreover have "getNickName (RelationVo_copy ?w) = Inr nick"
    using assms(5,6) by (simp add: RelationVo_copy_def Vo_copy_def vo_defs vo_simps
        upto_nul_strncpy cstr_strncpy)
  ultimately show thesis using that by blast
qed

text \<open>
  Following a friend into its room looks the room's lock up under the friend's nickname as
  the client sent it: unless some room happens to have that name, the iterator is the end iterator.
\<close>

theorem FriendGo_wrong_key:
  assumes s: "world_ok s" and k: "map_of (userMap s) k = Some u"
    and m: "nul_free message" "length message < NAME_SIZE"
    and a: "friend_answer env (database s) (uid u) message nick"
    and n: "nul_free nick" "length nick < 20" "nick \<noteq> ''''"
    and f: "List.find (\<lambda>(k, u). uname u = nick) (userMap s) = Some (k', v)"
    and v: "status v = STATUS_CHATTIG" "rname v \<noteq> ''''"
    and r: "map_of (roomMap s) message = None"
  shows "FriendGo env k message s = Inl EndIterator"
proof -
  obtain vo db' where vo:
    "selectOneFriend env (setRelationto message (setUserId (uid u) RelationVo_new)) (database s) = Inr (vo, db')"
    "getNickName (RelationVo_copy vo) = Inr nick"
    using selectOneFriend_answer [OF a _ m n(1,2)] by auto
  have kv: "map_of (userMap s) k' = Some v"
    using find_SomeD(1) [OF world_okD(1) [OF s] f] .
  have "room_of v = Some (rname v)" using v(1) by (simp add: room_of_def)
  then obtain room where room: "map_of (roomMap s) (rname v) = Some room"
    using rooms_member [OF world_okD(6) [OF s] kv] by blast
  have find: "find_user nick (userMap s) = Inr (Some (k', v))"
    by (simp add: world_find_user [OF s] f)
  let ?s = "s\<lparr>database := db', userMap := am_modify k (\<lambda>u. u\<lparr>roomName := strncpy NAME_SIZE (rname v),
      status := STATUS_CHATTIG\<rparr>) (userMap s)\<rparr>"
  have names: "session_names k ?s = Inr (uname u, uid u)"
    using k user_ok_cstr [OF world_user(1) [OF s k]]
    by (simp add: session_names_def map_of_am_modify)
  show ?thesis
    using vo n(3) find user_ok_cstr(2) [OF world_user(1) [OF s kv]] v(2) room k r names
    by (simp add: FriendGo_def session_names_ok [OF s k] Let_def upd_user_def)
qed

theorem FriendGo_wrong_key_witness:
  "FriendGo demo_cfg 5 ''Bob'' demo_world = Inl EndIterator"
proof -
  have "friend_answer demo_cfg (database demo_world) (uid Ann) ''Bob'' ''Bob''"
    by (auto simp: friend_answer_def SQLExecute_def demo_exec_def demo_row_def)
  then show ?thesis
    by (rule FriendGo_wrong_key [OF demo_world_ok, rotated 3])
       (auto simp: nul_free_def NAME_SIZE_def)
qed

section \<open>Counters and loops\<close>

text \<open>How long a decimal number is.\<close>

lemma length_decimal_ge: "10 ^ d \<le> n \<Longrightarrow> d < length (decimal n)"
proof (induction d arbitrary: n)
  case 0
  then show ?case by (cases "n < 10") auto
next
  case (Suc d)
  have "10 * 1 \<le> 10 * (10::nat) ^ d" by (rule mult_le_mono) simp_all
  also have "\<dots> \<le> n" using Suc.prems by simp
  finally have "\<not> n < 10" by simp
  moreover have "10 ^ d \<le> n div 10" using Suc.prems by (simp add: less_eq_div_iff_mult_less_eq mult.commute)
  ultimately show ?case using Suc.IH by simp
qed

declare decimal.simps [simp del]

lemma length_count_text:
  "length (count_text cnt users) = 20 + length (decimal_int cnt) + length (decimal users)"
  by (simp add: count_text_def)

text \<open>
  The counter reply is written into 30 bytes. It fits, and is queued, as long as the two
  numbers have nine digits together; with ten or more it overruns the array.
\<close>

theorem CallCnt_bounds:
  assumes "0 \<le> cnt" and "0 < d1" and "0 < d2"
  shows "(nat cnt < 10 ^ d1 \<and> length (userMap s) < 10 ^ d2 \<and> d1 + d2 \<le> 9 \<longrightarrow>
      CallCnt k cnt s = Inr (InsertSendQueue SEND_ME (count_text cnt (length (userMap s))) '''' k
        STATUS_INIT s)) \<and>
    (10 ^ d1 \<le> nat cnt \<and> 10 ^ d2 \<le> length (userMap s) \<and> 8 \<le> d1 + d2 \<longrightarrow>
      CallCnt k cnt s = Inl IndexOverflow)"
proof -
  have l: "length (count_text cnt (length (userMap s))) =
      20 + length (decimal (nat cnt)) + length (decimal (length (userMap s)))"
    using assms(1) by (simp add: length_count_text decimal_int_def)
  have "length (decimal (nat cnt)) \<le> d1" "length (decimal (length (userMap s))) \<le> d2"
    if "nat cnt < 10 ^ d1" "length (userMap s) < 10 ^ d2"
    using that assms(2,3) length_decimal by simp_all
  moreover have "d1 < length (decimal (nat cnt))" "d2 < length (decimal (length (userMap s)))"
    if "10 ^ d1 \<le> nat cnt" "10 ^ d2 \<le> length (userMap s)"
    using that length_decimal_ge by simp_all
  ultimately show ?thesis unfolding CallCnt_def Let_def l by fastforce
qed

theorem CallCnt_bounds_witness:
  "\<exists>s'. CallCnt 5 12345678 demo_world = Inr s'"
  using CallCnt_bounds [of 12345678 8 1 demo_world 5] by simp

text \<open>
  When the fetches of the friend list fail and keep failing, the loop never ends: it
  stops at \<open>SQL_NO_DATA\<close> only.
\<close>

theorem selectFriends_diverges:
  assumes "SQLExecute env db q_selectFriends [SqlText me] [10, 10, 20] = (db', res, f)"
    and "\<forall>i. f i = FETCH_ERR" and "getUserId vo = Inr me"
    and "friend_row (junk env [10, 10, 20]) = Inr v"
  shows "selectFriends env vo db = Inl Diverges"
  using assms fetch_friends_error [of 0 f "junk env [10, 10, 20]" v "[]"]
  by (simp add: selectFriends_def)

definition broken_sql :: "unit odbc" where
  "broken_sql = \<lparr>exec = (\<lambda>db st. (db, -1, \<lambda>i. FETCH_ERR)), junk = map (\<lambda>n. replicate n NUL)\<rparr>"

theorem selectFriends_diverges_witness:
  "selectFriends broken_sql (setUserId ''ann'' RelationVo_new) () = Inl Diverges"
proof -
  have q: "SQLExecute broken_sql () q_selectFriends [SqlText ''ann''] [10, 10, 20] = ((), -1, \<lambda>i. FETCH_ERR)"
    by (simp add: SQLExecute_def broken_sql_def)
  have u: "getUserId (setUserId ''ann'' RelationVo_new) = Inr ''ann''"
    by (simp add: vo_defs vo_simps cstr_strncpy_into nul_free_def)
  obtain v where v: "friend_row (junk broken_sql [10, 10, 20]) = Inr v"
    by (simp add: friend_row_def strncpy_src_def broken_sql_def)
  show ?thesis by (rule selectFriends_diverges [OF q _ u v]) simp
qed

section \<open>Outside a session\<close>

text \<open>
  A client that has not logged in can end the server: direction 22 reaches \<open>exit\<close> whatever the
  text. Every other direction but the two of the login menu is answered with an error.
\<close>

theorem exit_before_login:
  assumes "map_of (userMap s) k = None" and "direction \<noteq> USER_MAKE" and "direction \<noteq> USER_ENTER"
  shows "callFuncPointer env k (GetStatus k s) direction message s =
    (if direction = EXIT then Inl ProcessExit
     else Inr (s\<lparr>sendQueue := sendQueue s @ [\<lparr>sd_msg = errorMessage @ loginBeforeMessage,
       sd_mySocket = Some k, sd_roomName = '''', sd_direction = SEND_ME,
       sd_status = STATUS_LOGOUT\<rparr>]\<rparr>))"
  using assms by (simp add: GetStatus_def callFuncPointer_def StatusLogout_def InsertSendQueue_def)

theorem exit_before_login_witness:
  "callFuncPointer demo_cfg 7 (GetStatus 7 demo_world) EXIT '''' demo_world = Inl ProcessExit"
  using exit_before_login [of demo_world 7 EXIT demo_cfg "''''"] by simp

end
