(* ===== verification/EndToEnd.thy ===== *)
theory EndToEnd
  imports BotCorrect Faults
begin

text \<open>
  The clients and the server together: what one sends, the other reads.
\<close>

section \<open>From the server to the console\<close>

text \<open>
  C26: Any number of packets that arrive at a client in one receive are shown one after the other,
  whatever their sizes: the client's status is the last one of them that is a client's status, all
  blocks are back in the pools, and the next receive is posted.
\<close>

theorem client_shows_packets:
  assumes "cl_ready c co i mo" and "ms \<noteq> []" "\<forall>m\<in>set ms. sendable m"
    and "bs = concat (map packet_of ms)" "length bs \<le> BUF_SIZE"
  shows "ok (cl_RecvMsgThread True (length bs) sock i (cl_arrives i bs c)) (\<lambda>c'.
    console c' = console (fold (\<lambda>(st, _, msg). cl_update (int32_of st) msg) ms c) \<and>
    clientStatus c' = last (clientStatus c # filter own_status (map (int32_of \<circ> fst) ms)) \<and>
    keyboard c' = keyboard c \<and>
    (\<exists>j. j \<notin> mo \<and> cl_net_inv (cl_net c') co (insert j mo) \<and>
       wire (cl_net c') = wire (cl_net c) @ [Freed i, WSARecv sock j]))"
proof -
  have "cl_receive = (\<lambda>(st, _, msg). cl_update (int32_of st) msg)"
    by (auto simp: fun_eq_iff cl_receive_def)
  with cl_ready_completion [OF assms, of sock] show ?thesis
    by (auto simp: ok_iff clientStatus_fold)
qed

theorem client_shows_packets_witness:
  "\<exists>c i. cl_main (\<lambda>_. NUL) (\<lambda>_. zero_io) 9 [] 3 = Inr c \<and>
     ok (cl_RecvMsgThread True 27 3 i (cl_arrives i (packet_of (2, 0, ''hi'') @ packet_of (4, 0, ''sss'')) c))
       (\<lambda>c'. clientStatus c' = 2 \<and> console c' = [''hi'', ''sss''])"
proof -
  obtain c i where c: "cl_main (\<lambda>_. NUL) (\<lambda>_. zero_io) 9 [] 3 = Inr c" "cl_ready c {} i {}"
      "clientStatus c = 0" "console c = []"
    using cl_main_ok [of 9 "\<lambda>_. NUL" "\<lambda>_. zero_io" "[]" 3] by (auto simp: ok_iff)
  let ?ms = "[(2, 0, ''hi''), (4, 0, ''sss'')] :: message list"
  have "ok (cl_RecvMsgThread True (length (concat (map packet_of ?ms))) 3 i
      (cl_arrives i (concat (map packet_of ?ms)) c)) (\<lambda>c'.
    console c' = console (fold (\<lambda>(st, _, msg). cl_update (int32_of st) msg) ?ms c) \<and>
    clientStatus c' = last (clientStatus c # filter own_status (map (int32_of \<circ> fst) ?ms)) \<and>
    keyboard c' = keyboard c \<and>
    (\<exists>j. j \<notin> {} \<and> cl_net_inv (cl_net c') {} (insert j {}) \<and>
       wire (cl_net c') = wire (cl_net c) @ [Freed i, WSARecv 3 j]))"
    by (rule client_shows_packets [OF c(2)])
       (simp_all add: sendable_def nul_free_def MAX_TEXT_def packet_of_def BUF_SIZE_def)
  moreover have "length (concat (map packet_of ?ms)) = 27" by (simp add: packet_of_def)
  ultimately show ?thesis
    using c by (intro exI [of _ c] exI [of _ i])
      (auto elim!: ok_mono simp: int32_of_id own_status_def cl_update_def cl_show_def cl_cls_def)
qed

text \<open>
  C13: A text the server sends (at most \<open>MAX_TEXT\<close> bytes, no NUL) is shown by the client that receives
  the packet, byte for byte. A status of its own replaces the client's, clearing the console when it
  changes; a whisper is shown without touching the status; any other text is dropped.
\<close>

theorem server_text_reaches_console:
  assumes server: "net_inv n co mo" and msg: "nul_free msg" "length msg \<le> MAX_TEXT"
    and client: "cl_ready c co' i mo'"
  shows "ok (SendToOneMsg behind msg k st n) (\<lambda>n'. \<exists>bs. sends (wire n') = sends (wire n) @ [(k, bs)] \<and>
    ok (cl_RecvMsgThread True (length bs) sock i (cl_arrives i bs c)) (\<lambda>c'.
      if st \<in> {STATUS_LOGOUT, STATUS_WAITING, STATUS_CHATTIG} then
        clientStatus c' = status_int st \<and>
        console c' = (if clientStatus c = status_int st then console c else []) @ [msg]
      else
        clientStatus c' = clientStatus c \<and>
        console c' = console c @ (if st = STATUS_WHISPER then [msg] else [])))"
proof -
  let ?bs = "wire_packet (status_int st) 0 msg"
  have bs: "?bs = concat (map packet_of [(status_int st, 0, msg)])"
    "length ?bs \<le> BUF_SIZE"
    using msg(2) by (simp_all add: packet_of_def MAX_TEXT_def BUF_SIZE_def)
  have m: "\<forall>m\<in>set [(status_int st, 0, msg)]. sendable m" using msg by (simp add: sendable_def)
  have "int32_of (status_int st) = status_int st" by (cases st) (simp_all add: int32_of_id)
  then have "ok (cl_RecvMsgThread True (length ?bs) sock i (cl_arrives i ?bs c)) (\<lambda>c'.
      if st \<in> {STATUS_LOGOUT, STATUS_WAITING, STATUS_CHATTIG} then
        clientStatus c' = status_int st \<and>
        console c' = (if clientStatus c = status_int st then console c else []) @ [msg]
      else
        clientStatus c' = clientStatus c \<and>
        console c' = console c @ (if st = STATUS_WHISPER then [msg] else []))"
    using cl_ready_completion [OF client _ m bs, of sock]
    by (cases st) (auto elim!: ok_mono simp: cl_receive_def cl_update_def cl_show_def cl_cls_def)
  then show ?thesis
    using posted_one(1) [OF server msg, of behind k st] by (auto elim!: ok_mono simp: posted_def)
qed

theorem server_text_reaches_console_witness:
  "\<exists>c i. cl_main (\<lambda>_. NUL) (\<lambda>_. zero_io) 9 [] 3 = Inr c \<and>
     ok (SendToOneMsg (\<lambda>_. NUL) ''hi'' 7 STATUS_WAITING demo_net) (\<lambda>n'. \<exists>bs.
       sends (wire n') = [(7, bs)] \<and>
       ok (cl_RecvMsgThread True (length bs) 3 i (cl_arrives i bs c))
         (\<lambda>c'. clientStatus c' = 2 \<and> console c' = [''hi'']))"
proof -
  obtain c i where c: "cl_main (\<lambda>_. NUL) (\<lambda>_. zero_io) 9 [] 3 = Inr c" "cl_ready c {} i {}"
      "clientStatus c = 0" "console c = []"
    using cl_main_ok [of 9 "\<lambda>_. NUL" "\<lambda>_. zero_io" "[]" 3] by (auto simp: ok_iff)
  have n: "net_inv demo_net {} {}" "wire demo_net = []"
    by (simp_all add: net_inv_def demo_net_def start_net_def CharPool_new_inv MPool_new_inv)
  have "nul_free ''hi''" "length ''hi'' \<le> MAX_TEXT" by (simp_all add: nul_free_def MAX_TEXT_def)
  from server_text_reaches_console [OF n(1) this c(2), of "\<lambda>_. NUL" 7 STATUS_WAITING 3] c n(2)
  show ?thesis by (intro exI [of _ c] exI [of _ i]) (auto elim!: ok_mono)
qed

section \<open>From the keyboard to the job queue\<close>

text \<open>
  C12: A request the client sends becomes, when it has arrived at the server, exactly one job of the
  client's connection with the direction, the status and the text that were sent.
\<close>

theorem client_request_becomes_job:
  assumes client: "cl_net_inv n co mo" and msg: "nul_free msg" "length msg \<le> MAX_TEXT"
    and server: "cp_inv cp out" "serverMode io = OP_RECV" "length (buffer io) = BUF_SIZE"
  shows "ok (cl_SendMsg behind sock msg st dir n) (\<lambda>n'. \<exists>bs. sends (wire n') = sends (wire n) @ [(sock, bs)] \<and>
    (\<exists>io' cp'. recv_loop k (io\<lparr>buffer := overwrite (buffer io) 0 bs\<rparr>) (int (length bs)) cp [] =
       Some (Inr (0, io', cp', [\<lparr>job_socket = k, job_direction = direction_of_int (int32_of dir),
         job_nowStatus = int32_of st, job_msg = msg\<rparr>])) \<and> cp_inv cp' out))"
proof -
  let ?bs = "wire_packet st dir msg" and ?ms = "[(st, dir, msg)]"
  let ?io = "io\<lparr>buffer := overwrite (buffer io) 0 ?bs\<rparr>"
  have len: "length ?bs \<le> BUF_SIZE" "length msg + 21 \<le> cl_BLOCK_SIZE"
    using msg(2) by (simp_all add: MAX_TEXT_def BUF_SIZE_def cl_BLOCK_SIZE_def)
  have "\<exists>io' cp'. recv_loop k ?io (int (length ?bs)) cp [] =
      Some (Inr (0, io', cp', [] @ map (job_of k) ?ms)) \<and> cp_inv cp' out \<and>
      same_blocks out cp cp' \<and> serverMode io' = OP_RECV \<and> length (buffer io') = BUF_SIZE"
    by (rule recv_loop_packets)
       (use server msg len in \<open>simp_all add: sendable_def packet_of_def overwrite_def\<close>)
  then show ?thesis
    using cl_SendMsg_ok [OF client msg(1) len(2), of behind sock st dir]
    by (auto elim!: ok_mono simp: job_of_def)
qed

theorem client_request_becomes_job_witness:
  "\<exists>c. cl_main (\<lambda>_. NUL) (\<lambda>_. zero_io) 9 [] 3 = Inr c \<and>
     ok (cl_SendMsg (\<lambda>_. NUL) 3 ''den'' (-1) (int_of_direction ROOM_ENTER) (cl_net c)) (\<lambda>n'. \<exists>bs.
       sends (wire n') = [(3, bs)] \<and>
       (\<exists>io' cp'. recv_loop 7 (zero_io\<lparr>serverMode := OP_RECV, buffer := overwrite (replicate BUF_SIZE NUL) 0 bs\<rparr>)
          (int (length bs)) (charPool demo_net) [] =
          Some (Inr (0, io', cp', [\<lparr>job_socket = 7, job_direction = ROOM_ENTER,
            job_nowStatus = -1, job_msg = ''den''\<rparr>]))))"
proof -
  obtain c i where c: "cl_main (\<lambda>_. NUL) (\<lambda>_. zero_io) 9 [] 3 = Inr c" "cl_ready c {} i {}"
      "wire (cl_net c) = [WSARecv 3 i]"
    using cl_main_ok [of 9 "\<lambda>_. NUL" "\<lambda>_. zero_io" "[]" 3] by (auto simp: ok_iff)
  let ?io = "zero_io\<lparr>serverMode := OP_RECV\<rparr>"
  have "cl_net_inv (cl_net c) {} (insert i {})" using c(2) by (simp add: cl_ready_def)
  moreover have "nul_free ''den''" "length ''den'' \<le> MAX_TEXT" by (simp_all add: nul_free_def MAX_TEXT_def)
  moreover have "cp_inv (charPool demo_net) {}" "serverMode ?io = OP_RECV" "length (buffer ?io) = BUF_SIZE"
    by (simp_all add: demo_net_def start_net_def CharPool_new_inv zero_io_def)
  ultimately have "ok (cl_SendMsg (\<lambda>_. NUL) 3 ''den'' (-1) (int_of_direction ROOM_ENTER) (cl_net c)) (\<lambda>n'. \<exists>bs.
      sends (wire n') = sends (wire (cl_net c)) @ [(3, bs)] \<and>
      (\<exists>io' cp'. recv_loop 7 (?io\<lparr>buffer := overwrite (buffer ?io) 0 bs\<rparr>) (int (length bs)) (charPool demo_net) [] =
       Some (Inr (0, io', cp', [\<lparr>job_socket = 7, job_direction = direction_of_int (int32_of (int_of_direction ROOM_ENTER)),
         job_nowStatus = int32_of (-1), job_msg = ''den''\<rparr>])) \<and> cp_inv cp' {}))"
    by (rule client_request_becomes_job)
  moreover have "direction_of_int (int32_of (int_of_direction ROOM_ENTER)) = ROOM_ENTER"
    by (simp add: int_of_direction_def direction_table_def int32_of_id direction_of_int_def)
  ultimately show ?thesis
    using c by (intro exI [of _ c]) (auto elim!: ok_mono simp: zero_io_def int32_of_id)
qed

section \<open>The registration form\<close>

lemma NUL_strncpy: "nul_free s \<Longrightarrow> NUL \<in> set (strncpy n s) \<longleftrightarrow> length s < n"
  by (auto simp: strncpy_def nul_free_def dest: in_set_takeD)

lemma UserMake_fields:
  assumes t: "tokens 3 message = Inr [a, b, d]" and nf: "nul_free a" "nul_free b" "nul_free d"
    and db: "SQLExecute env (database s) q_selectUser [SqlText (take 10 a)] [10, 10, 20] = (db', res, f)"
      "f 0 = NO_DATA"
  shows "ok (UserMake env k message s) (\<lambda>_. True) \<longleftrightarrow> length b < 10 \<and> length d < NAME_SIZE"
proof -
  let ?vo = "UserVo_copy (setUserId '''' (setUserId a UserVo_new))"
  let ?v = "setNickName d (setPassword b (setUserId a ?vo))"
  have u: "userId_v ?vo = strncpy 20 ''''" "length (nickName_v ?vo) = 20" "length (password_v ?vo) = 10"
    by (simp_all add: UserVo_copy_def Vo_copy_def vo_defs vo_simps)
  have "cstr (userId_v ?v) = Inr (take 10 a)"
    using nf(1) u by (simp add: vo_defs cstr_strncpy_into)
  then have "NUL \<in> set (userId_v ?v)" by (simp add: cstr_Inr_iff)
  moreover have "password_v ?v = strncpy 10 b" "nickName_v ?v = strncpy 20 d"
    using u by (simp_all add: vo_defs strncpy_into_full)
  ultimately have "ok (InsertUser env ?v db') (\<lambda>_. True) \<longleftrightarrow> length b < 10 \<and> length d < NAME_SIZE"
    using nf by (simp add: InsertUser_ok NUL_strncpy NAME_SIZE_def)
  then show ?thesis
    by (simp add: UserMake_def t selectUser_none [OF db nf(1)] UserVo_none(1) Let_def)
qed

lemma cl_request_sent:
  assumes inv: "cl_net_inv (cl_net c) co mo" and msg: "nul_free msg" "length msg + 21 \<le> cl_BLOCK_SIZE"
    and ne: "msg \<noteq> ''''" and l: "keyboard c = l # ls"
    and menu: "(if clientStatus c = status_int STATUS_LOGOUT then menu_logout l (c\<lparr>keyboard := ls\<rparr>)
        else if clientStatus c = status_int STATUS_WAITING then menu_waiting l (c\<lparr>keyboard := ls\<rparr>)
        else if clientStatus c = status_int STATUS_CHATTIG then
          menu_chatting behind files sock l (c\<lparr>keyboard := ls\<rparr>)
        else Inr (Request l no_direction (-1), c\<lparr>keyboard := ls\<rparr>)) =
          Inr (Request msg dir st, c\<lparr>keyboard := rest\<rparr>)"
  shows "ok (cl_SendMsgThread behind files sock c) (\<lambda>c'. keyboard c' = rest \<and> console c' = console c \<and>
    clientStatus c' = clientStatus c \<and>
    sends (wire (cl_net c')) = sends (wire (cl_net c)) @ [(sock, wire_packet st dir msg)])"
proof -
  obtain n where n: "cl_SendMsg behind sock msg st dir (cl_net c) = Inr n"
    "sends (wire n) = sends (wire (cl_net c)) @ [(sock, wire_packet st dir msg)]"
    using cl_SendMsg_ok [OF inv msg, of behind sock st dir] by (auto simp: ok_iff)
  have g: "getline c = Inr (l, c\<lparr>keyboard := ls\<rparr>)" using l by (simp add: getline_def)
  have st: "clientStatus (c\<lparr>keyboard := ls\<rparr>) = clientStatus c" by simp
  have "cl_SendMsgThread behind files sock c = Inr (c\<lparr>keyboard := rest, cl_net := n\<rparr>)"
    unfolding cl_SendMsgThread_def g sbind.simps prod.case st menu using ne n(1) by simp
  then show ?thesis using n(2) by simp
qed



section \<open>A bot registers\<close>

text \<open>
  C30: A bot that is not logged in and draws the registration: one turn of \<open>MakeMsgThread\<close> and one of
  \<open>SendMsgThread\<close> put it back in the make queue and send a packet that becomes one job for a new
  account at the server, with the bot's id as id and as nickname. The server can store the account
  for the first 988 bots only: from then on the nickname has twenty bytes or more and the server reads
  past the array.
\<close>

theorem bot_registers:
  assumes bot: "makeQueue b = info # q" "bot_sendQueue b = []" "map_of (clientMap b) (ic_Sock info) = Some found"
      "ic_clientStatus found = status_int STATUS_LOGOUT" "ic_id found = bot_id j" "j < 25000"
      "rnd 0 mod 2 = 1" "cl_net_inv (bot_net b) co mo"
    and server: "cp_inv cp out" "serverMode io = OP_RECV" "length (buffer io) = BUF_SIZE"
    and db: "SQLExecute env (database s) q_selectUser [SqlText (take 10 (bot_id j))] [10, 10, 20] = (db', res, f)"
      "f 0 = NO_DATA"
  shows "ok (sbind (bot_MakeMsgThread rnd raw b) (bot_SendMsgThread behind raw)) (\<lambda>b'. \<exists>bs.
      map ic_Sock (makeQueue b') = map ic_Sock (q @ [info]) \<and> bot_sendQueue b' = [] \<and>
      sends (wire (bot_net b')) = sends (wire (bot_net b)) @ [(ic_Sock info, bs)] \<and>
      (\<exists>io' cp' st. recv_loop k (io\<lparr>buffer := overwrite (buffer io) 0 bs\<rparr>) (int (length bs)) cp [] =
         Some (Inr (0, io', cp', [\<lparr>job_socket = k, job_direction = USER_MAKE, job_nowStatus = st,
           job_msg = join_args [bot_id j, bot_password, bot_id j]\<rparr>])))) \<and>
    (ok (UserMake env k (join_args [bot_id j, bot_password, bot_id j]) s) (\<lambda>_. True) \<longleftrightarrow> j < 988)"
proof
  let ?msg = "join_args [bot_id j, bot_password, bot_id j]" and ?dir = "int_of_direction USER_MAKE"
  let ?args = "[bot_id j, bot_password, bot_id j]"
  have len: "length (bot_id j) = j div 52 + 1" by (simp add: bot_id_def)
  have free: "nul_free (bot_id j)" "CHR 0x5C \<notin> set (bot_id j)" "nul_free bot_password" "CHR 0x5C \<notin> set bot_password"
    using bot_id_plain by (auto simp: nul_free_def bot_password_def)
  have ne: "bot_id j \<noteq> []" "bot_password \<noteq> []" using len by (auto simp: bot_password_def)
  have "j div 52 < 481" using bot(6) by (simp add: div_less_iff_less_mult)
  then have room: "length ?msg \<le> MAX_TEXT" using len by (simp add: MAX_TEXT_def bot_password_def)
  have msg: "nul_free ?msg" "length ?msg + 21 \<le> cl_BLOCK_SIZE" "length ?msg < BUF_SIZE"
    using free room by (simp_all add: nul_free_def cl_BLOCK_SIZE_def BUF_SIZE_def MAX_TEXT_def)
  define b1 where "b1 = b\<lparr>makeQueue := q, bot_sendQueue := [info\<lparr>ic_direction := ?dir, ic_message := ?msg,
    ic_job := 0\<rparr>]\<rparr>"
  have "bot_MakeMsgThread rnd raw b = Inr b1"
    using bot(1-5,7) by (simp add: bot_MakeMsgThread_def popMakeQueue_def pushSendQueue_def bot_command_def
        am_at_find Let_def b1_def)
  moreover obtain n i st where n: "bot_SendMsg behind (ic_Sock info) ?msg ?dir (bot_net b) = Inr n"
      "wire n = wire (bot_net b) @ [WSASend (ic_Sock info) (wire_packet st ?dir ?msg) i]"
    using bot_SendMsg_ok [OF bot(8) msg(1,2), of behind "ic_Sock info" ?dir] by (auto simp: ok_iff)
  then have "bot_SendMsgThread behind raw b1 = Inr (b1\<lparr>bot_sendQueue := [], bot_net := n, makeQueue := q @
      [info\<lparr>ic_direction := ?dir, ic_message := ?msg, ic_job := 0\<rparr>]\<rparr>)"
    by (simp add: bot_SendMsgThread_def popSendQueue_def pushMakeQueue_def b1_def)
  ultimately have turns: "sbind (bot_MakeMsgThread rnd raw b) (bot_SendMsgThread behind raw) =
      Inr (b1\<lparr>bot_sendQueue := [], bot_net := n, makeQueue := q @
        [info\<lparr>ic_direction := ?dir, ic_message := ?msg, ic_job := 0\<rparr>]\<rparr>)"
    by simp
  let ?bs = "wire_packet st ?dir ?msg" and ?ms = "[(st, ?dir, ?msg)]"
  have "length ?bs \<le> BUF_SIZE" using room by (simp add: MAX_TEXT_def BUF_SIZE_def del: join_args.simps)
  have "\<exists>io' cp'. recv_loop k (io\<lparr>buffer := overwrite (buffer io) 0 ?bs\<rparr>) (int (length ?bs)) cp [] =
      Some (Inr (0, io', cp', [] @ map (job_of k) ?ms)) \<and> cp_inv cp' out \<and>
      same_blocks out cp cp' \<and> serverMode io' = OP_RECV \<and> length (buffer io') = BUF_SIZE"
    by (rule recv_loop_packets)
       (use server msg(1) room \<open>length ?bs \<le> BUF_SIZE\<close> in
         \<open>simp_all add: sendable_def packet_of_def overwrite_def del: join_args.simps\<close>)
  moreover have "direction_of_int (int32_of ?dir) = USER_MAKE"
    by (simp add: int_of_direction_def direction_table_def int32_of_id direction_of_int_def)
  ultimately have "\<exists>io' cp' st. recv_loop k (io\<lparr>buffer := overwrite (buffer io) 0 ?bs\<rparr>) (int (length ?bs)) cp [] =
      Some (Inr (0, io', cp', [\<lparr>job_socket = k, job_direction = USER_MAKE, job_nowStatus = st, job_msg = ?msg\<rparr>]))"
    by (auto simp: job_of_def simp del: join_args.simps)
  then show "ok (sbind (bot_MakeMsgThread rnd raw b) (bot_SendMsgThread behind raw)) (\<lambda>b'. \<exists>bs.
      map ic_Sock (makeQueue b') = map ic_Sock (q @ [info]) \<and> bot_sendQueue b' = [] \<and>
      sends (wire (bot_net b')) = sends (wire (bot_net b)) @ [(ic_Sock info, bs)] \<and>
      (\<exists>io' cp' st. recv_loop k (io\<lparr>buffer := overwrite (buffer io) 0 bs\<rparr>) (int (length bs)) cp [] =
         Some (Inr (0, io', cp', [\<lparr>job_socket = k, job_direction = USER_MAKE, job_nowStatus = st,
           job_msg = ?msg\<rparr>]))))"
    unfolding turns ok_iff using n(2)
    by (rule_tac exI, rule_tac conjI [OF refl], rule_tac exI [of _ ?bs]) (simp del: join_args.simps)
  have "pieces (CHR 0x5C) ?msg = ?args"
    using free ne by (simp add: pieces_def split_on_sep split_on_free)
  then have "tokens 3 ?msg = Inr ?args" using tokens_pieces [OF msg(1,3)] by simp
  moreover have "length bot_password < 10" by (simp add: bot_password_def)
  moreover have "length (bot_id j) < NAME_SIZE \<longleftrightarrow> j < 988"
    unfolding len NAME_SIZE_def by (simp add: div_less_iff_less_mult [of 52 j 19, simplified])
  ultimately show "ok (UserMake env k ?msg s) (\<lambda>_. True) \<longleftrightarrow> j < 988"
    using UserMake_fields [OF _ free(1,3,1) db, of ?msg k] by simp
qed

definition bot_1000 :: INFO_CLIENT where "bot_1000 = bot_info raw_info 4 1000"

definition late_bot :: bots where
  "late_bot = \<lparr>clientMap = [(4, bot_1000)], makeQueue = [bot_1000], bot_sendQueue = [],
     bot_net = \<lparr>charPool = cl_CharPool_new (\<lambda>_. NUL) 9, ioPool = cl_MPool_new (\<lambda>_. zero_io) 9, wire = []\<rparr>\<rparr>"

definition no_accounts :: "stmt list cfg" where
  "no_accounts = demo_cfg\<lparr>exec := (\<lambda>db st. (db @ [st], 1, \<lambda>i. NO_DATA))\<rparr>"

theorem bot_registers_witness:
  "ok (sbind (bot_MakeMsgThread (\<lambda>_. 1) raw_info late_bot) (bot_SendMsgThread (\<lambda>_. NUL) raw_info)) (\<lambda>b'. \<exists>bs.
     map ic_Sock (makeQueue b') = [4] \<and> sends (wire (bot_net b')) = [(4, bs)] \<and>
     (\<exists>io' cp' st. recv_loop 7 (zero_io\<lparr>serverMode := OP_RECV, buffer := overwrite (replicate BUF_SIZE NUL) 0 bs\<rparr>)
        (int (length bs)) (charPool demo_net) [] =
        Some (Inr (0, io', cp', [\<lparr>job_socket = 7, job_direction = USER_MAKE, job_nowStatus = st,
          job_msg = join_args [bot_id 1000, bot_password, bot_id 1000]\<rparr>])))) \<and>
   \<not> ok (UserMake no_accounts 7 (join_args [bot_id 1000, bot_password, bot_id 1000]) demo_world) (\<lambda>_. True)"
proof -
  let ?io = "zero_io\<lparr>serverMode := OP_RECV\<rparr>"
  have bot: "makeQueue late_bot = [bot_1000]" "bot_sendQueue late_bot = []"
    "map_of (clientMap late_bot) (ic_Sock bot_1000) = Some bot_1000"
    "ic_clientStatus bot_1000 = status_int STATUS_LOGOUT" "ic_id bot_1000 = bot_id 1000" "(1000::nat) < 25000"
    "(1::nat) mod 2 = 1" "wire (bot_net late_bot) = []" "ic_Sock bot_1000 = 4"
    by (simp_all add: late_bot_def bot_1000_def bot_info_def)
  have inv: "cl_net_inv (bot_net late_bot) {} {}"
    by (simp add: late_bot_def cl_net_inv_def cl_CharPool_new_inv cl_MPool_new_inv)
  have server: "cp_inv (charPool demo_net) {}" "serverMode ?io = OP_RECV" "length (buffer ?io) = BUF_SIZE"
    by (simp_all add: demo_net_def start_net_def CharPool_new_inv zero_io_def)
  let ?st = "\<lparr>query = q_selectUser, params = [SqlText (take 10 (bot_id 1000))], cols = [10, 10, 20]\<rparr>"
  have q: "SQLExecute no_accounts (database demo_world) q_selectUser [SqlText (take 10 (bot_id 1000))]
      [10, 10, 20] = ([?st], 1, \<lambda>i. NO_DATA)"
    by (simp add: SQLExecute_def no_accounts_def)
  show ?thesis
    using bot_registers [OF bot(1-6) _ inv server q refl, of "\<lambda>_. 1" raw_info "\<lambda>_. NUL" 7] bot(7-9)
    by (auto elim!: ok_mono simp: zero_io_def simp del: join_args.simps)
qed

section \<open>Files\<close>

lemma erase_dirs_plain:
  assumes "dropWhile (\<lambda>c. c \<noteq> CHR 0x2F) s = []"
  shows "erase_dirs s = s" "CHR 0x2F \<notin> set s"
proof -
  show "erase_dirs s = s" by (subst erase_dirs.simps) (simp only: assms list.case)
  show "CHR 0x2F \<notin> set s" using assms by (auto simp: dropWhile_eq_Nil_conv)
qed

lemma erase_dirs_slash:
  assumes "dropWhile (\<lambda>c. c \<noteq> CHR 0x2F) s = x # r"
  shows "erase_dirs s = erase_dirs r" "set r \<subseteq> set s"
proof -
  show "erase_dirs s = erase_dirs r" by (subst erase_dirs.simps) (simp only: assms list.case)
  show "set r \<subseteq> set s" using set_dropWhileD [of _ "\<lambda>c. c \<noteq> CHR 0x2F" s] unfolding assms by auto
qed

lemma erase_dirs_base: "CHR 0x2F \<notin> set (erase_dirs s) \<and> set (erase_dirs s) \<subseteq> set s"
proof (induction s rule: erase_dirs.induct)
  case (1 s)
  show ?case
  proof (cases "dropWhile (\<lambda>c. c \<noteq> CHR 0x2F) s")
    case Nil
    from erase_dirs_plain [OF this] show ?thesis by simp
  next
    case (Cons x r)
    from 1 [OF Cons] erase_dirs_slash [OF Cons] show ?thesis by auto
  qed
qed

lemma nul_free_path: "nul_free path \<Longrightarrow> nul_free (erase_dirs (replaceFileDir path))"
  using erase_dirs_base [of "replaceFileDir path"]
  by (auto simp: nul_free_def replaceFileDir_def split: if_splits)

text \<open>
  C32: The line \<open>\send\<close> in a room and the path of an existing file: the client announces the file with an
  empty \<open>FILE_SEND\<close> packet and sends datagrams from which the server's \<open>RecvFile\<close> stores the same
  bytes under the name of the file, without its directories.
\<close>

theorem console_file_reaches_server:
  assumes c: "clientStatus c = status_int STATUS_CHATTIG" "cl_net_inv (cl_net c) co mo"
    and typed: "keyboard c = l # path # rest" "contains s_send l" "\<not> contains s_good l" "l \<noteq> s_clear"
    and src: "files (replaceFileDir path) = Some content" "nul_free path"
    and name: "name = erase_dirs (replaceFileDir path)" "length name < 4086"
    and server: "can_create env (''Downloads'' @ ''/'' @ name)" "nul_free username" "length username < 20"
  shows "CHR 0x2F \<notin> set name \<and>
    ok (cl_SendMsgThread behind files sock c) (\<lambda>c'. keyboard c' = rest \<and>
      sends (wire (cl_net c')) = sends (wire (cl_net c)) @
        [(sock, wire_packet (-1) (int_of_direction FILE_SEND) '''')] \<and>
      (\<exists>ds. udp_sent c' = udp_sent c @ ds \<and>
        ok (RecvFile env username (u\<lparr>udp_in := ds\<rparr>) db) (\<lambda>(stored, u', db').
          stored = ''Downloads'' @ ''/'' @ name \<and> map_of (disk u') stored = Some content \<and> udp_in u' = [])))"
proof
  show "CHR 0x2F \<notin> set name" using erase_dirs_base name(1) by blast
  let ?c = "c\<lparr>keyboard := rest\<rparr>"
  have nf: "nul_free name" "nul_free (replaceFileDir path)"
    using nul_free_path [OF src(2)] src(2) name(1)
    by (auto simp: nul_free_def replaceFileDir_def split: if_splits)
  obtain n where n: "cl_SendMsg behind sock '''' (-1) (int_of_direction FILE_SEND) (cl_net c) = Inr n"
    "sends (wire n) = sends (wire (cl_net c)) @ [(sock, wire_packet (-1) (int_of_direction FILE_SEND) '''')]"
    using cl_SendMsg_ok [OF c(2), of "''''" behind sock "-1" "int_of_direction FILE_SEND"]
    by (auto simp: ok_iff cl_BLOCK_SIZE_def)
  have "cstr (strncpy BUF_SIZE name) = Inr name"
    using nf(1) name(2) by (simp add: cstr_strncpy BUF_SIZE_def)
  then have fs: "cl_FileSend content (replaceFileDir path) (?c\<lparr>cl_net := n\<rparr>) =
      Inr (?c\<lparr>cl_net := n, udp_sent := udp_sent c @ name # file_chunks content\<rparr>)"
    using nf(1) by (simp add: cl_FileSend_def upto_nul_id flip: name(1))
  have "cl_SendMsgThread behind files sock c =
      Inr (?c\<lparr>cl_net := n, udp_sent := udp_sent c @ name # file_chunks content\<rparr>)"
    using c(1) typed src(1) n(1) fs nf(2)
    by (simp add: cl_SendMsgThread_def getline_def menu_chatting_def upto_nul_id Let_def)
  moreover have "ok (RecvFile env username (u\<lparr>udp_in := name # file_chunks content\<rparr>) db) (\<lambda>(stored, u', db').
      stored = ''Downloads'' @ ''/'' @ name \<and> map_of (disk u') stored = Some content \<and> udp_in u' = [])"
    by (rule ok_mono [OF RecvFile_ok [of _ name content "[]"]])
       (use nf(1) name(2) server in auto)
  ultimately show "ok (cl_SendMsgThread behind files sock c) (\<lambda>c'. keyboard c' = rest \<and>
      sends (wire (cl_net c')) = sends (wire (cl_net c)) @
        [(sock, wire_packet (-1) (int_of_direction FILE_SEND) '''')] \<and>
      (\<exists>ds. udp_sent c' = udp_sent c @ ds \<and>
        ok (RecvFile env username (u\<lparr>udp_in := ds\<rparr>) db) (\<lambda>(stored, u', db').
          stored = ''Downloads'' @ ''/'' @ name \<and> map_of (disk u') stored = Some content \<and> udp_in u' = [])))"
    using n(2) by simp
qed

theorem console_file_reaches_server_witness:
  "\<exists>c. cl_main (\<lambda>_. NUL) (\<lambda>_. zero_io) 9 [CHR 0x5C # ''send'', ''d/a.txt''] 3 = Inr c \<and>
     ok (cl_SendMsgThread (\<lambda>_. NUL) [''d/a.txt'' \<mapsto> ''data''] 3 (c\<lparr>clientStatus := 3\<rparr>)) (\<lambda>c'.
       ok (RecvFile demo_cfg ''Ann'' \<lparr>udp_in = udp_sent c', udp_out = [], disk = []\<rparr> [])
         (\<lambda>(stored, u', db'). stored = ''Downloads/a.txt'' \<and> map_of (disk u') stored = Some ''data''))"
proof -
  let ?lines = "[CHR 0x5C # ''send'', ''d/a.txt'']"
  obtain c i where c: "cl_main (\<lambda>_. NUL) (\<lambda>_. zero_io) 9 ?lines 3 = Inr c" "cl_ready c {} i {}"
      "keyboard c = ?lines" "udp_sent c = []"
    using cl_main_ok [of 9 "\<lambda>_. NUL" "\<lambda>_. zero_io" ?lines 3] by (auto simp: ok_iff)
  let ?c = "c\<lparr>clientStatus := 3\<rparr>" and ?u = "\<lparr>udp_in = [], udp_out = [], disk = []\<rparr>"
  have inv: "cl_net_inv (cl_net ?c) {} {i}" using c(2) by (simp add: cl_ready_def)
  have st: "clientStatus ?c = status_int STATUS_CHATTIG" by simp
  have typed: "keyboard ?c = (CHR 0x5C # ''send'') # ''d/a.txt'' # []" using c(3) by simp
  have path: "replaceFileDir ''d/a.txt'' = ''d/a.txt''" by (simp add: replaceFileDir_def)
  have name: "''a.txt'' = erase_dirs (replaceFileDir ''d/a.txt'')"
    unfolding path by (subst erase_dirs.simps, simp)+
  have "ok (cl_SendMsgThread (\<lambda>_. NUL) [''d/a.txt'' \<mapsto> ''data''] 3 ?c) (\<lambda>c'. keyboard c' = [] \<and>
      sends (wire (cl_net c')) = sends (wire (cl_net ?c)) @
        [(3, wire_packet (-1) (int_of_direction FILE_SEND) '''')] \<and>
      (\<exists>ds. udp_sent c' = udp_sent ?c @ ds \<and>
        ok (RecvFile demo_cfg ''Ann'' (?u\<lparr>udp_in := ds\<rparr>) []) (\<lambda>(stored, u', db').
          stored = ''Downloads'' @ ''/'' @ ''a.txt'' \<and> map_of (disk u') stored = Some ''data'' \<and> udp_in u' = [])))"
    by (rule console_file_reaches_server [OF st inv typed _ _ _ _ _ name, THEN conjunct2])
       (simp_all add: path s_send_def s_good_def s_clear_def nul_free_def)
  then show ?thesis using c by (intro exI [of _ c]) (auto elim!: ok_mono)
qed



section \<open>When the server goes away\<close>

text \<open>
  A reset connection ends the client with its message; an orderly close, which completes the
  receive successfully with no bytes, makes it copy the message of a packet it never read, through
  the null \<open>recvBuffer\<close> of a fresh structure.
\<close>

theorem orderly_close_crashes_client:
  assumes "cl_ready c co i mo" and "recvBuffer (mp_mem (ioPool (cl_net c)) i) = 0"
    and "\<not> in_region (cp_regions (charPool (cl_net c))) 2 4"
  shows "cl_RecvMsgThread True 0 sock i c = Inl HeapOverflow \<and>
    cl_RecvMsgThread False 0 sock i c = Inl ProcessExit"
proof
  let ?io = "mp_mem (ioPool (cl_net c)) i"
  have "mp_inv (ioPool (cl_net c)) (insert i mo)" and mode: "serverMode ?io = OP_READ"
    using assms(1) by (simp_all add: cl_ready_def cl_net_inv_def)
  then have get: "mp_get (ioPool (cl_net c)) i = Inr ?io" using ok_mp_get by blast
  have "cl_PacketReading ?io 0 (charPool (cl_net c)) = Inr (0, ?io, charPool (cl_net c))"
    using mode by (simp add: cl_PacketReading_def)
  moreover have "cl_DataCopy ?io (charPool (cl_net c)) = Inl HeapOverflow"
    using assms(2,3) by (simp add: cl_DataCopy_def cp_read_def numeral_2_eq_2)
  ultimately have "cl_recv_loop ?io 0 (charPool (cl_net c)) c = Some (Inl HeapOverflow)"
    unfolding cl_recv_loop_def by (subst packet_loop.simps) (simp add: cl_handle_def)
  then show "cl_RecvMsgThread True 0 sock i c = Inl HeapOverflow"
    using get mode by (simp add: cl_RecvMsgThread_def cl_recv_completed_def short_of_id BUF_SIZE_def Let_def)
  show "cl_RecvMsgThread False 0 sock i c = Inl ProcessExit"
    by (simp add: cl_RecvMsgThread_def short_of_id)
qed

theorem orderly_close_crashes_client_witness:
  "\<exists>c i. cl_main (\<lambda>_. NUL) (\<lambda>_. zero_io) 9 [] 3 = Inr c \<and>
     cl_RecvMsgThread True 0 3 i c = Inl HeapOverflow \<and> cl_RecvMsgThread False 0 3 i c = Inl ProcessExit"
proof -
  obtain c i where c: "cl_main (\<lambda>_. NUL) (\<lambda>_. zero_io) 9 [] 3 = Inr c" "cl_ready c {} i {}"
      "recvBuffer (mp_mem (ioPool (cl_net c)) i) = 0"
      "cp_regions (charPool (cl_net c)) = [(9, cl_BLOCK_SIZE * cl_POOL_BLOCKS)]"
    using cl_main_ok [of 9 "\<lambda>_. NUL" "\<lambda>_. zero_io" "[]" 3] by (auto simp: ok_iff)
  then have "\<not> in_region (cp_regions (charPool (cl_net c))) 2 4" by (simp add: in_region_def)
  from orderly_close_crashes_client [OF c(2,3) this, of 3] c(1) show ?thesis by blast
qed

section \<open>Lines that are too long\<close>

text \<open>
  C40: The client sends lines of up to 4075 bytes, in blocks of 4096. A line of 1014 bytes or more, in
  one receive, does not fit the block of 1024 the server copies it to: the rest of the packet lands
  in the next block.
\<close>

theorem long_line_overruns_server_block:
  assumes client: "cl_net_inv n co mo" "nul_free msg" "length msg + 21 \<le> cl_BLOCK_SIZE"
    and server: "CharPool_Malloc cp = Inr (a, cp1)" "in_region (cp_regions cp1) a (length msg + 11)"
      "serverMode io = OP_RECV" "length (buffer io) = BUF_SIZE"
  shows "ok (cl_SendMsg behind sock msg st dir n) (\<lambda>n'. \<exists>bs. sends (wire n') = sends (wire n) @ [(sock, bs)] \<and>
    ok (PacketReading (io\<lparr>buffer := overwrite (buffer io) 0 bs\<rparr>) (int (length bs)) cp) (\<lambda>(r, io', cp').
      r = 0 \<and> recvBuffer io' = a \<and>
      (\<forall>j. BLOCK_SIZE \<le> j \<and> j < length msg + 11 \<longrightarrow> cp_mem cp' (a + j) = bs ! j)))"
proof -
  let ?bs = "wire_packet st dir msg"
  let ?io = "io\<lparr>buffer := overwrite (buffer io) 0 ?bs\<rparr>"
  have len: "length msg + 11 \<le> BUF_SIZE" using client(3) by (simp add: cl_BLOCK_SIZE_def BUF_SIZE_def)
  have buf: "length (buffer ?io) = BUF_SIZE" "take (length msg + 11) (buffer ?io) = ?bs @ []"
    using server(4) len by (simp_all add: overwrite_def)
  note front = packet_front [OF buf _ len]
  have "cp_write cp1 a ?bs = Inr (cp1\<lparr>cp_mem := mem_put (cp_mem cp1) a ?bs\<rparr>)"
    using server(2) by (simp add: cp_write_def)
  then have "PacketReading ?io (int (length msg + 11)) cp =
      Inr (0, ?io\<lparr>bodySize := int (length msg + 11), recvBuffer := a\<rparr>,
        cp1\<lparr>cp_mem := mem_put (cp_mem cp1) a ?bs\<rparr>)"
    using server(1,3) front(1,2,4) by (simp add: PacketReading_def)
  then have "ok (PacketReading ?io (int (length ?bs)) cp) (\<lambda>(r, io', cp').
      r = 0 \<and> recvBuffer io' = a \<and>
      (\<forall>j. BLOCK_SIZE \<le> j \<and> j < length msg + 11 \<longrightarrow> cp_mem cp' (a + j) = ?bs ! j))"
    by (simp add: mem_put_def)
  then show ?thesis
    using cl_SendMsg_ok [OF client, of behind sock st dir] by (auto elim!: ok_mono)
qed

theorem long_line_overruns_server_block_witness:
  "\<exists>c. cl_main (\<lambda>_. NUL) (\<lambda>_. zero_io) 9 [] 3 = Inr c \<and>
     ok (cl_SendMsg (\<lambda>_. NUL) 3 (replicate 1100 (CHR ''y'')) (-1) 3 (cl_net c)) (\<lambda>n'. \<exists>bs.
       sends (wire n') = [(3, bs)] \<and>
       ok (PacketReading (zero_io\<lparr>serverMode := OP_RECV, buffer := overwrite (replicate BUF_SIZE NUL) 0 bs\<rparr>)
           (int (length bs)) (two_blocks\<lparr>poolQueue := [1]\<rparr>))
         (\<lambda>(r, io', cp'). cp_mem cp' 1025 = bs ! 1024))"
proof -
  obtain c i where c: "cl_main (\<lambda>_. NUL) (\<lambda>_. zero_io) 9 [] 3 = Inr c" "cl_ready c {} i {}"
      "wire (cl_net c) = [WSARecv 3 i]"
    using cl_main_ok [of 9 "\<lambda>_. NUL" "\<lambda>_. zero_io" "[]" 3] by (auto simp: ok_iff)
  let ?io = "zero_io\<lparr>serverMode := OP_RECV\<rparr>" and ?cp = "two_blocks\<lparr>poolQueue := [1]\<rparr>"
  let ?msg = "replicate 1100 (CHR ''y'')"
  have "cl_net_inv (cl_net c) {} (insert i {})" using c(2) by (simp add: cl_ready_def)
  moreover have "nul_free ?msg" "length ?msg + 21 \<le> cl_BLOCK_SIZE"
    by (simp_all add: nul_free_def cl_BLOCK_SIZE_def)
  moreover have "CharPool_Malloc ?cp = Inr (1, ?cp\<lparr>poolQueue := []\<rparr>)"
    "in_region (cp_regions (?cp\<lparr>poolQueue := []\<rparr>)) 1 (length ?msg + 11)"
    by (simp_all add: CharPool_Malloc_def ConcurrentQueue_empty_def ConcurrentQueue_top_def
        two_blocks_def in_region_def)
  moreover have "serverMode ?io = OP_RECV" "length (buffer ?io) = BUF_SIZE" by (simp_all add: zero_io_def)
  ultimately have "ok (cl_SendMsg (\<lambda>_. NUL) 3 ?msg (-1) 3 (cl_net c)) (\<lambda>n'. \<exists>bs.
      sends (wire n') = sends (wire (cl_net c)) @ [(3, bs)] \<and>
      ok (PacketReading (?io\<lparr>buffer := overwrite (buffer ?io) 0 bs\<rparr>) (int (length bs)) ?cp) (\<lambda>(r, io', cp').
        r = 0 \<and> recvBuffer io' = 1 \<and>
        (\<forall>j. BLOCK_SIZE \<le> j \<and> j < length ?msg + 11 \<longrightarrow> cp_mem cp' (1 + j) = bs ! j)))"
    by (rule long_line_overruns_server_block)
  then show ?thesis
    using c by (intro exI [of _ c])
      (auto elim!: ok_mono allE [of _ "1024 :: nat"] simp: zero_io_def BLOCK_SIZE_def)
qed

end
