(* ===== verification/MemPools.thy ===== *)
theory MemPools
  imports Pools "HOL-Library.Signed_Division"
begin

text \<open>
  The pools tried out in \<open>src/Chat/MemoryPool/MemoryPool.cpp\<close>: an intrusive list, a queue, a stack of
  indices, and two with an array of flags. Blocks are 100 bytes (\<open>sizeof(PER_IO_DATA)\<close> of that file)
  or 256. Unlike the pools of the server, the first three have a fixed number of blocks; the locale
  \<open>fixed_pool\<close> says what a fixed pool owes its users.
\<close>

section \<open>The contract of a fixed pool\<close>

locale fixed_pool =
  fixes malloc :: "'p \<Rightarrow> cpp_error + nat \<times> 'p"
    and free :: "nat \<Rightarrow> 'p \<Rightarrow> cpp_error + 'p"
    and inv :: "'p \<Rightarrow> nat set \<Rightarrow> bool"
    and blocks :: "'p \<Rightarrow> nat set"
    and bsize :: nat
  assumes malloc_ok: "inv p out \<Longrightarrow> out \<noteq> blocks p \<Longrightarrow>
      ok (malloc p) (\<lambda>(a, p'). a \<in> blocks p - out \<and> inv p' (insert a out) \<and> blocks p' = blocks p)"
    and free_ok: "inv p out \<Longrightarrow> a \<in> out \<Longrightarrow> ok (free a p) (\<lambda>p'. inv p' (out - {a}) \<and> blocks p' = blocks p)"
    and inv_sub: "inv p out \<Longrightarrow> out \<subseteq> blocks p"
    and fin: "finite (blocks p)"
    and apart: "inv p out \<Longrightarrow> a \<in> blocks p \<Longrightarrow> b \<in> blocks p \<Longrightarrow> a \<noteq> b \<Longrightarrow> a + bsize \<le> b \<or> b + bsize \<le> a"
begin

text \<open>As many blocks as the pool has can be taken, all different.\<close>

lemma malloc_many_ok:
  assumes "inv p out" and "card out + n \<le> card (blocks p)"
  shows "ok (malloc_many malloc n p) (\<lambda>(as, p'). length as = n \<and> distinct as \<and> set as \<inter> out = {} \<and>
    inv p' (set as \<union> out) \<and> blocks p' = blocks p)"
  using assms
proof (induction n arbitrary: p out)
  case (Suc n)
  have "out \<noteq> blocks p" using Suc.prems(2) by auto
  then obtain a p1 where m: "malloc p = Inr (a, p1)" "a \<in> blocks p - out" "inv p1 (insert a out)"
      "blocks p1 = blocks p"
    using malloc_ok [OF Suc.prems(1)] by (auto simp: ok_iff)
  have "finite out" using inv_sub [OF Suc.prems(1)] fin finite_subset by blast
  then have "card (insert a out) + n \<le> card (blocks p1)" using m(2,4) Suc.prems(2) by simp
  from Suc.IH [OF m(3) this] show ?case using m by (auto elim!: ok_mono)
qed simp

text \<open>A block given back can be taken again.\<close>

lemma free_then_malloc:
  assumes "inv p out" and "a \<in> out"
  shows "ok (sbind (free a p) malloc) (\<lambda>(b, p'). inv p' (insert b (out - {a})) \<and> b \<notin> out - {a})"
proof -
  obtain p1 where f: "free a p = Inr p1" "inv p1 (out - {a})" "blocks p1 = blocks p"
    using free_ok [OF assms] by (auto simp: ok_iff)
  have "a \<in> blocks p1" using inv_sub [OF assms(1)] assms(2) f(3) by blast
  then have "out - {a} \<noteq> blocks p1" by blast
  from malloc_ok [OF f(2) this] show ?thesis using f(1) by (auto elim!: ok_mono)
qed

end

definition PER_IO_SIZE :: nat where "PER_IO_SIZE = 100"

text \<open>\<open>DWORD returnIdx = (freePoint - data) / size\<close>: a pointer difference, divided towards zero.\<close>

definition return_idx :: "nat \<Rightarrow> nat \<Rightarrow> nat \<Rightarrow> nat" where
  "return_idx n data freePoint = nat (((int freePoint - int data) sdiv int n) mod 4294967296)"

lemma return_idx_block:
  "0 < n \<Longrightarrow> i < 4294967296 \<Longrightarrow> return_idx n data (data + n * i) = i"
  by (simp add: return_idx_def signed_divide_int_def abs_mult sgn_mult sgn_if)

text \<open>The addresses of \<open>n\<close> blocks from \<open>data\<close> on.\<close>

definition blocks_at :: "nat \<Rightarrow> nat \<Rightarrow> nat set" where
  "blocks_at data n = {data + PER_IO_SIZE * i | i. i < n}"

lemma blocks_at_apart:
  assumes "a \<in> blocks_at data n" and "b \<in> blocks_at data n" and "a \<noteq> b"
  shows "a + PER_IO_SIZE \<le> b \<or> b + PER_IO_SIZE \<le> a"
proof -
  obtain i j where "a = data + PER_IO_SIZE * i" "b = data + PER_IO_SIZE * j"
    using assms(1,2) by (auto simp: blocks_at_def)
  with assms(3) stride_apart [of i j data PER_IO_SIZE] show ?thesis by auto
qed

lemma finite_blocks_at [simp]: "finite (blocks_at data n)"
  by (simp add: blocks_at_def)

lemma blocks_at_image: "blocks_at data n = (\<lambda>i. data + PER_IO_SIZE * i) ` {..<n}"
  by (auto simp: blocks_at_def)

lemma card_blocks_at: "card (blocks_at data n) = n"
  unfolding blocks_at_image
  by (subst card_image) (auto simp: inj_on_def PER_IO_SIZE_def)

section \<open>\<open>QueuePool\<close>\<close>

record QueuePool =
  qp_data :: nat
  qp_blocks :: nat
  qp_queue :: "nat list"

definition QueuePool_new :: "nat \<Rightarrow> nat \<Rightarrow> QueuePool" where
  "QueuePool_new data blocks =
     \<lparr>qp_data = data, qp_blocks = blocks,
      qp_queue = fold (\<lambda>i q. q @ [data + PER_IO_SIZE * i]) [0..<blocks] []\<rparr>"

text \<open>\<open>front\<close> of an empty \<open>std::queue\<close> has no meaning.\<close>

definition QueuePool_malloc :: "QueuePool \<Rightarrow> cpp_error + nat \<times> QueuePool" where
  "QueuePool_malloc p =
     (case qp_queue p of [] \<Rightarrow> Inl EmptyQueue | pointer # q \<Rightarrow> Inr (pointer, p\<lparr>qp_queue := q\<rparr>))"

definition QueuePool_free :: "nat \<Rightarrow> QueuePool \<Rightarrow> cpp_error + QueuePool" where
  "QueuePool_free freePoint p = Inr (p\<lparr>qp_queue := qp_queue p @ [freePoint]\<rparr>)"

definition qp_all :: "QueuePool \<Rightarrow> nat set" where
  "qp_all p = blocks_at (qp_data p) (qp_blocks p)"

definition qp_inv :: "QueuePool \<Rightarrow> nat set \<Rightarrow> bool" where
  "qp_inv p out \<longleftrightarrow> distinct (qp_queue p) \<and> set (qp_queue p) \<inter> out = {} \<and> set (qp_queue p) \<union> out = qp_all p"

lemma QueuePool_new_inv: "qp_inv (QueuePool_new data n) {}"
proof -
  have "fold (\<lambda>i q. q @ [data + PER_IO_SIZE * i]) xs q0 = q0 @ map (\<lambda>i. data + PER_IO_SIZE * i) xs" for xs q0
    by (induction xs arbitrary: q0) auto
  then show ?thesis
    by (auto simp: qp_inv_def qp_all_def QueuePool_new_def blocks_at_def distinct_map inj_on_def PER_IO_SIZE_def)
qed

interpretation qpl: fixed_pool QueuePool_malloc QueuePool_free qp_inv qp_all PER_IO_SIZE
proof unfold_locales
  fix p out assume "qp_inv p out" "out \<noteq> qp_all p"
  then show "ok (QueuePool_malloc p) (\<lambda>(a, p'). a \<in> qp_all p - out \<and> qp_inv p' (insert a out) \<and>
      qp_all p' = qp_all p)"
    by (cases "qp_queue p") (auto simp: QueuePool_malloc_def qp_inv_def qp_all_def)
qed (auto simp: QueuePool_free_def qp_inv_def qp_all_def dest: blocks_at_apart)

section \<open>\<open>StackPool\<close>\<close>

record StackPool =
  sp_data :: nat
  sp_blocks :: nat
  sp_st :: "nat list"   \<comment> \<open>top first\<close>

definition StackPool_new :: "nat \<Rightarrow> nat \<Rightarrow> StackPool" where
  "StackPool_new data blocks =
     \<lparr>sp_data = data, sp_blocks = blocks, sp_st = fold (\<lambda>i st. i # st) (rev [0..<blocks]) []\<rparr>"

text \<open>An empty pool returns \<open>NULL\<close>, the address 0.\<close>

definition StackPool_malloc :: "StackPool \<Rightarrow> cpp_error + nat \<times> StackPool" where
  "StackPool_malloc p =
     (case sp_st p of
        [] \<Rightarrow> Inr (0, p)
      | idx # st \<Rightarrow> Inr (sp_data p + idx * PER_IO_SIZE, p\<lparr>sp_st := st\<rparr>))"

definition StackPool_free :: "nat \<Rightarrow> StackPool \<Rightarrow> cpp_error + StackPool" where
  "StackPool_free freePoint p =
     (let returnIdx = return_idx PER_IO_SIZE (sp_data p) freePoint
      in Inr (p\<lparr>sp_st := returnIdx # sp_st p\<rparr>))"

definition sp_all :: "StackPool \<Rightarrow> nat set" where
  "sp_all p = blocks_at (sp_data p) (sp_blocks p)"

definition sp_addr :: "StackPool \<Rightarrow> nat \<Rightarrow> nat" where
  "sp_addr p i = sp_data p + i * PER_IO_SIZE"

definition sp_inv :: "StackPool \<Rightarrow> nat set \<Rightarrow> bool" where
  "sp_inv p out \<longleftrightarrow> sp_blocks p \<le> 2147483648 \<and> distinct (sp_st p) \<and> set (sp_st p) \<subseteq> {..<sp_blocks p} \<and>
     sp_addr p ` set (sp_st p) \<inter> out = {} \<and> sp_addr p ` set (sp_st p) \<union> out = sp_all p"

lemma sp_addr_inj: "sp_addr p i = sp_addr p j \<longleftrightarrow> i = j"
  by (simp add: sp_addr_def PER_IO_SIZE_def)

lemma sp_addr_upd [simp]: "sp_addr (p\<lparr>sp_st := st\<rparr>) = sp_addr p"
  by (simp add: sp_addr_def fun_eq_iff)

lemma sp_all_upd [simp]: "sp_all (p\<lparr>sp_st := st\<rparr>) = sp_all p"
  by (simp add: sp_all_def)

lemma sp_all_addr: "sp_all p = sp_addr p ` {..<sp_blocks p}"
  by (auto simp: sp_all_def sp_addr_def blocks_at_def mult.commute)

lemma StackPool_new_inv:
  assumes "n \<le> 2147483648"
  shows "sp_inv (StackPool_new data n) {}"
proof -
  have "fold (\<lambda>i st. i # st) xs st0 = rev xs @ st0" for xs and st0 :: "nat list"
    by (induction xs arbitrary: st0) auto
  then have "sp_st (StackPool_new data n) = [0..<n]" by (simp add: StackPool_new_def)
  then show ?thesis using assms by (auto simp: sp_inv_def sp_all_addr StackPool_new_def)
qed

text \<open>The index computed from an address of a block is the one the address was computed from.\<close>

lemma returnIdx: "i < 2147483648 \<Longrightarrow> return_idx PER_IO_SIZE (sp_data p) (sp_addr p i) = i"
  using return_idx_block [of PER_IO_SIZE i "sp_data p"]
  by (simp add: sp_addr_def PER_IO_SIZE_def mult.commute)

interpretation spl: fixed_pool StackPool_malloc StackPool_free sp_inv sp_all PER_IO_SIZE
proof unfold_locales
  fix p out assume i: "sp_inv p out" and n: "out \<noteq> sp_all p"
  then obtain idx st where st: "sp_st p = idx # st" by (cases "sp_st p") (auto simp: sp_inv_def)
  then have m: "StackPool_malloc p = Inr (sp_addr p idx, p\<lparr>sp_st := st\<rparr>)"
    by (simp add: StackPool_malloc_def sp_addr_def)
  from i st show "ok (StackPool_malloc p) (\<lambda>(a, p'). a \<in> sp_all p - out \<and> sp_inv p' (insert a out) \<and>
      sp_all p' = sp_all p)"
    unfolding m by (auto simp: sp_inv_def sp_addr_inj)
next
  fix p out a assume i: "sp_inv p out" and a: "a \<in> out"
  then have "a \<in> sp_all p" by (auto simp: sp_inv_def)
  then obtain idx where idx: "a = sp_addr p idx" "idx < sp_blocks p" by (auto simp: sp_all_addr)
  with i a have "idx \<notin> set (sp_st p)" by (auto simp: sp_inv_def)
  moreover have "idx < 2147483648" using i idx(2) by (simp add: sp_inv_def)
  ultimately show "ok (StackPool_free a p) (\<lambda>p'. sp_inv p' (out - {a}) \<and> sp_all p' = sp_all p)"
    using i a idx by (auto simp: StackPool_free_def returnIdx sp_inv_def sp_addr_inj)
qed (auto simp: sp_inv_def sp_all_def dest: blocks_at_apart)

section \<open>Both hand out every block once\<close>

lemma all_taken:
  assumes "distinct as" and "length as = n" and "set as \<subseteq> blocks_at data n"
  shows "set as = blocks_at data n"
  using assms card_subset_eq [OF finite_blocks_at assms(3)] by (simp add: distinct_card card_blocks_at)

text \<open>
  C37: From a new queue or stack pool of \<open>n\<close> blocks, \<open>n\<close> calls return the addresses of its \<open>n\<close> blocks,
  each once and no two overlapping. One more call reads the front of an empty queue in the one and
  returns \<open>NULL\<close> in the other.
\<close>

theorem fixed_pools_hand_out_all:
  assumes "n \<le> 2147483648"
  shows "ok (malloc_many QueuePool_malloc n (QueuePool_new data n)) (\<lambda>(as, p).
      distinct as \<and> set as = {data + 100 * i | i. i < n} \<and> QueuePool_malloc p = Inl EmptyQueue) \<and>
    ok (malloc_many StackPool_malloc n (StackPool_new data n)) (\<lambda>(as, p).
      distinct as \<and> set as = {data + 100 * i | i. i < n} \<and> StackPool_malloc p = Inr (0, p))"
proof
  have q: "qp_all (QueuePool_new data n) = blocks_at data n" and s: "sp_all (StackPool_new data n) = blocks_at data n"
    by (simp_all add: qp_all_def sp_all_def QueuePool_new_def StackPool_new_def)
  have bl: "blocks_at data n = {data + 100 * i | i. i < n}" by (simp add: blocks_at_def PER_IO_SIZE_def)
  have "card {} + n \<le> card (qp_all (QueuePool_new data n))" by (simp add: q card_blocks_at)
  from qpl.malloc_many_ok [OF QueuePool_new_inv this, unfolded q]
  show "ok (malloc_many QueuePool_malloc n (QueuePool_new data n)) (\<lambda>(as, p).
      distinct as \<and> set as = {data + 100 * i | i. i < n} \<and> QueuePool_malloc p = Inl EmptyQueue)"
  proof (rule ok_mono, clarsimp)
    fix as p assume a: "distinct as" "n = length as" and i: "qp_inv p (set as)" "qp_all p = blocks_at data (length as)"
    then have "set as = blocks_at data (length as)"
      by (intro all_taken) (auto simp: qp_inv_def)
    moreover from this i have "set (qp_queue p) \<inter> set as = {}" "set (qp_queue p) \<subseteq> set as"
      by (auto simp: qp_inv_def)
    then have "qp_queue p = []" by (metis inf.orderE set_empty)
    ultimately show "set as = {data + 100 * i | i. i < length as} \<and> QueuePool_malloc p = Inl EmptyQueue"
      using bl a(2) by (simp add: QueuePool_malloc_def)
  qed
  have "card {} + n \<le> card (sp_all (StackPool_new data n))" by (simp add: s card_blocks_at)
  from spl.malloc_many_ok [OF StackPool_new_inv [OF assms] this, unfolded s]
  show "ok (malloc_many StackPool_malloc n (StackPool_new data n)) (\<lambda>(as, p).
      distinct as \<and> set as = {data + 100 * i | i. i < n} \<and> StackPool_malloc p = Inr (0, p))"
  proof (rule ok_mono, clarsimp)
    fix as p assume a: "distinct as" "n = length as" and i: "sp_inv p (set as)" "sp_all p = blocks_at data (length as)"
    then have "set as = blocks_at data (length as)"
      by (intro all_taken) (auto simp: sp_inv_def)
    moreover from this i have "sp_addr p ` set (sp_st p) \<inter> set as = {}" "sp_addr p ` set (sp_st p) \<subseteq> set as"
      by (auto simp: sp_inv_def)
    then have "sp_st p = []" by (metis inf.orderE image_is_empty set_empty)
    ultimately show "set as = {data + 100 * i | i. i < length as} \<and> StackPool_malloc p = Inr (0, p)"
      using bl a(2) by (simp add: StackPool_malloc_def)
  qed
qed

theorem fixed_pools_hand_out_all_witness:
  "ok (malloc_many StackPool_malloc 3 (StackPool_new 1000 3)) (\<lambda>(as, p).
     distinct as \<and> set as = {1000 + 100 * i | i. i < 3} \<and> StackPool_malloc p = Inr (0, p))"
  using fixed_pools_hand_out_all [of 3 1000] by simp

section \<open>\<open>ListPool\<close>\<close>

text \<open>
  The free list runs through the first eight bytes of the blocks. \<open>lp_hi\<close> is the end of the memory
  that may be touched: the constructor gets \<open>100 * block\<close> bytes, and \<open>extra\<close> more happen to be
  accessible behind them.
\<close>

record ListPool =
  lp_mem :: "nat \<Rightarrow> nat"
  lp_data :: nat
  lp_hi :: nat
  lp_first :: nat
  lp_last :: nat

definition lp_touches :: "nat \<Rightarrow> ListPool \<Rightarrow> bool" where
  "lp_touches a p \<longleftrightarrow> lp_data p \<le> a \<and> a + 8 \<le> lp_hi p"

definition lp_put :: "nat \<Rightarrow> nat \<Rightarrow> ListPool \<Rightarrow> cpp_error + ListPool" where
  "lp_put a v p =
     (if lp_touches a p then Inr (p\<lparr>lp_mem := (lp_mem p)(a := v)\<rparr>) else Inl HeapOverflow)"

definition lp_get :: "nat \<Rightarrow> ListPool \<Rightarrow> cpp_error + nat" where
  "lp_get a p = (if lp_touches a p then Inr (lp_mem p a) else Inl HeapOverflow)"

text \<open>The loop of the constructor; the result has the pointer it ends with.\<close>

fun lp_link :: "nat \<Rightarrow> nat \<Rightarrow> nat \<Rightarrow> ListPool \<Rightarrow> cpp_error + nat \<times> ListPool" where
  "lp_link 0 pointer next p = Inr (pointer, p)"
| "lp_link (Suc n) pointer next p =
     (let next = next + PER_IO_SIZE in
      sbind (lp_put pointer next p) (\<lambda>p. lp_link n next next p))"

definition ListPool_new :: "(nat \<Rightarrow> nat) \<Rightarrow> nat \<Rightarrow> nat \<Rightarrow> nat \<Rightarrow> cpp_error + ListPool" where
  "ListPool_new mem data extra block =
     sbind (lp_link block data data
              \<lparr>lp_mem = mem, lp_data = data, lp_hi = data + PER_IO_SIZE * block + extra, lp_first = data,
               lp_last = data + PER_IO_SIZE * block - PER_IO_SIZE\<rparr>) (\<lambda>(pointer, p).
     lp_put pointer 0 p)"

definition ListPool_malloc :: "ListPool \<Rightarrow> cpp_error + nat \<times> ListPool" where
  "ListPool_malloc p =
     sbind (lp_get (lp_first p) p) (\<lambda>next. Inr (lp_first p, p\<lparr>lp_first := next\<rparr>))"

definition ListPool_free :: "nat \<Rightarrow> ListPool \<Rightarrow> cpp_error + ListPool" where
  "ListPool_free a p =
     sbind (lp_put (lp_last p) a p) (\<lambda>p'.
     sbind (lp_get (lp_last p) p') (\<lambda>last. Inr (p'\<lparr>lp_last := last\<rparr>)))"

lemma lp_link_ok:
  assumes "lp_data p \<le> a" and "a + PER_IO_SIZE * n \<le> lp_hi p"
  shows "ok (lp_link n a a p) (\<lambda>(b, p'). b = a + PER_IO_SIZE * n \<and>
    (\<exists>mem. p' = p\<lparr>lp_mem := mem\<rparr> \<and> (\<forall>i<n. mem (a + PER_IO_SIZE * i) = a + PER_IO_SIZE * Suc i) \<and>
       (\<forall>x<a. mem x = lp_mem p x)))"
  using assms
proof (induction n arbitrary: a p)
  case 0
  then show ?case by (auto intro!: exI [of _ "lp_mem p"])
next
  case (Suc n)
  let ?p = "p\<lparr>lp_mem := (lp_mem p)(a := a + PER_IO_SIZE)\<rparr>" and ?a = "a + PER_IO_SIZE"
  have put: "lp_put a ?a p = Inr ?p"
    using Suc.prems by (simp add: lp_put_def lp_touches_def PER_IO_SIZE_def)
  obtain b p' mem where r: "lp_link n ?a ?a ?p = Inr (b, p')" "b = ?a + PER_IO_SIZE * n"
      "p' = ?p\<lparr>lp_mem := mem\<rparr>" "\<forall>i<n. mem (?a + PER_IO_SIZE * i) = ?a + PER_IO_SIZE * Suc i"
      "\<forall>x<?a. mem x = lp_mem ?p x"
    using Suc.IH [of ?p ?a] Suc.prems by (auto simp: ok_iff)
  have "mem (a + PER_IO_SIZE * i) = a + PER_IO_SIZE * Suc i" if "i < Suc n" for i
  proof (cases i)
    case 0
    then show ?thesis using r(5) by (auto simp: PER_IO_SIZE_def)
  next
    case (Suc j)
    then have "mem (?a + PER_IO_SIZE * j) = ?a + PER_IO_SIZE * Suc j" using r(4) that by blast
    then show ?thesis using Suc by (simp add: add.assoc)
  qed
  moreover have "mem x = lp_mem p x" if "x < a" for x using r(5) that by simp
  ultimately show ?case using put r(1-3) by (auto simp: Let_def intro!: exI [of _ mem])
qed

text \<open>
  The constructor of \<open>ListPool\<close> always writes the end of its list eight bytes past its memory.
  Where that goes unnoticed, the pool hands out one block more than it has: the last one lies
  entirely behind the memory of the pool.
\<close>

theorem ListPool_one_too_many:
  assumes "8 \<le> extra"
  shows "ListPool_new mem data 0 n = Inl HeapOverflow \<and>
    ok (sbind (ListPool_new mem data extra n) (malloc_many ListPool_malloc (Suc n))) (\<lambda>(as, p).
      as = map (\<lambda>i. data + PER_IO_SIZE * i) [0..<Suc n])"
proof
  let ?p = "\<lambda>extra. \<lparr>lp_mem = mem, lp_data = data, lp_hi = data + PER_IO_SIZE * n + extra, lp_first = data,
      lp_last = data + PER_IO_SIZE * n - PER_IO_SIZE\<rparr>"
  have link: "\<exists>m. lp_link n data data (?p x) = Inr (data + PER_IO_SIZE * n, ?p x\<lparr>lp_mem := m\<rparr>) \<and>
      (\<forall>i<n. m (data + PER_IO_SIZE * i) = data + PER_IO_SIZE * Suc i)" for x
    using lp_link_ok [of "?p x" data n] by (auto simp: ok_iff)
  from link [of 0] show "ListPool_new mem data 0 n = Inl HeapOverflow"
    by (auto simp: ListPool_new_def lp_put_def lp_touches_def)
  obtain m where m: "lp_link n data data (?p extra) =
      Inr (data + PER_IO_SIZE * n, ?p extra\<lparr>lp_mem := m\<rparr>)"
      "\<forall>i<n. m (data + PER_IO_SIZE * i) = data + PER_IO_SIZE * Suc i"
    using link by blast
  let ?q = "?p extra\<lparr>lp_mem := m(data + PER_IO_SIZE * n := 0)\<rparr>"
  have new: "ListPool_new mem data extra n = Inr ?q"
    using m(1) assms by (simp add: ListPool_new_def lp_put_def lp_touches_def)
  define F where "F x = ?q\<lparr>lp_first := x\<rparr>" for x
  have take: "ListPool_malloc (F (data + PER_IO_SIZE * i)) =
      Inr (data + PER_IO_SIZE * i, F (data + PER_IO_SIZE * Suc i))" if "i < n" for i
  proof -
    have "PER_IO_SIZE * Suc i \<le> PER_IO_SIZE * n" using that by (intro mult_le_mono2) simp
    then show ?thesis
      using m(2) that by (auto simp: F_def ListPool_malloc_def lp_get_def lp_touches_def PER_IO_SIZE_def)
  qed
  have out: "ListPool_malloc (F (data + PER_IO_SIZE * n)) = Inr (data + PER_IO_SIZE * n, F 0)"
    using assms by (simp add: F_def ListPool_malloc_def lp_get_def lp_touches_def)
  have "malloc_many ListPool_malloc (Suc j) (F (data + PER_IO_SIZE * (n - j))) =
      Inr (map (\<lambda>i. data + PER_IO_SIZE * i) [n - j..<Suc n], F 0)" if "j \<le> n" for j
    using that
  proof (induction j)
    case 0
    then show ?case by (simp add: out)
  next
    case (Suc j)
    let ?k = "n - Suc j"
    have k: "Suc ?k = n - j" "?k < n" using Suc.prems by auto
    have "[?k..<Suc n] = ?k # [n - j..<Suc n]"
      using k by (subst upt_conv_Cons) (auto simp del: upt_Suc)
    with Suc take [OF k(2)] k show ?case
      by (subst malloc_many.simps) (simp del: upt_Suc malloc_many.simps)
  qed
  from this [of n] have "malloc_many ListPool_malloc (Suc n) (F data) =
      Inr (map (\<lambda>i. data + PER_IO_SIZE * i) [0..<Suc n], F 0)"
    by (simp del: malloc_many.simps upt_Suc)
  moreover have "?q = F data" by (simp add: F_def)
  ultimately show "ok (sbind (ListPool_new mem data extra n) (malloc_many ListPool_malloc (Suc n)))
      (\<lambda>(as, p). as = map (\<lambda>i. data + PER_IO_SIZE * i) [0..<Suc n])"
    unfolding new by (simp del: malloc_many.simps upt_Suc)
qed

theorem ListPool_one_too_many_witness:
  "ListPool_new (\<lambda>_. 7) 1000 0 2 = Inl HeapOverflow \<and>
   ok (sbind (ListPool_new (\<lambda>_. 7) 1000 8 2) (malloc_many ListPool_malloc 3)) (\<lambda>(as, p). as = [1000, 1100, 1200])"
  using ListPool_one_too_many [of 8 "\<lambda>_. 7" 1000 2]
  by (auto simp: PER_IO_SIZE_def numeral_3_eq_3 upt_rec elim!: ok_mono)

section \<open>\<open>ArrayPool\<close> and \<open>CharPool\<close>\<close>

text \<open>
  The two classes are the same code for blocks of 100 and of 256 bytes. The contents of the blocks
  are left out. \<open>realloc\<close> may move the memory to \<open>newdata\<close> and leaves \<open>junk\<close> in the flags behind the
  old ones.
\<close>

record ArrayPool =
  ap_data :: nat
  ap_arr :: "bool list"
  ap_cnt :: nat
  ap_idx :: nat
  ap_len :: nat

definition array_new :: "nat \<Rightarrow> nat \<Rightarrow> ArrayPool" where
  "array_new data n =
     \<lparr>ap_data = data, ap_arr = replicate n False, ap_cnt = n, ap_idx = 0, ap_len = n\<rparr>"

text \<open>The search for a flag that is not set, from \<open>idx\<close> on, going back to 0 at \<open>cnt\<close>.\<close>

partial_function (option) ap_scan :: "bool list \<Rightarrow> nat \<Rightarrow> nat \<Rightarrow> (cpp_error + nat) option" where
  "ap_scan arr cnt idx =
     (if length arr \<le> idx then Some (Inl IndexOverflow)
      else if arr ! idx then ap_scan arr cnt (if Suc idx = cnt then 0 else Suc idx)
      else Some (Inr idx))"

definition array_more :: "nat \<Rightarrow> (nat \<Rightarrow> bool) \<Rightarrow> ArrayPool \<Rightarrow> ArrayPool" where
  "array_more newdata junk p =
     (let n = ap_len p + 5; arr = ap_arr p @ map junk [length (ap_arr p)..<n + 5] in
      p\<lparr>ap_len := n, ap_data := newdata, ap_cnt := ap_cnt p + n,
        ap_arr := overwrite arr 1 (replicate 5 False)\<rparr>)"

definition array_Malloc ::
    "nat \<Rightarrow> nat \<Rightarrow> (nat \<Rightarrow> bool) \<Rightarrow> ArrayPool \<Rightarrow> cpp_error + nat \<times> ArrayPool" where
  "array_Malloc bsz newdata junk p =
     (let p = (if ap_cnt p = 0 then array_more newdata junk p else p) in
      case ap_scan (ap_arr p) (ap_cnt p) (ap_idx p) of
        None \<Rightarrow> Inl Diverges
      | Some r \<Rightarrow>
          sbind r (\<lambda>idx.
          let arr = (ap_arr p)[idx := True]; idx = Suc idx; cnt = ap_cnt p - 1 in
          if idx = cnt then
            Inr (ap_data p + (cnt - 1) * bsz, p\<lparr>ap_arr := arr, ap_cnt := cnt, ap_idx := 0\<rparr>)
          else
            Inr (ap_data p + (idx - 1) * bsz, p\<lparr>ap_arr := arr, ap_cnt := cnt, ap_idx := idx\<rparr>)))"

definition array_Free :: "nat \<Rightarrow> nat \<Rightarrow> ArrayPool \<Rightarrow> cpp_error + ArrayPool" where
  "array_Free bsz freePoint p =
     (let returnIdx = return_idx bsz (ap_data p) freePoint in
      if length (ap_arr p) \<le> returnIdx then Inl IndexOverflow
      else Inr (p\<lparr>ap_cnt := Suc (ap_cnt p), ap_idx := returnIdx,
                  ap_arr := (ap_arr p)[returnIdx := False]\<rparr>))"

definition ArrayPool_Malloc :: "nat \<Rightarrow> (nat \<Rightarrow> bool) \<Rightarrow> ArrayPool \<Rightarrow> cpp_error + nat \<times> ArrayPool" where
  "ArrayPool_Malloc = array_Malloc PER_IO_SIZE"

definition ArrayPool_Free :: "nat \<Rightarrow> ArrayPool \<Rightarrow> cpp_error + ArrayPool" where
  "ArrayPool_Free = array_Free PER_IO_SIZE"

definition mpCharPool_new :: "nat \<Rightarrow> nat \<Rightarrow> ArrayPool" where
  "mpCharPool_new = array_new"

definition mpCharPool_Malloc :: "nat \<Rightarrow> (nat \<Rightarrow> bool) \<Rightarrow> ArrayPool \<Rightarrow> cpp_error + nat \<times> ArrayPool" where
  "mpCharPool_Malloc = array_Malloc 256"

definition mpCharPool_Free :: "nat \<Rightarrow> ArrayPool \<Rightarrow> cpp_error + ArrayPool" where
  "mpCharPool_Free = array_Free 256"

text \<open>With every flag below \<open>cnt\<close> set the search never ends.\<close>

lemma ap_scan_result:
  "ap_scan arr cnt idx = Some r \<Longrightarrow> idx < cnt \<and> cnt \<le> length arr \<longrightarrow> (\<exists>i<cnt. \<not> arr ! i)"
proof (erule ap_scan.raw_induct [rotated], intro impI)
  fix scan :: "bool list \<Rightarrow> nat \<Rightarrow> nat \<Rightarrow> (cpp_error + nat) option" and arr cnt idx r
  let ?next = "if Suc idx = cnt then 0 else Suc idx"
  assume IH: "\<And>arr cnt idx r. scan arr cnt idx = Some r \<Longrightarrow>
      idx < cnt \<and> cnt \<le> length arr \<longrightarrow> (\<exists>i<cnt. \<not> arr ! i)"
    and step: "(if length arr \<le> idx then Some (Inl IndexOverflow)
      else if arr ! idx then scan arr cnt ?next else Some (Inr idx)) = Some r"
    and b: "idx < cnt \<and> cnt \<le> length arr"
  show "\<exists>i<cnt. \<not> arr ! i"
  proof (cases "arr ! idx")
    case True
    then have "scan arr cnt ?next = Some r" using step b by (simp split: if_splits)
    from IH [OF this] b show ?thesis by auto
  qed (use b in blast)
qed

lemma ap_scan_full:
  assumes "\<forall>i<cnt. arr ! i" and "idx < cnt" and "cnt \<le> length arr"
  shows "ap_scan arr cnt idx = None"
  using ap_scan_result [of arr cnt idx] assms by (cases "ap_scan arr cnt idx") auto

text \<open>The first half of an even pool.\<close>

definition half_taken :: "nat \<Rightarrow> nat \<Rightarrow> nat \<Rightarrow> ArrayPool" where
  "half_taken data n k =
     \<lparr>ap_data = data, ap_arr = replicate k True @ replicate (n - k) False, ap_cnt = n - k,
      ap_idx = (if k = n - k then 0 else k), ap_len = n\<rparr>"

lemma half_taken_Malloc:
  assumes "k < m" and "n = 2 * m"
  shows "array_Malloc bsz newdata junk (half_taken data n k) = Inr (data + k * bsz, half_taken data n (Suc k))"
proof -
  let ?arr = "replicate k True @ replicate (n - k) False"
  have cnt: "n - k \<noteq> 0" "k \<noteq> n - k" "n - Suc k = n - k - 1" using assms by auto
  have "ap_scan ?arr (n - k) k = Some (Inr k)"
    using assms by (subst ap_scan.simps) (simp add: nth_append)
  moreover have "?arr[k := True] = replicate (Suc k) True @ replicate (n - Suc k) False"
  proof -
    have "replicate (n - k) False = False # replicate (n - Suc k) False"
      using assms by (metis Suc_diff_Suc less_trans_Suc replicate_Suc mult_2 trans_less_add1)
    then show ?thesis by (simp add: list_update_append replicate_append_same)
  qed
  ultimately show ?thesis
    using cnt assms by (auto simp: array_Malloc_def half_taken_def Let_def)
qed

text \<open>
  In a pool of an even number of blocks, the first half can be taken, block after block; the
  next call to \<open>Malloc\<close> searches the first half for ever, although the second half is free.
\<close>

theorem ArrayPool_even_hangs:
  assumes "0 < m"
  shows "ok (malloc_many (array_Malloc bsz newdata junk) m (array_new data (2 * m))) (\<lambda>(as, p).
    as = map (\<lambda>i. data + i * bsz) [0..<m] \<and> ap_cnt p = m \<and>
    array_Malloc bsz newdata junk p = Inl Diverges)"
proof -
  have many: "malloc_many (array_Malloc bsz newdata junk) j (half_taken data (2 * m) (m - j)) =
      Inr (map (\<lambda>i. data + i * bsz) [m - j..<m], half_taken data (2 * m) m)" if "j \<le> m" for j
    using that
  proof (induction j)
    case (Suc j)
    let ?k = "m - Suc j"
    have k: "Suc ?k = m - j" "?k < m" using Suc.prems by auto
    moreover have "[?k..<m] = ?k # [m - j..<m]" using k by (subst upt_conv_Cons) auto
    ultimately show ?case
      using Suc half_taken_Malloc [OF k(2) refl, of bsz newdata junk data] by (simp del: upt_Suc)
  qed simp
  have "array_new data (2 * m) = half_taken data (2 * m) 0"
    using assms by (simp add: array_new_def half_taken_def)
  moreover have "array_Malloc bsz newdata junk (half_taken data (2 * m) m) = Inl Diverges"
    using assms ap_scan_full [of m "replicate m True @ replicate m False" 0]
    by (simp add: array_Malloc_def half_taken_def Let_def nth_append)
  ultimately show ?thesis using many [of m] by (simp add: half_taken_def)
qed

theorem ArrayPool_even_hangs_witness:
  "ok (malloc_many (array_Malloc 100 0 (\<lambda>_. False)) 2 (array_new 1000 4)) (\<lambda>(as, p).
     as = [1000, 1100] \<and> ap_cnt p = 2 \<and> array_Malloc 100 0 (\<lambda>_. False) p = Inl Diverges)"
  using ArrayPool_even_hangs [of 2 100 0 "\<lambda>_. False" 1000]
  by (auto elim!: ok_mono simp: upt_rec)

text \<open>
  When a pool of three blocks has run dry and has grown, the flags of two blocks that are in use
  are cleared: after the first block has gone back, the second one is handed out to two users.
\<close>

theorem ArrayPool_hands_out_twice:
  "ok (malloc_many (array_Malloc bsz data junk) 4 (array_new data 3)) (\<lambda>(as, p).
     as = [data, data + bsz, data + 2 * bsz, data + 3 * bsz] \<and>
     ok (array_Free bsz data p) (\<lambda>p.
       ok (malloc_many (array_Malloc bsz data junk) 2 p) (\<lambda>(bs, _). bs = [data, data + bsz])))"
proof -
  have z: "return_idx bsz data data = 0" by (simp add: return_idx_def)
  show ?thesis
    by (simp add: eval_nat_numeral array_Malloc_def array_new_def array_more_def array_Free_def z
        ap_scan.simps overwrite_def Let_def)
qed

end
