(* ===== verification/Tasks.thy ===== *)
theory Tasks
  imports Prelude
begin

text \<open>
  Threads that are cut into pieces. A handler takes several locks one after the other; between two of
  them any other thread may run. A \<open>task\<close> is what a thread has left to do: a piece that runs without
  interruption and says what comes after it, or nothing. A schedule is a list of thread numbers; each
  entry runs the next piece of that thread.

  The locale \<open>protocol\<close> is the rule for invariants: one assertion over the shared state and the
  positions of all threads that every piece of every thread keeps.
\<close>

section \<open>Tasks\<close>

datatype 's task = Done | Piece "'s \<Rightarrow> cpp_error + 's \<times> 's task"

text \<open>A piece that only changes the state, and one that hands something on.\<close>

definition piece :: "('s \<Rightarrow> cpp_error + 's) \<Rightarrow> 's task \<Rightarrow> 's task" where
  "piece f t = Piece (\<lambda>s. sbind (f s) (\<lambda>s. Inr (s, t)))"

definition piece_with :: "('s \<Rightarrow> cpp_error + 'a \<times> 's) \<Rightarrow> ('a \<Rightarrow> 's task) \<Rightarrow> 's task" where
  "piece_with f t = Piece (\<lambda>s. sbind (f s) (\<lambda>(x, s). Inr (s, t x)))"

section \<open>Without interruption\<close>

primrec run :: "'s task \<Rightarrow> 's \<Rightarrow> cpp_error + 's" where
  "run Done = Inr"
| "run (Piece f) = (\<lambda>s. case (map_sum id (map_prod id run) \<circ> f) s of
     Inl e \<Rightarrow> Inl e | Inr (s', more) \<Rightarrow> more s')"

lemma run_Piece: "run (Piece f) s = sbind (f s) (\<lambda>(s', t). run t s')"
  by (cases "f s") (auto split: prod.splits)

declare run.simps(2) [simp del]

lemma run_piece [simp]: "run (piece f t) s = sbind (f s) (run t)"
  by (simp add: piece_def run_Piece sbind_assoc)

lemma run_piece_with [simp]: "run (piece_with f t) s = sbind (f s) (\<lambda>(x, s'). run (t x) s')"
  by (cases "f s") (auto simp: piece_with_def run_Piece)

text \<open>One task after the other.\<close>

primrec seq_task :: "'s task \<Rightarrow> 's task \<Rightarrow> 's task" where
  "seq_task Done t = t"
| "seq_task (Piece f) t = Piece (\<lambda>s. map_sum id (map_prod id (\<lambda>u. seq_task u t)) (f s))"

lemma seq_Piece: "seq_task (Piece f) t = Piece (\<lambda>s. sbind (f s) (\<lambda>(s', u). Inr (s', seq_task u t)))"
proof -
  have "map_sum id (map_prod id (\<lambda>u. seq_task u t)) (f s) = sbind (f s) (\<lambda>(s', u). Inr (s', seq_task u t))" for s
    by (cases "f s") auto
  then show ?thesis by (simp only: seq_task.simps)
qed

declare seq_task.simps(2) [simp del]

lemma seq_piece [simp]:
  "seq_task (piece f u) t = piece f (seq_task u t)"
  "seq_task (piece_with g us) t = piece_with g (\<lambda>x. seq_task (us x) t)"
  by (simp_all add: piece_def piece_with_def seq_Piece sbind_assoc prod.case_distrib [of "\<lambda>m. sbind m _"])

lemma run_seq [simp]: "run (seq_task u t) s = sbind (run u s) (run t)"
proof (induction u arbitrary: s)
  case (Piece f)
  have "run (seq_task v t) s' = sbind (run v s') (run t)" if "f s = Inr (s', v)" for s' v
    by (rule Piece.IH [OF rangeI [of f s], of "(s', v)"]) (simp_all add: that)
  then show ?case by (cases "f s") (auto simp: seq_Piece run_Piece)
qed simp

section \<open>Schedules\<close>

text \<open>The next piece of a thread; nothing happens when it is done.\<close>

definition step :: "'s task \<Rightarrow> 's \<Rightarrow> cpp_error + 's \<times> 's task" where
  "step t s = (case t of Done \<Rightarrow> Inr (s, Done) | Piece f \<Rightarrow> f s)"

lemma step_simps [simp]:
  "step Done s = Inr (s, Done)"
  "step (piece g t) s = sbind (g s) (\<lambda>s. Inr (s, t))"
  "step (piece_with h ts) s = sbind (h s) (\<lambda>(x, s). Inr (s, ts x))"
  by (simp_all add: step_def piece_def piece_with_def)

fun run_sched :: "nat list \<Rightarrow> 's \<times> 's task list \<Rightarrow> cpp_error + 's \<times> 's task list" where
  "run_sched [] st = Inr st"
| "run_sched (i # sched) (s, ts) =
     (if i < length ts then
        sbind (step (ts ! i) s) (\<lambda>(s', t). run_sched sched (s', ts[i := t]))
      else run_sched sched (s, ts))"

text \<open>A thread that is never interrupted has run.\<close>

lemma run_step: "run t s = sbind (step t s) (\<lambda>(s', t'). run t' s')"
  by (cases t) (simp_all add: step_def run_Piece)

section \<open>How long a task is\<close>

inductive pieces_left :: "nat \<Rightarrow> 's task \<Rightarrow> bool" where
  Done: "pieces_left n Done"
| Piece: "(\<And>s s' t. f s = Inr (s', t) \<Longrightarrow> pieces_left n t) \<Longrightarrow> pieces_left (Suc n) (Piece f)"

inductive_cases pieces_left_0: "pieces_left 0 t"
inductive_cases pieces_left_Piece: "pieces_left n (Piece f)"

lemma pieces_left_piece: "pieces_left n t \<Longrightarrow> pieces_left (Suc n) (piece f t)"
  unfolding piece_def by (rule pieces_left.Piece) (auto simp: sbind_Inr_iff)

lemma pieces_left_with: "(\<And>x. pieces_left n (t x)) \<Longrightarrow> pieces_left (Suc n) (piece_with f t)"
  unfolding piece_with_def by (rule pieces_left.Piece) (auto simp: sbind_Inr_iff)

lemma pieces_left_mono: "pieces_left n t \<Longrightarrow> n \<le> m \<Longrightarrow> pieces_left m t"
proof (induction arbitrary: m rule: pieces_left.induct)
  case (Piece f n)
  then obtain m' where "m = Suc m'" "n \<le> m'" by (cases m) auto
  with Piece.IH show ?case by (auto intro: pieces_left.Piece)
qed (rule pieces_left.Done)

lemma pieces_left_seq: "pieces_left n u \<Longrightarrow> pieces_left m t \<Longrightarrow> pieces_left (n + m) (seq_task u t)"
proof (induction rule: pieces_left.induct)
  case (Done n)
  then show ?case by (auto intro: pieces_left_mono)
next
  case (Piece f n)
  then show ?case by (auto simp: seq_Piece sbind_Inr_iff intro!: pieces_left.Piece)
qed

lemma pieces_left_step: "step t s = Inr (s', t') \<Longrightarrow> pieces_left n t \<Longrightarrow> pieces_left (n - 1) t'"
  by (cases t) (auto simp: step_def intro: pieces_left.Done elim: pieces_left_Piece)

text \<open>A thread that has had as many turns as it has pieces is done.\<close>

lemma sched_completes:
  assumes "run_sched sched (s, ts) = Inr (s', ts')" and "i < length ts"
    and "pieces_left n (ts ! i)" and "n \<le> count_list sched i"
  shows "ts' ! i = Done"
  using assms
proof (induction sched arbitrary: s ts n)
  case Nil
  then show ?case by (auto elim: pieces_left_0)
next
  case (Cons j sched)
  show ?case
  proof (cases "j < length ts")
    case False
    with Cons.IH [OF _ Cons.prems(2,3)] Cons.prems show ?thesis by auto
  next
    case True
    then obtain s1 t where step: "step (ts ! j) s = Inr (s1, t)"
        "run_sched sched (s1, ts[j := t]) = Inr (s', ts')"
      using Cons.prems(1) by (auto simp: sbind_Inr_iff)
    show ?thesis
    proof (cases "j = i")
      case True
      then have "pieces_left (n - 1) t" using pieces_left_step [OF step(1)] Cons.prems(3) by simp
      with Cons.IH [OF step(2)] Cons.prems(2,4) True show ?thesis by simp
    next
      case False
      then show ?thesis using Cons.IH [OF step(2), of n] Cons.prems(2-4) by simp
    qed
  qed
qed

text \<open>Turns in a row are a run of the thread.\<close>

lemma sched_alone:
  assumes "pieces_left n t" and "i < length ts" and "ts ! i = t"
  shows "run_sched (replicate n i @ sched) (s, ts) = sbind (run t s) (\<lambda>s'. run_sched sched (s', ts[i := Done]))"
  using assms
proof (induction n arbitrary: s t ts)
  case 0
  then have "ts ! i = Done" by (auto elim: pieces_left_0)
  then have "t = Done" "ts[i := Done] = ts" using 0(3) list_update_id [of ts i] by simp_all
  then show ?case by simp
next
  case (Suc n)
  have "run_sched (replicate n i @ sched) (s', ts[i := t']) =
      sbind (run t' s') (\<lambda>s'. run_sched sched (s', ts[i := Done]))"
    if "step t s = Inr (s', t')" for s' t'
    using Suc.IH [of t' "ts[i := t']" s'] pieces_left_step [OF that Suc.prems(1)] Suc.prems(2) by simp
  with Suc.prems(2,3) show ?case
    by (cases "step t s") (auto simp: run_step [of t s])
qed

section \<open>Invariants\<close>

text \<open>
  \<open>at i t p\<close>: thread \<open>i\<close> with \<open>t\<close> left to do is at position \<open>p\<close>; \<open>inv s ps\<close>: the assertion, with the
  positions of all threads.
\<close>

locale protocol =
  fixes inv :: "'s \<Rightarrow> 'p list \<Rightarrow> bool"
    and at :: "nat \<Rightarrow> 's task \<Rightarrow> 'p \<Rightarrow> bool"
  assumes step_ok: "inv s ps \<Longrightarrow> i < length ps \<Longrightarrow> at i t (ps ! i) \<Longrightarrow>
    ok (step t s) (\<lambda>(s', t'). \<exists>p. at i t' p \<and> inv s' (ps[i := p]))"
begin

text \<open>Whatever the schedule, nothing goes wrong and the assertion holds at its end.\<close>

lemma sched_ok:
  assumes "inv s ps" and "length ps = length ts" and "\<forall>i<length ts. at i (ts ! i) (ps ! i)"
  shows "ok (run_sched sched (s, ts)) (\<lambda>(s', ts'). length ts' = length ts \<and>
    (\<exists>ps'. inv s' ps' \<and> length ps' = length ts \<and> (\<forall>i<length ts. at i (ts' ! i) (ps' ! i))))"
  using assms
proof (induction sched arbitrary: s ts ps)
  case Nil
  then show ?case by auto
next
  case (Cons i sched)
  show ?case
  proof (cases "i < length ts")
    case False
    then show ?thesis using Cons.IH [OF Cons.prems] by simp
  next
    case True
    then have "i < length ps" "at i (ts ! i) (ps ! i)" using Cons.prems(2,3) by auto
    from step_ok [OF Cons.prems(1) this] obtain s1 t p
      where s1: "step (ts ! i) s = Inr (s1, t)" "at i t p" "inv s1 (ps[i := p])" by (auto simp: ok_iff)
    have "\<forall>j<length (ts[i := t]). at j (ts[i := t] ! j) (ps[i := p] ! j)"
      using Cons.prems(2,3) s1(2) True by (auto simp: nth_list_update)
    from Cons.IH [OF s1(3) _ this] Cons.prems(2) True s1(1) show ?thesis by simp
  qed
qed

end

end
