(* ===== verification/Cut.thy ===== *)
theory Cut
  imports Correct Tasks
begin

text \<open>
  The handlers of \<open>src/Chat/Server/BusinessService.cpp\<close> and the dispatch by status and direction, cut into
  the pieces between which other threads can run. A piece ends where the code releases a lock (\<open>idCs\<close>,
  \<open>userCs\<close>, \<open>roomCs\<close>, \<open>liveSocketCs\<close>, the lock of a room's list, of the send queue, of \<open>Dao\<close>) or has read
  maps without one. What a thread has read stays in its local variables; a second look-up is made
  again, as the code does.
\<close>

section \<open>Accounts\<close>

definition say ::
    "SendTo \<Rightarrow> string \<Rightarrow> string \<Rightarrow> SOCKET \<Rightarrow> ClientStatus \<Rightarrow> 'db server task \<Rightarrow> 'db server task" where
  "say dir msg rn sock st = piece (\<lambda>s. Inr (InsertSendQueue dir msg rn sock st s))"

text \<open>What \<open>UserEnter\<close> has learnt when \<open>selectUser\<close> returns.\<close>

datatype answer =
    Malformed
  | NoAccount
  | BadPassword
  | Granted string UserVo

definition UserMake_store ::
    "'db cfg \<Rightarrow> SOCKET \<Rightarrow> string \<Rightarrow> UserVo \<Rightarrow> 'db server task" where
  "UserMake_store env sock a vo =
     piece (\<lambda>s. sbind (InsertUser env vo (database s)) (\<lambda>db. Inr (s\<lparr>database := db\<rparr>)))
       (say SEND_ME (a @ m_made @ loginBeforeMessage) '''' sock STATUS_LOGOUT Done)"

definition UserMake_task :: "'db cfg \<Rightarrow> SOCKET \<Rightarrow> string \<Rightarrow> 'db server task" where
  "UserMake_task env sock message =
     piece_with
       (\<lambda>s. sbind (tokens 3 message) (\<lambda>sArr.
          case sArr of
            [a, b, c] \<Rightarrow>
              sbind (selectUser env (setUserId a UserVo_new) (database s)) (\<lambda>(vo, db).
              let vo = UserVo_copy vo in
              sbind (getUserId vo) (\<lambda>u.
              Inr (Some (a, if u = '''' then Some (setNickName c (setPassword b (setUserId a vo))) else None),
                   s\<lparr>database := db\<rparr>)))
          | _ \<Rightarrow> Inr (None, s)))
       (\<lambda>r. case r of
          None \<Rightarrow> Done
        | Some (a, Some vo) \<Rightarrow> UserMake_store env sock a vo
        | Some (_, None) \<Rightarrow> say SEND_ME (m_idTaken @ loginBeforeMessage) '''' sock STATUS_LOGOUT Done)"

definition InitUser_log ::
    "'db cfg \<Rightarrow> LogVo \<Rightarrow> SOCKET \<Rightarrow> string \<Rightarrow> 'db server task" where
  "InitUser_log env vo sock nickName =
     piece (\<lambda>s. sbind (InsertLogin env vo (database s)) (\<lambda>db. Inr (s\<lparr>database := db\<rparr>)))
       (say SEND_ME (nickName @ m_entered @ waitRoomMessage) '''' sock STATUS_WAITING Done)"

definition InitUser_update ::
    "'db cfg \<Rightarrow> PER_HANDLE_DATA \<Rightarrow> SOCKET \<Rightarrow> string \<Rightarrow> 'db server task" where
  "InitUser_update env userInfo sock nickName =
     piece_with
       (\<lambda>s. sbind (strncpy_src 10 (userId userInfo)) (\<lambda>u.
          sbind (strncpy_src 20 (userName userInfo)) (\<lambda>n.
          let vo = setNickName n (setUserId u LogVo_new) in
          sbind (UpdateUser env vo (database s)) (\<lambda>db. Inr (vo, s\<lparr>database := db\<rparr>)))))
       (\<lambda>vo. InitUser_log env vo sock nickName)"

definition InitUser_task :: "'db cfg \<Rightarrow> string \<Rightarrow> SOCKET \<Rightarrow> string \<Rightarrow> 'db server task" where
  "InitUser_task env ident sock nickName =
     (let userInfo = \<lparr>userName = strncpy NAME_SIZE nickName, roomName = strncpy NAME_SIZE '''',
                      userId = strncpy NAME_SIZE ident, status = STATUS_WAITING\<rparr> in
      piece (\<lambda>s. Inr (s\<lparr>userMap := um_put (ord env) sock userInfo (userMap s)\<rparr>))
        (InitUser_update env userInfo sock nickName))"

definition UserEnter_claim :: "'db cfg \<Rightarrow> SOCKET \<Rightarrow> string \<Rightarrow> UserVo \<Rightarrow> 'db server task" where
  "UserEnter_claim env sock a vo =
     piece_with
       (\<lambda>s. if a \<in> idSet s then Inr (None, s)
            else sbind (getNickName vo) (\<lambda>nick. Inr (Some nick, s\<lparr>idSet := insert a (idSet s)\<rparr>)))
       (\<lambda>r. case r of
          None \<Rightarrow> say SEND_ME (m_doubleLogin @ loginBeforeMessage) '''' sock STATUS_LOGOUT Done
        | Some nick \<Rightarrow> InitUser_task env a sock nick)"

definition UserEnter_task :: "'db cfg \<Rightarrow> SOCKET \<Rightarrow> string \<Rightarrow> 'db server task" where
  "UserEnter_task env sock message =
     piece_with
       (\<lambda>s. sbind (tokens 2 message) (\<lambda>sArr.
          case sArr of
            [a, b] \<Rightarrow>
              sbind (selectUser env (setUserId a UserVo_new) (database s)) (\<lambda>(vo, db).
              let vo = UserVo_copy vo; s = s\<lparr>database := db\<rparr> in
              sbind (getUserId vo) (\<lambda>u.
              if u = '''' then Inr (NoAccount, s)
              else
                sbind (getPassword vo) (\<lambda>pw. Inr (if pw = b then Granted a vo else BadPassword, s))))
          | _ \<Rightarrow> Inr (Malformed, s)))
       (\<lambda>r. case r of
          NoAccount \<Rightarrow> say SEND_ME (m_noAccount @ loginBeforeMessage) '''' sock STATUS_LOGOUT Done
        | BadPassword \<Rightarrow> say SEND_ME (m_badPassword @ loginBeforeMessage) '''' sock STATUS_LOGOUT Done
        | Granted a vo \<Rightarrow> UserEnter_claim env sock a vo
        | Malformed \<Rightarrow> Done)"

text \<open>\<open>LOG_OUT\<close> in \<open>StatusWait\<close>.\<close>

definition LogOut_log :: "'db cfg \<Rightarrow> string \<Rightarrow> string \<Rightarrow> 'db server task" where
  "LogOut_log env message name = piece (log_direction env name STATUS_WAITING LOG_OUT message) Done"

definition LogOut_session :: "'db cfg \<Rightarrow> SOCKET \<Rightarrow> string \<Rightarrow> string \<Rightarrow> 'db server task" where
  "LogOut_session env sock message name =
     piece (\<lambda>s. Inr (s\<lparr>userMap := am_erase sock (userMap s)\<rparr>))
       (say SEND_ME loginBeforeMessage '''' sock STATUS_LOGOUT (LogOut_log env message name))"

definition LogOut_id :: "'db cfg \<Rightarrow> SOCKET \<Rightarrow> string \<Rightarrow> string \<Rightarrow> 'db server task" where
  "LogOut_id env sock message name =
     piece (\<lambda>s. sbind (am_at (userMap s) sock) (\<lambda>u.
                sbind (cstr (userId u)) (\<lambda>uid. Inr (s\<lparr>idSet := idSet s - {uid}\<rparr>))))
       (LogOut_session env sock message name)"

definition LogOut_task :: "'db cfg \<Rightarrow> SOCKET \<Rightarrow> string \<Rightarrow> 'db server task" where
  "LogOut_task env sock message =
     piece_with (\<lambda>s. sbind (session_names sock s) (\<lambda>(name, _). Inr (name, s)))
       (LogOut_id env sock message)"

section \<open>Rooms\<close>

definition RoomMake_enter :: "SOCKET \<Rightarrow> string \<Rightarrow> 'db server task" where
  "RoomMake_enter sock message =
     piece (upd_user sock (join_room message))
       (say SEND_ME (message @ m_roomMade @ chatRoomMessage) '''' sock STATUS_CHATTIG Done)"

definition RoomMake_claim :: "SOCKET \<Rightarrow> string \<Rightarrow> 'db server task" where
  "RoomMake_claim sock message =
     piece_with
       (\<lambda>s. if map_of (roomMap s) message \<noteq> None then Inr (False, s)
            else Inr (True, s\<lparr>roomMap := sm_put message \<lparr>userList = [sock]\<rparr> (roomMap s)\<rparr>))
       (\<lambda>made.
          if made then RoomMake_enter sock message
          else say SEND_ME (message @ m_roomTaken @ waitRoomMessage) '''' sock STATUS_WAITING Done)"

definition RoomMake_task :: "SOCKET \<Rightarrow> string \<Rightarrow> 'db server task" where
  "RoomMake_task sock message =
     piece (\<lambda>s. sbind (session_names sock s) (\<lambda>_. Inr s)) (RoomMake_claim sock message)"

definition RoomEnter_push :: "SOCKET \<Rightarrow> string \<Rightarrow> string \<Rightarrow> 'db server task" where
  "RoomEnter_push sock message name =
     piece (\<lambda>s. sbind (am_at (roomMap s) message) (\<lambda>_.
        Inr (s\<lparr>roomMap := am_modify message (\<lambda>r. r\<lparr>userList := userList r @ [sock]\<rparr>) (roomMap s)\<rparr>)))
       (say SEND_ROOM (name @ m_joined @ chatRoomMessage) message 0 STATUS_CHATTIG Done)"

definition RoomEnter_join :: "SOCKET \<Rightarrow> string \<Rightarrow> string \<Rightarrow> 'db server task" where
  "RoomEnter_join sock message name =
     piece (upd_user sock (join_room message)) (RoomEnter_push sock message name)"

definition RoomEnter_find :: "SOCKET \<Rightarrow> string \<Rightarrow> string \<Rightarrow> 'db server task" where
  "RoomEnter_find sock message name =
     piece_with (\<lambda>s. Inr (map_of (roomMap s) message \<noteq> None, s)) (\<lambda>found.
       if found then RoomEnter_join sock message name
       else say SEND_ME (message @ m_noRoom @ waitRoomMessage) '''' sock STATUS_WAITING Done)"

definition RoomEnter_task :: "SOCKET \<Rightarrow> string \<Rightarrow> 'db server task" where
  "RoomEnter_task sock message =
     piece_with (\<lambda>s. sbind (session_names sock s) (\<lambda>(name, _). Inr (name, s)))
       (RoomEnter_find sock message)"

text \<open>The session back in the waiting room; the room gone if it is empty.\<close>

definition drop_task :: "string \<Rightarrow> 'db server task \<Rightarrow> 'db server task" where
  "drop_task rn rest = piece (\<lambda>s. Inr (drop_empty_room rn s)) rest"

definition reset_task :: "SOCKET \<Rightarrow> string \<Rightarrow> 'db server task \<Rightarrow> 'db server task" where
  "reset_task sock rn rest = piece (reset_session sock) (drop_task rn rest)"

text \<open>The text \<open>\out\<close> in \<open>StatusChat\<close>.\<close>

definition RoomOut_leave :: "'db cfg \<Rightarrow> SOCKET \<Rightarrow> string \<Rightarrow> string \<Rightarrow> 'db server task" where
  "RoomOut_leave env sock name rn =
     piece (broadcast_leave env (name @ m_left) rn sock)
       (say SEND_ME waitRoomMessage '''' sock STATUS_WAITING (reset_task sock rn Done))"

definition RoomOut_task :: "'db cfg \<Rightarrow> SOCKET \<Rightarrow> 'db server task" where
  "RoomOut_task env sock =
     piece_with
       (\<lambda>s. sbind (session_names sock s) (\<lambda>(name, _).
          sbind (am_at (userMap s) sock) (\<lambda>u.
          sbind (cstr (roomName u)) (\<lambda>rn. Inr ((name, rn), s)))))
       (\<lambda>(name, rn). RoomOut_leave env sock name rn)"

section \<open>Disconnection and administration\<close>

definition erase_id :: "string \<Rightarrow> 'db server task \<Rightarrow> 'db server task" where
  "erase_id ident rest = piece (\<lambda>s. Inr (s\<lparr>idSet := idSet s - {ident}\<rparr>)) rest"

definition erase_user :: "SOCKET \<Rightarrow> 'db server task" where
  "erase_user sock = piece (\<lambda>s. Inr (s\<lparr>userMap := am_erase sock (userMap s)\<rparr>)) Done"

text \<open>
  What \<open>ClientExit\<close> and \<open>BanUser\<close> do once the id is erased; \<open>u\<close> is the session as it was read then.
  The status and the room are read again.
\<close>

definition quit_leave ::
    "'db cfg \<Rightarrow> SOCKET \<Rightarrow> string \<Rightarrow> string \<Rightarrow> 'db server task \<Rightarrow> 'db server task" where
  "quit_leave env sock name rn rest =
     piece (broadcast_leave env (name @ m_left) rn sock) (reset_task sock rn rest)"

definition quit_room ::
    "'db cfg \<Rightarrow> SOCKET \<Rightarrow> PER_HANDLE_DATA \<Rightarrow> 'db server task \<Rightarrow> 'db server task" where
  "quit_room env sock u rest =
     piece_with
       (\<lambda>s. sbind (am_at (userMap s) sock) (\<lambda>v.
          if status v = STATUS_CHATTIG then
            sbind (cstr (userName u)) (\<lambda>name.
            sbind (cstr (roomName v)) (\<lambda>rn. Inr (Some (name, rn), s)))
          else Inr (None, s)))
       (\<lambda>r. case r of None \<Rightarrow> rest | Some (name, rn) \<Rightarrow> quit_leave env sock name rn rest)"

definition ClientExit_session :: "'db cfg \<Rightarrow> SOCKET \<Rightarrow> 'db server task" where
  "ClientExit_session env sock =
     piece_with
       (\<lambda>s. case map_of (userMap s) sock of
          None \<Rightarrow> Inr (None, s)
        | Some u \<Rightarrow> sbind (cstr (userId u)) (\<lambda>uid. Inr (Some (u, uid), s)))
       (\<lambda>r. case r of
          None \<Rightarrow> Done
        | Some (u, ident) \<Rightarrow> erase_id ident (quit_room env sock u (erase_user sock)))"

definition ClientExit_live :: "'db cfg \<Rightarrow> SOCKET \<Rightarrow> 'db server task" where
  "ClientExit_live env sock =
     piece (\<lambda>s. Inr (s\<lparr>liveSocket := am_erase sock (liveSocket s)\<rparr>)) (ClientExit_session env sock)"

definition ClientExit_task :: "'db cfg \<Rightarrow> bool \<Rightarrow> SOCKET \<Rightarrow> 'db server task" where
  "ClientExit_task env closed sock =
     piece (\<lambda>s. Inr (s\<lparr>net_of := (net_of s)\<lparr>wire := wire (net_of s) @ [CloseSocket sock]\<rparr>\<rparr>))
       (if closed then ClientExit_live env sock else Done)"

definition BanUser_task :: "'db cfg \<Rightarrow> string \<Rightarrow> 'db server task" where
  "BanUser_task env nickName =
     piece_with (\<lambda>s. sbind (find_user nickName (userMap s)) (\<lambda>hit. Inr (map_option fst hit, s))) (\<lambda>hit.
     case hit of
       None \<Rightarrow> Done
     | Some sock \<Rightarrow>
         piece_with
           (\<lambda>s. sbind (am_at (userMap s) sock) (\<lambda>u.
              sbind (cstr (userId u)) (\<lambda>uid. Inr ((u, uid), s))))
           (\<lambda>(u, ident). erase_id ident
              (quit_room env sock u (say SEND_ME m_banned '''' sock STATUS_LOGOUT (erase_user sock)))))"

section \<open>Requests that only ask\<close>

definition RoomInfo_list :: "SOCKET \<Rightarrow> 'db server task" where
  "RoomInfo_list sock =
     piece_with (\<lambda>s. Inr (m_roomList @ room_lines (roomMap s), s))
       (\<lambda>str. say SEND_ME str '''' sock STATUS_WAITING Done)"

definition RoomInfo_task :: "SOCKET \<Rightarrow> 'db server task" where
  "RoomInfo_task sock =
     piece_with (\<lambda>s. sbind (session_names sock s) (\<lambda>_. Inr (roomMap s = [], s))) (\<lambda>none.
     if none then say SEND_ME m_noRooms '''' sock STATUS_WAITING Done else RoomInfo_list sock)"

definition RoomUserInfo_list :: "SOCKET \<Rightarrow> 'db server task" where
  "RoomUserInfo_list sock =
     piece_with (\<lambda>s. sbind (user_lines m_userList (userMap s)) (\<lambda>str. Inr (str, s)))
       (\<lambda>str. say SEND_ME str '''' sock STATUS_WAITING Done)"

definition RoomUserInfo_task :: "SOCKET \<Rightarrow> 'db server task" where
  "RoomUserInfo_task sock =
     piece (\<lambda>s. sbind (session_names sock s) (\<lambda>_. Inr s)) (RoomUserInfo_list sock)"

definition Whisper_find :: "SOCKET \<Rightarrow> string \<Rightarrow> string \<Rightarrow> 'db server task" where
  "Whisper_find sock name msg =
     piece_with
       (\<lambda>s. sbind (find_user name (userMap s)) (\<lambda>hit.
          case hit of
            None \<Rightarrow> Inr (None, s)
          | Some (k, _) \<Rightarrow> sbind (am_at (userMap s) sock) (\<lambda>u. sbind (cstr (userName u)) (\<lambda>me. Inr (Some (k, me), s)))))
       (\<lambda>hit. case hit of
          Some (k, me) \<Rightarrow> say SEND_ME (me @ m_whisperFrom @ msg) '''' k STATUS_WHISPER Done
        | None \<Rightarrow> say SEND_ME (name @ m_notFound) '''' sock STATUS_WAITING Done)"

definition Whisper_task :: "SOCKET \<Rightarrow> string \<Rightarrow> 'db server task" where
  "Whisper_task sock message =
     piece_with
       (\<lambda>s. sbind (session_names sock s) (\<lambda>_.
          sbind (tokens 2 message) (\<lambda>sArr.
          case sArr of
            [name, msg] \<Rightarrow> sbind (session_names sock s) (\<lambda>(me, _). Inr (Some (name, msg, name = me), s))
          | _ \<Rightarrow> Inr (None, s))))
       (\<lambda>r. case r of
          None \<Rightarrow> Done
        | Some (name, msg, self) \<Rightarrow>
            if self then say SEND_ME (m_selfWhisper @ waitRoomMessage) '''' sock STATUS_WAITING Done
            else Whisper_find sock name msg)"

definition FriendInfo_list :: "SOCKET \<Rightarrow> RelationVo list \<Rightarrow> 'db server task" where
  "FriendInfo_list sock vec =
     piece_with (\<lambda>s. sbind (friend_lines vec (userMap s)) (\<lambda>ls. Inr (m_friendList @ ls, s)))
       (\<lambda>sendMsg. say SEND_ME sendMsg '''' sock STATUS_WAITING Done)"

definition FriendInfo_select :: "'db cfg \<Rightarrow> SOCKET \<Rightarrow> string \<Rightarrow> 'db server task" where
  "FriendInfo_select env sock ident =
     piece_with
       (\<lambda>s. sbind (selectFriends env (setUserId ident RelationVo_new) (database s)) (\<lambda>(vec, db).
          Inr (vec, s\<lparr>database := db\<rparr>)))
       (\<lambda>vec.
          if vec = [] then say SEND_ME (m_friendList @ m_noFriends) '''' sock STATUS_WAITING Done
          else FriendInfo_list sock vec)"

definition FriendInfo_task :: "'db cfg \<Rightarrow> SOCKET \<Rightarrow> 'db server task" where
  "FriendInfo_task env sock =
     piece_with (\<lambda>s. sbind (session_names sock s) (\<lambda>(_, ident). Inr (ident, s))) (FriendInfo_select env sock)"

definition FriendAdd_insert :: "'db cfg \<Rightarrow> SOCKET \<Rightarrow> string \<Rightarrow> RelationVo \<Rightarrow> 'db server task" where
  "FriendAdd_insert env sock message vo2 =
     piece_with
       (\<lambda>s. sbind (InsertRelation env vo2 (database s)) (\<lambda>(res, db). Inr (res, s\<lparr>database := db\<rparr>)))
       (\<lambda>res. say SEND_ME (if res \<noteq> -1 then message @ m_friendAdded else message @ m_friendAddFailed)
          '''' sock STATUS_WAITING Done)"

definition FriendAdd_find :: "'db cfg \<Rightarrow> SOCKET \<Rightarrow> string \<Rightarrow> string \<Rightarrow> 'db server task" where
  "FriendAdd_find env sock message ident =
     piece_with
       (\<lambda>s. sbind (findUserId env (setNickName message RelationVo_new) (database s)) (\<lambda>(vo2, db).
          let vo2 = RelationVo_copy vo2 in
          sbind (getRelationto vo2) (\<lambda>to.
          Inr (if to = '''' then None else Some (setRelationcode 1 (setUserId ident vo2)), s\<lparr>database := db\<rparr>))))
       (\<lambda>r. case r of
          None \<Rightarrow> say SEND_ME m_noSuchId '''' sock STATUS_WAITING Done
        | Some vo2 \<Rightarrow> FriendAdd_insert env sock message vo2)"

definition FriendAdd_task :: "'db cfg \<Rightarrow> SOCKET \<Rightarrow> string \<Rightarrow> 'db server task" where
  "FriendAdd_task env sock message =
     piece_with (\<lambda>s. sbind (session_names sock s) (\<lambda>(_, ident). Inr (ident, s))) (FriendAdd_find env sock message)"

definition FriendDelete_delete :: "'db cfg \<Rightarrow> SOCKET \<Rightarrow> string \<Rightarrow> string \<Rightarrow> 'db server task" where
  "FriendDelete_delete env sock message ident =
     (let vo = setNickName message (setRelationcode 1 (setUserId ident RelationVo_new)) in
      piece_with
        (\<lambda>s. sbind (DeleteRelation env vo (database s)) (\<lambda>(res, db). Inr (res, s\<lparr>database := db\<rparr>)))
        (\<lambda>res. say SEND_ME
           (if res \<noteq> -1 then message @ m_friendDeleted else m_friendDeleteFailed @ waitRoomMessage)
           '''' sock STATUS_WAITING Done))"

definition FriendDelete_task :: "'db cfg \<Rightarrow> SOCKET \<Rightarrow> string \<Rightarrow> 'db server task" where
  "FriendDelete_task env sock message =
     piece_with (\<lambda>s. sbind (session_names sock s) (\<lambda>(_, ident). Inr (ident, s))) (FriendDelete_delete env sock message)"

section \<open>Following a friend\<close>

definition FriendGo_push :: "SOCKET \<Rightarrow> string \<Rightarrow> string \<Rightarrow> string \<Rightarrow> 'db server task" where
  "FriendGo_push sock message rn nick =
     piece (\<lambda>s. sbind (am_at (roomMap s) message) (\<lambda>_. sbind (am_at (roomMap s) rn) (\<lambda>_.
        Inr (s\<lparr>roomMap := am_modify rn (\<lambda>r. r\<lparr>userList := userList r @ [sock]\<rparr>) (roomMap s)\<rparr>))))
       (say SEND_ROOM (nick @ m_joined @ chatRoomMessage) rn 0 STATUS_CHATTIG Done)"

definition FriendGo_join :: "SOCKET \<Rightarrow> string \<Rightarrow> string \<Rightarrow> 'db server task" where
  "FriendGo_join sock message rn =
     piece_with
       (\<lambda>s. sbind (upd_user sock (\<lambda>u. u\<lparr>roomName := strncpy NAME_SIZE rn, status := STATUS_CHATTIG\<rparr>) s) (\<lambda>s.
          sbind (session_names sock s) (\<lambda>(nick, _). Inr (nick, s))))
       (FriendGo_push sock message rn)"

definition FriendGo_room :: "SOCKET \<Rightarrow> string \<Rightarrow> string \<Rightarrow> 'db server task" where
  "FriendGo_room sock message rn =
     piece_with (\<lambda>s. Inr (map_of (roomMap s) rn \<noteq> None, s)) (\<lambda>found.
     if found then FriendGo_join sock message rn else Done)"

definition FriendGo_find :: "SOCKET \<Rightarrow> string \<Rightarrow> string \<Rightarrow> 'db server task" where
  "FriendGo_find sock message nick2 =
     piece_with
       (\<lambda>s. sbind (find_user nick2 (userMap s)) (\<lambda>hit.
          case hit of
            None \<Rightarrow> Inr (None, s)
          | Some (_, friend) \<Rightarrow> sbind (cstr (roomName friend)) (\<lambda>rn. Inr (Some rn, s))))
       (\<lambda>r. case r of
          None \<Rightarrow> say SEND_ME (message @ m_notConnected) '''' sock STATUS_WAITING Done
        | Some rn \<Rightarrow>
            if rn = '''' then say SEND_ME (message @ m_inWaitingRoom) '''' sock STATUS_WAITING Done
            else FriendGo_room sock message rn)"

definition FriendGo_select :: "'db cfg \<Rightarrow> SOCKET \<Rightarrow> string \<Rightarrow> string \<Rightarrow> 'db server task" where
  "FriendGo_select env sock message ident =
     piece_with
       (\<lambda>s. sbind (selectOneFriend env (setRelationto message (setUserId ident RelationVo_new)) (database s))
          (\<lambda>(vo2, db). sbind (getNickName (RelationVo_copy vo2)) (\<lambda>nick2. Inr (nick2, s\<lparr>database := db\<rparr>))))
       (\<lambda>nick2.
          if nick2 = '''' then say SEND_ME (m_friendUnknown @ waitRoomMessage) '''' sock STATUS_WAITING Done
          else FriendGo_find sock message nick2)"

definition FriendGo_task :: "'db cfg \<Rightarrow> SOCKET \<Rightarrow> string \<Rightarrow> 'db server task" where
  "FriendGo_task env sock message =
     piece_with (\<lambda>s. sbind (session_names sock s) (\<lambda>(_, ident). Inr (ident, s))) (FriendGo_select env sock message)"

section \<open>Lines and files in a room\<close>

text \<open>The room's name is read anew for each text that is queued, as the code does.\<close>

definition say_room ::
    "SendTo \<Rightarrow> string \<Rightarrow> SOCKET \<Rightarrow> ClientStatus \<Rightarrow> 'db server task \<Rightarrow> 'db server task" where
  "say_room dir msg sock st rest =
     piece_with (\<lambda>s. sbind (am_at (userMap s) sock) (\<lambda>u. sbind (cstr (roomName u)) (\<lambda>rn. Inr (rn, s))))
       (\<lambda>rn. say dir msg rn 0 st rest)"

definition ChatLine_log :: "'db cfg \<Rightarrow> string \<Rightarrow> string \<Rightarrow> string \<Rightarrow> 'db server task" where
  "ChatLine_log env name message rn =
     (let vo = setStatus 0 (setDirection 0 (setMsg message (setRoomName rn (setNickName name LogVo_new)))) in
      piece (\<lambda>s. sbind (InsertChatting env vo (database s)) (\<lambda>db. Inr (s\<lparr>database := db\<rparr>))) Done)"

definition ChatLine_task :: "'db cfg \<Rightarrow> SOCKET \<Rightarrow> string \<Rightarrow> string \<Rightarrow> 'db server task" where
  "ChatLine_task env sock message name =
     piece_with
       (\<lambda>s. sbind (am_at (userMap s) sock) (\<lambda>u. sbind (cstr (roomName u)) (\<lambda>rn.
          Inr ((rn, map_of (roomMap s) rn \<noteq> None), s))))
       (\<lambda>(rn, found).
          if found then say_room SEND_ROOM (name @ '':'' @ message) sock STATUS_CHATTIG (ChatLine_log env name message rn)
          else ChatLine_log env name message rn)"

text \<open>The datagrams of a file are taken in one piece.\<close>

definition ChatFile_task :: "'db cfg \<Rightarrow> SOCKET \<Rightarrow> 'db server task" where
  "ChatFile_task env sock =
     piece_with
       (\<lambda>s. sbind (am_at (userMap s) sock) (\<lambda>u. sbind (cstr (userName u)) (\<lambda>name.
          sbind (RecvFile env name (udp_of s) (database s)) (\<lambda>(fileDir, udp, db).
          Inr (fileDir, s\<lparr>udp_of := udp, database := db\<rparr>)))))
       (\<lambda>fileDir. say_room SEND_ROOM '''' sock STATUS_FILE_SEND
          (say_room SEND_FILE fileDir sock STATUS_FILE_SEND Done))"

section \<open>Whole requests\<close>

text \<open>\<open>directionFunc\<close>, the three handlers by status, and their table.\<close>

definition direction_task :: "'db cfg \<Rightarrow> Direction \<Rightarrow> SOCKET \<Rightarrow> string \<Rightarrow> 'db server task" where
  "direction_task env direction sock message =
     (case direction of
        USER_MAKE \<Rightarrow> UserMake_task env sock message
      | USER_ENTER \<Rightarrow> UserEnter_task env sock message
      | ROOM_MAKE \<Rightarrow> RoomMake_task sock message
      | ROOM_ENTER \<Rightarrow> RoomEnter_task sock message
      | WHISPER \<Rightarrow> Whisper_task sock message
      | ROOM_INFO \<Rightarrow> RoomInfo_task sock
      | ROOM_USER_INFO \<Rightarrow> RoomUserInfo_task sock
      | FRIEND_INFO \<Rightarrow> FriendInfo_task env sock
      | FRIEND_ADD \<Rightarrow> FriendAdd_task env sock message
      | FRIEND_GO \<Rightarrow> FriendGo_task env sock message
      | FRIEND_DELETE \<Rightarrow> FriendDelete_task env sock message
      | _ \<Rightarrow> piece (\<lambda>_. Inl BadFunction) Done)"

definition StatusLogout_task :: "'db cfg \<Rightarrow> SOCKET \<Rightarrow> Direction \<Rightarrow> string \<Rightarrow> 'db server task" where
  "StatusLogout_task env sock direction message =
     (if direction = USER_MAKE \<or> direction = USER_ENTER then direction_task env direction sock message
      else if direction = EXIT then piece (\<lambda>_. Inl ProcessExit) Done
      else say SEND_ME (errorMessage @ loginBeforeMessage) '''' sock STATUS_LOGOUT Done)"

definition StatusWait_log :: "'db cfg \<Rightarrow> ClientStatus \<Rightarrow> Direction \<Rightarrow> string \<Rightarrow> string \<Rightarrow> 'db server task" where
  "StatusWait_log env st direction message name = piece (log_direction env name st direction message) Done"

definition StatusWait_task :: "'db cfg \<Rightarrow> SOCKET \<Rightarrow> ClientStatus \<Rightarrow> Direction \<Rightarrow> string \<Rightarrow> 'db server task" where
  "StatusWait_task env sock st direction message =
     piece_with (\<lambda>s. sbind (session_names sock s) (\<lambda>(name, _). Inr (name, s))) (\<lambda>name.
     if int_of_direction direction = -1 then Done
     else if direction \<in> {ROOM_MAKE, ROOM_ENTER, WHISPER, ROOM_INFO, ROOM_USER_INFO, FRIEND_INFO,
                          FRIEND_ADD, FRIEND_GO, FRIEND_DELETE} then
       seq_task (direction_task env direction sock message) (StatusWait_log env st direction message name)
     else if direction = LOG_OUT then LogOut_id env sock message name
     else if direction = USER_GOOD_INFO then StatusWait_log env st direction message name
     else say SEND_ME (errorMessage @ waitRoomMessage) '''' sock STATUS_WAITING
            (StatusWait_log env st direction message name))"

definition StatusChat_task :: "'db cfg \<Rightarrow> SOCKET \<Rightarrow> Direction \<Rightarrow> string \<Rightarrow> 'db server task" where
  "StatusChat_task env sock direction message =
     (if message = s_out then RoomOut_task env sock
      else piece_with (\<lambda>s. sbind (session_names sock s) (\<lambda>(name, _). Inr (name, s))) (\<lambda>name.
        if contains s_add message \<or> direction = USER_GOOD then Done
        else if direction = FILE_SEND then ChatFile_task env sock
        else ChatLine_task env sock message name))"

definition request_task ::
    "'db cfg \<Rightarrow> SOCKET \<Rightarrow> ClientStatus \<Rightarrow> Direction \<Rightarrow> string \<Rightarrow> 'db server task" where
  "request_task env sock st direction message =
     (case st of
        STATUS_LOGOUT \<Rightarrow> StatusLogout_task env sock direction message
      | STATUS_WAITING \<Rightarrow> StatusWait_task env sock st direction message
      | STATUS_CHATTIG \<Rightarrow> StatusChat_task env sock direction message
      | _ \<Rightarrow> piece (\<lambda>_. Inl BadFunction) Done)"

lemmas ask_defs = RoomInfo_list_def RoomInfo_task_def RoomUserInfo_list_def RoomUserInfo_task_def
  Whisper_find_def Whisper_task_def FriendInfo_list_def FriendInfo_select_def FriendInfo_task_def
  FriendAdd_insert_def FriendAdd_find_def FriendAdd_task_def FriendDelete_delete_def FriendDelete_task_def
  say_room_def ChatLine_log_def ChatLine_task_def ChatFile_task_def StatusWait_log_def

lemmas go_defs = FriendGo_push_def FriendGo_join_def FriendGo_room_def FriendGo_find_def FriendGo_select_def
  FriendGo_task_def

lemmas cut_defs = say_def UserMake_task_def UserMake_store_def InitUser_task_def InitUser_update_def
  InitUser_log_def UserEnter_claim_def UserEnter_task_def LogOut_log_def LogOut_session_def LogOut_id_def
  LogOut_task_def RoomMake_enter_def RoomMake_claim_def RoomMake_task_def RoomEnter_push_def
  RoomEnter_join_def RoomEnter_find_def RoomEnter_task_def drop_task_def reset_task_def RoomOut_leave_def
  RoomOut_task_def erase_id_def erase_user_def quit_leave_def quit_room_def ClientExit_session_def
  ClientExit_live_def ClientExit_task_def BanUser_task_def

section \<open>Without interruption the pieces are the handler\<close>

lemma run_say [simp]: "run (say dir msg rn sock st t) = (\<lambda>s. run t (InsertSendQueue dir msg rn sock st s))"
  by (simp add: say_def fun_eq_iff)

lemma run_if [simp]: "run (if b then t else t') = (if b then run t else run t')"
  by simp

lemma sbind_cong: "m = m' \<Longrightarrow> (\<And>x. m' = Inr x \<Longrightarrow> f x = g x) \<Longrightarrow> sbind m f = sbind m' g"
  by (cases m') auto

lemma sbind_right [simp]: "sbind m Inr = m"
  by (cases m) simp_all

lemma run_UserMake: "run (UserMake_task env sock message) s = UserMake env sock message s"
  by (cases "tokens 3 message")
     (auto simp: UserMake_task_def UserMake_store_def UserMake_def sbind_assoc Let_def
       split: list.split intro!: sbind_cong)

lemma run_InitUser: "run (InitUser_task env ident sock nick) s = InitUser env ident sock nick s"
  by (simp add: InitUser_task_def InitUser_update_def InitUser_log_def InitUser_def sbind_assoc Let_def)

lemma run_UserEnter: "run (UserEnter_task env sock message) s = UserEnter env sock message s"
  by (cases "tokens 2 message")
     (auto simp: UserEnter_task_def UserEnter_claim_def UserEnter_def run_InitUser sbind_assoc Let_def
       split: list.split intro!: sbind_cong)

lemma run_RoomMake: "run (RoomMake_task sock message) s = RoomMake sock message s"
  by (simp add: RoomMake_task_def RoomMake_claim_def RoomMake_enter_def RoomMake_def join_room_def [abs_def] sbind_assoc)

lemma run_RoomEnter: "run (RoomEnter_task sock message) s = RoomEnter sock message s"
  by (auto simp: RoomEnter_task_def RoomEnter_find_def RoomEnter_join_def RoomEnter_push_def RoomEnter_def join_room_def [abs_def] sbind_assoc
      intro!: sbind_cong)

lemma run_RoomOut: "run (RoomOut_task env sock) s = StatusChat env sock direction s_out s"
  by (auto simp: RoomOut_task_def RoomOut_leave_def reset_task_def drop_task_def StatusChat_def sbind_assoc intro!: sbind_cong)

lemma run_LogOut: "run (LogOut_task env sock message) s = StatusWait env sock STATUS_WAITING LOG_OUT message s"
proof -
  have "int_of_direction LOG_OUT \<noteq> -1" by (simp add: int_of_direction_def direction_table_def)
  then show ?thesis
    by (auto simp: LogOut_task_def LogOut_id_def LogOut_session_def LogOut_log_def StatusWait_def sbind_assoc intro!: sbind_cong)
qed

lemma run_quit_room:
  "map_of (userMap s) sock = Some u \<Longrightarrow>
   run (quit_room env sock u rest) s =
     sbind
       (if status u = STATUS_CHATTIG then
          sbind (cstr (userName u)) (\<lambda>name.
          sbind (cstr (roomName u)) (\<lambda>rn.
          sbind (broadcast_leave env (name @ m_left) rn sock s) (\<lambda>s.
          sbind (reset_session sock s) (\<lambda>s.
          Inr (drop_empty_room rn s)))))
        else Inr s) (run rest)"
  by (auto simp: quit_room_def quit_leave_def reset_task_def drop_task_def am_at_def sbind_assoc intro!: sbind_cong)

lemma run_ClientExit: "run (ClientExit_task env closed sock) s = ClientExit env closed sock s"
  by (auto simp: ClientExit_task_def ClientExit_live_def ClientExit_session_def erase_id_def erase_user_def ClientExit_def sbind_assoc
      run_quit_room Let_def split: option.split intro!: sbind_cong)

lemma find_user_hit:
  "find_user name m = Inr (Some (k, u)) \<Longrightarrow> distinct (map fst m) \<Longrightarrow> map_of m k = Some u"
  by (induction m) (force simp: sbind_Inr_iff split: if_splits)+

lemma run_BanUser:
  assumes "um_wf (userMap s)"
  shows "run (BanUser_task env nickName) s = BanUser env nickName s"
proof (cases "find_user nickName (userMap s)")
  case (Inr hit)
  show ?thesis
  proof (cases hit)
    case (Some ku)
    obtain k u where ku: "ku = (k, u)" by (cases ku)
    have "map_of (userMap s) k = Some u"
      using find_user_hit [of nickName "userMap s" k u] Inr Some ku assms by (simp add: um_wf_def)
    then show ?thesis
      by (auto simp: BanUser_task_def BanUser_def erase_id_def erase_user_def Inr Some ku am_at_def run_quit_room
          sbind_assoc Let_def intro!: sbind_cong)
  qed (simp add: BanUser_task_def BanUser_def Inr)
qed (simp add: BanUser_task_def BanUser_def)

text \<open>The requests that only ask, and \<open>FriendGo\<close>.\<close>

lemma run_ask:
  "run (RoomInfo_task sock) s = RoomInfo sock s"
  "run (RoomUserInfo_task sock) s = RoomUserInfo sock s"
  "run (FriendInfo_task env sock) s = FriendInfo env sock s"
  "run (FriendAdd_task env sock message) s = FriendAdd env sock message s"
  "run (FriendDelete_task env sock message) s = FriendDelete env sock message s"
  by (auto simp: ask_defs RoomInfo_def RoomUserInfo_def FriendInfo_def FriendAdd_def FriendDelete_def
      sbind_assoc Let_def intro!: sbind_cong)

lemma session_names_me:
  "session_names sock s = Inr (me, i) \<Longrightarrow> sbind (am_at (userMap s) sock) (\<lambda>u. sbind (cstr (userName u)) f) = f me"
  by (auto simp: session_names_def sbind_Inr_iff)

lemma run_Whisper: "run (Whisper_task sock message) s = Whisper sock message s"
  by (cases "session_names sock s"; cases "tokens 2 message")
    (auto simp: Whisper_task_def Whisper_find_def Whisper_def sbind_assoc session_names_me split: list.split option.split
      intro!: sbind_cong)

lemma run_FriendGo: "run (FriendGo_task env sock message) s = FriendGo env sock message s"
  by (auto simp: go_defs FriendGo_def sbind_assoc Let_def split: option.split intro!: sbind_cong)

lemma run_ChatLine:
  "run (StatusChat_task env sock direction message) s = StatusChat env sock direction message s"
  by (cases "map_of (userMap s) sock")
    (auto simp: StatusChat_task_def run_RoomOut [of env sock s direction] StatusChat_def ChatLine_task_def
      ChatFile_task_def session_names_def ChatLine_log_def say_room_def sbind_assoc Let_def am_at_def split: option.split intro!: sbind_cong)

lemma run_direction: "run (direction_task env direction sock message) s = directionFunc env direction sock message s"
  by (cases direction)
    (simp_all add: direction_task_def directionFunc_def run_UserMake run_UserEnter run_RoomMake run_RoomEnter
      run_ask run_Whisper run_FriendGo)

lemma run_StatusWait:
  "run (StatusWait_task env sock STATUS_WAITING direction message) s =
   StatusWait env sock STATUS_WAITING direction message s"
proof (cases "direction = LOG_OUT")
  case True
  have "int_of_direction LOG_OUT \<noteq> -1" by (simp add: int_of_direction_def direction_table_def)
  then show ?thesis
    using run_LogOut [of env sock message s] unfolding True by (simp add: StatusWait_task_def LogOut_task_def sbind_assoc)
next
  case False
  then show ?thesis
    by (auto simp: StatusWait_task_def StatusWait_def StatusWait_log_def run_direction sbind_assoc intro!: sbind_cong)
qed

lemma run_request: "run (request_task env sock st direction message) s = callFuncPointer env sock st direction message s"
  by (cases st)
    (simp_all add: request_task_def callFuncPointer_def StatusLogout_task_def StatusLogout_def run_direction
      run_StatusWait run_ChatLine)

section \<open>Every task comes to its end\<close>

lemma pieces_left_say: "pieces_left n t \<Longrightarrow> pieces_left (Suc n) (say dir msg rn sock st t)"
  unfolding say_def by (rule pieces_left_piece)

lemmas pieces_left_intros = pieces_left.Done pieces_left_say pieces_left_piece pieces_left_with

lemma tasks_left:
  "pieces_left (Suc (Suc (Suc 0))) (UserMake_task env sock message)"
  "pieces_left (Suc (Suc (Suc (Suc (Suc (Suc 0)))))) (UserEnter_task env sock message)"
  "pieces_left (Suc (Suc (Suc (Suc (Suc 0))))) (LogOut_task env sock message)"
  "pieces_left (Suc (Suc (Suc (Suc 0)))) (RoomMake_task sock message)"
  "pieces_left (Suc (Suc (Suc (Suc (Suc 0))))) (RoomEnter_task sock message)"
  "pieces_left (Suc (Suc (Suc (Suc (Suc 0))))) (RoomOut_task env sock)"
  "pieces_left (Suc (Suc (Suc (Suc (Suc (Suc (Suc (Suc (Suc 0))))))))) (ClientExit_task env closed sock)"
  "pieces_left (Suc (Suc (Suc (Suc (Suc (Suc (Suc (Suc (Suc 0))))))))) (BanUser_task env nickName)"
  by (auto simp: cut_defs Let_def split: option.split prod.split answer.split intro!: pieces_left_intros)

lemma ask_tasks_left:
  "pieces_left (Suc (Suc (Suc 0))) (RoomInfo_task sock)"
  "pieces_left (Suc (Suc (Suc 0))) (RoomUserInfo_task sock)"
  "pieces_left (Suc (Suc (Suc 0))) (Whisper_task sock message)"
  "pieces_left (Suc (Suc (Suc (Suc 0)))) (FriendInfo_task env sock)"
  "pieces_left (Suc (Suc (Suc (Suc 0)))) (FriendAdd_task env sock message)"
  "pieces_left (Suc (Suc (Suc 0))) (FriendDelete_task env sock message)"
  "pieces_left (Suc (Suc (Suc (Suc (Suc (Suc (Suc 0))))))) (FriendGo_task env sock message)"
  "pieces_left (Suc (Suc (Suc (Suc 0)))) (ChatLine_task env sock message name)"
  "pieces_left (Suc (Suc (Suc (Suc (Suc 0))))) (ChatFile_task env sock)"
  by (auto simp: ask_defs go_defs Let_def split: option.split prod.split intro!: pieces_left_intros)

lemma pieces_left_one: "0 < n \<Longrightarrow> pieces_left n (piece f Done)"
  by (cases n) (auto intro: pieces_left_piece pieces_left.Done)

lemma pieces_left_if:
  "(b \<Longrightarrow> pieces_left n t) \<Longrightarrow> (\<not> b \<Longrightarrow> pieces_left n t') \<Longrightarrow> pieces_left n (if b then t else t')"
  by simp

lemma direction_task_left: "pieces_left 7 (direction_task env direction sock message)"
  by (cases direction)
    (auto simp: direction_task_def intro: pieces_left_one intro!: tasks_left [THEN pieces_left_mono]
      ask_tasks_left [THEN pieces_left_mono])

lemma request_task_left: "pieces_left 9 (request_task env sock st direction message)"
proof -
  have wait: "pieces_left (Suc 8) (StatusWait_task env sock st direction message)" for st
  proof -
    have one: "pieces_left 1 (StatusWait_log env st direction message name)" for name
      by (simp add: StatusWait_log_def pieces_left_one)
    have seq: "pieces_left 8 (seq_task (direction_task env direction sock message)
        (StatusWait_log env st direction message name))" for name
      using pieces_left_seq [OF direction_task_left one] by simp
    have out: "pieces_left 8 (LogOut_id env sock message name)" for name
      by (rule pieces_left_mono [of "Suc (Suc (Suc (Suc 0)))"])
        (auto simp: LogOut_id_def LogOut_session_def LogOut_log_def intro!: pieces_left_intros)
    have err: "pieces_left 8 (say SEND_ME m rn sock st' (StatusWait_log env st direction message name))" for m rn st' name
      using pieces_left_say [OF one] by (rule pieces_left_mono) simp
    show ?thesis
      unfolding StatusWait_task_def
      by (intro pieces_left_with pieces_left_if seq out err pieces_left.Done one [THEN pieces_left_mono]) simp_all
  qed
  have chat: "pieces_left (Suc 8) (StatusChat_task env sock direction message)"
  proof -
    have "pieces_left (Suc 8) (RoomOut_task env sock)" by (rule tasks_left [THEN pieces_left_mono]) simp
    moreover have "pieces_left 8 (ChatLine_task env sock message name)" "pieces_left 8 (ChatFile_task env sock)" for name
      by (rule ask_tasks_left [THEN pieces_left_mono]; simp)+
    ultimately show ?thesis
      unfolding StatusChat_task_def by (intro pieces_left_if pieces_left_with pieces_left.Done)
  qed
  have out: "pieces_left 9 (StatusLogout_task env sock direction message)"
    using direction_task_left [THEN pieces_left_mono, of 9]
    by (auto simp: StatusLogout_task_def say_def intro: pieces_left_one)
  show ?thesis
    using wait chat out by (cases st) (auto simp: request_task_def intro: pieces_left_one)
qed

end
