(* ===== verification/Logins.thy ===== *)
theory Logins
  imports Cut Accounts
begin

text \<open>
  Many logins at once. Between the check of the id and the session that follows from it, \<open>UserEnter\<close>
  holds no lock; the assertion that every piece keeps is the invariant of the session state, not of
  the sessions as they are, but of the sessions as they will be when every login that has claimed its
  id has stored its session.
\<close>

section \<open>Positions\<close>

datatype login_pos = Asking | Holding PER_HANDLE_DATA | Inside | Refused | Rejected

definition session_for :: "string \<Rightarrow> string \<Rightarrow> PER_HANDLE_DATA" where
  "session_for a nick =
     \<lparr>userName = strncpy NAME_SIZE nick, roomName = strncpy NAME_SIZE '''',
      userId = strncpy NAME_SIZE a, status = STATUS_WAITING\<rparr>"

lemma InitUser_task_session:
  "InitUser_task env a k nick =
     piece (\<lambda>s. Inr (s\<lparr>userMap := um_put (ord env) k (session_for a nick) (userMap s)\<rparr>))
       (InitUser_update env (session_for a nick) k nick)"
  by (simp add: InitUser_task_def session_for_def Let_def)

lemma session_for_ok:
  assumes "nul_free a" "length a < NAME_SIZE" "nul_free nick" "length nick < NAME_SIZE"
  shows "user_ok (session_for a nick)" "uid (session_for a nick) = a" "uname (session_for a nick) = nick"
    "status (session_for a nick) = STATUS_WAITING" "room_of (session_for a nick) = None"
  using assms
  by (simp_all add: session_for_def user_ok_def NUL_in_strncpy upto_nul_strncpy NAME_SIZE_def room_of_def)

text \<open>Whatever the database holds when it is asked, it knows the account and the password.\<close>

definition good_login :: "'db cfg \<Rightarrow> string \<Rightarrow> bool" where
  "good_login env m \<longleftrightarrow>
     (\<exists>a b nick. pieces (CHR 0x5C) m = [a, b] \<and> (\<forall>db. account_answer env db a b nick))"

definition finishing :: "SOCKET \<Rightarrow> 'db server task \<Rightarrow> bool" where
  "finishing k t \<longleftrightarrow> t = Done \<or> (\<exists>msg st. t = say SEND_ME msg '''' k st Done)"

inductive login_at :: "'db cfg \<Rightarrow> SOCKET \<Rightarrow> string \<Rightarrow> 'db server task \<Rightarrow> login_pos \<Rightarrow> bool"
  for env k m where
  ask: "login_at env k m (UserEnter_task env k m) Asking"
| claim: "pieces (CHR 0x5C) m = [a, b] \<Longrightarrow> getNickName vo = Inr nick \<Longrightarrow> nul_free nick \<Longrightarrow>
    length nick < NAME_SIZE \<Longrightarrow> login_at env k m (UserEnter_claim env k a vo) Asking"
| store: "pieces (CHR 0x5C) m = [a, b] \<Longrightarrow> nul_free nick \<Longrightarrow> length nick < NAME_SIZE \<Longrightarrow>
    login_at env k m (InitUser_task env a k nick) (Holding (session_for a nick))"
| update: "pieces (CHR 0x5C) m = [a, b] \<Longrightarrow> nul_free nick \<Longrightarrow> length nick < NAME_SIZE \<Longrightarrow>
    login_at env k m (InitUser_update env (session_for a nick) k nick) Inside"
| log: "NUL \<in> set (userId_v vo) \<Longrightarrow> NUL \<in> set (nickName_v vo) \<Longrightarrow>
    login_at env k m (InitUser_log env vo k nick) Inside"
| finish: "finishing k t \<Longrightarrow> p = Inside \<or> p = Refused \<or> p = Rejected \<and> \<not> good_login env m \<Longrightarrow>
    login_at env k m t p"

lemma Done_position: "login_at env k m Done p \<Longrightarrow> p = Inside \<or> p = Refused \<or> p = Rejected \<and> \<not> good_login env m"
  by (erule login_at.cases)
     (simp_all add: UserEnter_task_def UserEnter_claim_def InitUser_task_session InitUser_update_def
       InitUser_log_def piece_def piece_with_def)

section \<open>The sessions to be\<close>

definition holding :: "login_pos \<Rightarrow> PER_HANDLE_DATA option" where
  "holding p = (case p of Holding u \<Rightarrow> Some u | _ \<Rightarrow> None)"

lemma holding_simps [simp]:
  "holding Asking = None" "holding (Holding u) = Some u" "holding Inside = None"
  "holding Refused = None" "holding Rejected = None"
  by (simp_all add: holding_def)

definition held :: "SOCKET list \<Rightarrow> login_pos list \<Rightarrow> SOCKET \<Rightarrow> PER_HANDLE_DATA option" where
  "held ks ps k = Option.bind (map_of (zip ks ps) k) holding"

definition to_be :: "SOCKET list \<Rightarrow> login_pos list \<Rightarrow> 'db server \<Rightarrow> SOCKET \<Rightarrow> PER_HANDLE_DATA option" where
  "to_be ks ps s = map_of (userMap s) ++ held ks ps"

lemma held_nth:
  "distinct ks \<Longrightarrow> length ps = length ks \<Longrightarrow> i < length ks \<Longrightarrow> held ks ps (ks ! i) = holding (ps ! i)"
  by (simp add: held_def map_of_zip_nth)

lemma held_other: "length ps = length ks \<Longrightarrow> k \<notin> set ks \<Longrightarrow> held ks ps k = None"
  by (simp add: held_def map_of_zip_is_None [THEN iffD2])

lemma held_update:
  assumes "distinct ks" and "length ps = length ks" and "i < length ks"
  shows "held ks (ps[i := p]) = (held ks ps)(ks ! i := holding p)"
proof
  fix k
  show "held ks (ps[i := p]) k = ((held ks ps)(ks ! i := holding p)) k"
  proof (cases "k \<in> set ks")
    case True
    then obtain j where j: "j < length ks" "k = ks ! j" by (auto simp: in_set_conv_nth)
    have "ks ! j = ks ! i \<longleftrightarrow> j = i" using nth_eq_iff_index_eq [OF assms(1) j(1) assms(3)] .
    then show ?thesis using assms j held_nth [OF assms(1), of "ps[i := p]" j] held_nth [OF assms(1,2) j(1)]
      by (auto simp: nth_list_update)
  next
    case False
    with assms show ?thesis using nth_mem [OF assms(3)] by (auto simp: held_other)
  qed
qed

lemma held_same:
  assumes "distinct ks" and "length ps = length ks" and "i < length ks" and "holding p = holding (ps ! i)"
  shows "held ks (ps[i := p]) = held ks ps"
  using held_update [OF assms(1-3), of p] held_nth [OF assms(1-3)] assms(4) by (auto simp: fun_eq_iff)

section \<open>The assertion\<close>

definition login_thread ::
    "(SOCKET \<Rightarrow> PER_HANDLE_DATA option) \<Rightarrow> string set \<Rightarrow> SOCKET \<Rightarrow> string \<Rightarrow> login_pos \<Rightarrow> bool" where
  "login_thread V ids k m p =
     (let a = hd (pieces (CHR 0x5C) m) in
      case p of
        Asking \<Rightarrow> V k = None
      | Holding u \<Rightarrow> \<exists>nick. u = session_for a nick
      | Inside \<Rightarrow> \<exists>nick. V k = Some (session_for a nick)
      | Refused \<Rightarrow> V k = None \<and> a \<in> ids
      | Rejected \<Rightarrow> V k = None)"

lemma login_thread_mono:
  "login_thread V ids k m p \<Longrightarrow> V' k = V k \<Longrightarrow> ids \<subseteq> ids' \<Longrightarrow> login_thread V' ids' k m p"
  by (auto simp: login_thread_def Let_def split: login_pos.splits)

definition login_setup :: "'db cfg \<Rightarrow> 'db server \<Rightarrow> (SOCKET \<times> string) list \<Rightarrow> bool" where
  "login_setup env s0 reqs \<longleftrightarrow> sql_ok env \<and> distinct (map fst reqs) \<and>
     (\<forall>(k, m)\<in>set reqs. map_of (userMap s0) k = None \<and> request_ok STATUS_LOGOUT USER_ENTER m)"

definition login_inv ::
    "'db cfg \<Rightarrow> 'db server \<Rightarrow> (SOCKET \<times> string) list \<Rightarrow> 'db server \<Rightarrow> login_pos list \<Rightarrow> bool" where
  "login_inv env s0 reqs s ps \<longleftrightarrow>
     login_setup env s0 reqs \<and> length ps = length reqs \<and> maps_ok s \<and> net_ok (net_of s) \<and>
     (let V = to_be (map fst reqs) ps s; L = map_of (liveSocket s) in
      users_ok V L \<and> ids_ok V (idSet s) \<and> rooms_ok V (map_of (roomMap s)) \<and>
      map_of (userMap s) \<subseteq>\<^sub>m V \<and>
      (\<forall>i<length reqs. L (fst (reqs ! i)) \<noteq> None \<and>
         login_thread V (idSet s) (fst (reqs ! i)) (snd (reqs ! i)) (ps ! i))) \<and>
     map_of (userMap s0) \<subseteq>\<^sub>m map_of (userMap s) \<and>
     dom (map_of (userMap s)) \<subseteq> dom (map_of (userMap s0)) \<union> set (map fst reqs)"

lemma login_invD:
  assumes "login_inv env s0 reqs s ps"
  shows "sql_ok env" "distinct (map fst reqs)" "length ps = length (map fst reqs)" "maps_ok s"
    "net_ok (net_of s)" "users_ok (to_be (map fst reqs) ps s) (map_of (liveSocket s))"
    "ids_ok (to_be (map fst reqs) ps s) (idSet s)"
    "rooms_ok (to_be (map fst reqs) ps s) (map_of (roomMap s))"
    "map_of (userMap s) \<subseteq>\<^sub>m to_be (map fst reqs) ps s"
  using assms by (simp_all add: login_inv_def login_setup_def Let_def)

lemma login_inv_thread:
  assumes "login_inv env s0 reqs s ps" and "i < length ps"
  shows "i < length (map fst reqs)" "request_ok STATUS_LOGOUT USER_ENTER (snd (reqs ! i))"
    "map_of (userMap s0) (fst (reqs ! i)) = None" "map_of (liveSocket s) (fst (reqs ! i)) \<noteq> None"
    "login_thread (to_be (map fst reqs) ps s) (idSet s) (fst (reqs ! i)) (snd (reqs ! i)) (ps ! i)"
proof -
  have i: "i < length reqs" "reqs ! i \<in> set reqs" using assms by (simp_all add: login_inv_def)
  then show "i < length (map fst reqs)" by simp
  show "request_ok STATUS_LOGOUT USER_ENTER (snd (reqs ! i))" "map_of (userMap s0) (fst (reqs ! i)) = None"
    using assms(1) i(2) by (auto simp: login_inv_def login_setup_def)
  show "map_of (liveSocket s) (fst (reqs ! i)) \<noteq> None"
    "login_thread (to_be (map fst reqs) ps s) (idSet s) (fst (reqs ! i)) (snd (reqs ! i)) (ps ! i)"
    using assms(1) i(1) by (simp_all add: login_inv_def Let_def)
qed

text \<open>
  What a piece of thread \<open>i\<close> may do: replace the sessions to be at its own socket only, add ids, and
  leave the connections alone.
\<close>

lemma login_inv_step:
  assumes inv: "login_inv env s0 reqs s ps" and i: "i < length ps"
    and s': "maps_ok s'" "net_ok (net_of s')" "liveSocket s' = liveSocket s" "idSet s \<subseteq> idSet s'"
      "map_of (userMap s0) \<subseteq>\<^sub>m map_of (userMap s')"
      "dom (map_of (userMap s')) \<subseteq> dom (map_of (userMap s0)) \<union> set (map fst reqs)"
    and V: "V' = to_be (map fst reqs) (ps[i := p]) s'"
      "\<And>k. k \<noteq> fst (reqs ! i) \<Longrightarrow> V' k = to_be (map fst reqs) ps s k"
      "users_ok V' (map_of (liveSocket s))" "ids_ok V' (idSet s')" "rooms_ok V' (map_of (roomMap s'))"
      "map_of (userMap s') \<subseteq>\<^sub>m V'"
    and p: "login_thread V' (idSet s') (fst (reqs ! i)) (snd (reqs ! i)) p"
  shows "login_inv env s0 reqs s' (ps[i := p])"
proof -
  let ?ks = "map fst reqs"
  have "login_thread V' (idSet s') (fst (reqs ! j)) (snd (reqs ! j)) (ps[i := p] ! j)"
    if j: "j < length reqs" for j
  proof (cases "j = i")
    case True
    then show ?thesis using p i by simp
  next
    case False
    have "?ks ! j \<noteq> ?ks ! i"
      using nth_eq_iff_index_eq [OF login_invD(2) [OF inv], of j i] False j login_inv_thread(1) [OF inv i] by simp
    then have "V' (fst (reqs ! j)) = to_be ?ks ps s (fst (reqs ! j))"
      using V(2) j login_inv_thread(1) [OF inv i] by simp
    moreover have "login_thread (to_be ?ks ps s) (idSet s) (fst (reqs ! j)) (snd (reqs ! j)) (ps ! j)"
      using login_inv_thread(5) [OF inv, of j] j login_invD(3) [OF inv] by simp
    ultimately show ?thesis using login_thread_mono s'(4) False by simp
  qed
  then show ?thesis
    using inv s' V(3-6) unfolding login_inv_def V(1) by (simp add: Let_def)
qed

text \<open>A piece that leaves the sessions alone.\<close>

lemma login_inv_quiet:
  assumes inv: "login_inv env s0 reqs s ps" and i: "i < length ps" and s': "same_sessions s s'"
    and p: "holding p = holding (ps ! i)"
      "login_thread (to_be (map fst reqs) ps s) (idSet s) (fst (reqs ! i)) (snd (reqs ! i)) p"
  shows "login_inv env s0 reqs s' (ps[i := p])"
proof -
  note d = login_invD [OF inv]
  have V: "to_be (map fst reqs) (ps[i := p]) s' = to_be (map fst reqs) ps s"
    using held_same [OF d(2,3) login_inv_thread(1) [OF inv i] p(1)] s'
    by (simp add: to_be_def same_sessions_def)
  show ?thesis
    by (rule login_inv_step [OF inv i _ _ _ _ _ _ refl])
       (use inv s' p(2) d in \<open>simp_all add: V same_sessions_def maps_ok_def login_inv_def Let_def\<close>)
qed

section \<open>Every piece keeps it\<close>

lemma request_pieces:
  assumes "request_ok STATUS_LOGOUT USER_ENTER m" and "pieces (CHR 0x5C) m = [a, b]"
  shows "nul_free a" "a \<noteq> ''''" "length a < NAME_SIZE"
  using assms pieces_nul_free [of m a "CHR 0x5C"] pieces_nonempty [of a "CHR 0x5C" m]
  by (auto simp: request_ok_def Let_def)

lemma finishing_say: "finishing k (say SEND_ME msg '''' k st Done)"
  by (auto simp: finishing_def)

lemma step_finishing:
  assumes "login_inv env s0 reqs s ps" and "i < length ps" and "finishing k t"
    and "ps ! i = Inside \<or> ps ! i = Refused \<or> ps ! i = Rejected \<and> \<not> good_login env m"
  shows "ok (step t s) (\<lambda>(s', t'). \<exists>p. login_at env k m t' p \<and> login_inv env s0 reqs s' (ps[i := p]))"
proof -
  have "login_inv env s0 reqs s' (ps[i := ps ! i])" if "same_sessions s s'" for s'
    using login_inv_quiet [OF assms(1,2) that refl] login_inv_thread(5) [OF assms(1,2)] by blast
  moreover have "login_at env k m Done (ps ! i)"
    using assms(4) by (intro login_at.finish) (auto simp: finishing_def)
  moreover have "same_sessions s (InsertSendQueue SEND_ME msg '''' k st s)" for msg st by simp
  ultimately show ?thesis
    using assms(3) by (auto simp: finishing_def say_def simp del: same_sessions_queue intro!: exI [of _ "ps ! i"])
qed

lemma good_login_answer:
  assumes "good_login env m" and "pieces (CHR 0x5C) m = [a, b]"
  obtains nick where "account_answer env db a b nick"
  using assms by (auto simp: good_login_def)

text \<open>What the look-up of the account ends in.\<close>

lemma UserEnter_ask:
  assumes sql: "sql_ok env" and req: "request_ok STATUS_LOGOUT USER_ENTER m"
  obtains db t where "step (UserEnter_task env k m) s = Inr (s\<lparr>database := db\<rparr>, t)"
    "finishing k t" "\<not> good_login env m"
  | db a b vo nick where "step (UserEnter_task env k m) s = Inr (s\<lparr>database := db\<rparr>, UserEnter_claim env k a vo)"
    "pieces (CHR 0x5C) m = [a, b]" "getNickName vo = Inr nick" "nul_free nick" "length nick < NAME_SIZE"
proof -
  let ?ts = "pieces (CHR 0x5C) m"
  have t: "tokens 2 m = Inr ?ts" using req by (simp add: request_ok_def tokens_pieces BUF_SIZE_def Let_def)
  show thesis
  proof (cases "\<exists>a b. ?ts = [a, b]")
    case False
    then have "step (UserEnter_task env k m) s = Inr (s\<lparr>database := database s\<rparr>, Done)" "\<not> good_login env m"
      by (auto simp: UserEnter_task_def t not_two [OF False] good_login_def)
    with that(1) [of "database s" Done] show thesis by (simp add: finishing_def)
  next
    case True
    then obtain a b where ts: "?ts = [a, b]" by blast
    note a = request_pieces [OF req ts]
    have "NUL \<in> set (userId_v (setUserId a UserVo_new))" using a(1) by (simp add: vo_defs vo_simps)
    note sel = selectUser_cases [OF sql this, of "database s"]
    show thesis
    proof (cases rule: sel)
      case (1 db')
      have "\<not> good_login env m"
      proof
        assume "good_login env m"
        then obtain nick where "account_answer env (database s) a b nick"
          using good_login_answer ts by metis
        from selectUser_answer [OF this a(1)] 1
        have "getUserId (UserVo_copy (setUserId '''' (setUserId a UserVo_new))) = Inr (take 10 a)" by auto
        then show False using UserVo_none(1) [OF refl, of a] a(2) by simp
      qed
      moreover have "step (UserEnter_task env k m) s = Inr (s\<lparr>database := db'\<rparr>,
          say SEND_ME (m_noAccount @ loginBeforeMessage) '''' k STATUS_LOGOUT Done)"
        by (simp add: UserEnter_task_def t ts 1 UserVo_none(1) Let_def)
      ultimately show thesis using that(1) finishing_say by blast
    next
      case (2 db' pw nick)
      note vo = UserVo_row [OF refl a(1) 2(2-5)]
      show thesis
      proof (cases "pw = b")
        case True
        then have "step (UserEnter_task env k m) s = Inr (s\<lparr>database := db'\<rparr>, UserEnter_claim env k a
            (UserVo_copy (setNickName nick (setPassword pw (setUserId a UserVo_new)))))"
          using a(2) 2(1) vo by (simp add: UserEnter_task_def t ts Let_def)
        with that(2) ts vo(3) 2(4,5) show thesis unfolding NAME_SIZE_def by blast
      next
        case False
        have "\<not> good_login env m"
        proof
          assume "good_login env m"
          then obtain nick' where "account_answer env (database s) a b nick'"
            using good_login_answer ts by metis
          from selectUser_answer [OF this a(1)] 2(1) vo(2) False show False by auto
        qed
        moreover have "step (UserEnter_task env k m) s = Inr (s\<lparr>database := db'\<rparr>,
            say SEND_ME (m_badPassword @ loginBeforeMessage) '''' k STATUS_LOGOUT Done)"
          using False a(2) 2(1) vo by (simp add: UserEnter_task_def t ts Let_def)
        ultimately show thesis using that(1) finishing_say by blast
      qed
    qed
  qed
qed

lemma step_ask:
  assumes inv: "login_inv env s0 reqs s ps" and i: "i < length ps" and km: "reqs ! i = (k, m)"
    and p: "ps ! i = Asking"
  shows "ok (step (UserEnter_task env k m) s)
    (\<lambda>(s', t'). \<exists>p. login_at env k m t' p \<and> login_inv env s0 reqs s' (ps[i := p]))"
proof -
  note th = login_inv_thread [OF inv i, unfolded km fst_conv snd_conv]
  have V: "to_be (map fst reqs) ps s k = None" using th(5) p by (simp add: login_thread_def)
  show ?thesis
  proof (cases rule: UserEnter_ask [OF login_invD(1) [OF inv] th(2), of k s])
    case (1 db t)
    have "login_at env k m t Rejected" using 1(2,3) by (intro login_at.finish) simp_all
    moreover have "login_inv env s0 reqs (s\<lparr>database := db\<rparr>) (ps[i := Rejected])"
      by (rule login_inv_quiet [OF inv i]) (use p V km in \<open>simp_all add: login_thread_def\<close>)
    ultimately show ?thesis using 1(1) by auto
  next
    case (2 db a b vo nick)
    have "login_at env k m (UserEnter_claim env k a vo) Asking" using 2(2-5) by (rule login_at.claim)
    moreover have "login_inv env s0 reqs (s\<lparr>database := db\<rparr>) (ps[i := Asking])"
      by (rule login_inv_quiet [OF inv i]) (use p th(5) km in simp_all)
    ultimately show ?thesis using 2(1) by auto
  qed
qed

lemma step_claim:
  assumes inv: "login_inv env s0 reqs s ps" and i: "i < length ps" and km: "reqs ! i = (k, m)"
    and p: "ps ! i = Asking" and ab: "pieces (CHR 0x5C) m = [a, b]"
    and nick: "getNickName vo = Inr nick" "nul_free nick" "length nick < NAME_SIZE"
  shows "ok (step (UserEnter_claim env k a vo) s)
    (\<lambda>(s', t'). \<exists>p. login_at env k m t' p \<and> login_inv env s0 reqs s' (ps[i := p]))"
proof -
  let ?ks = "map fst reqs" and ?u = "session_for a nick"
  let ?V = "to_be ?ks ps s" and ?s' = "s\<lparr>idSet := insert a (idSet s)\<rparr>"
  note d = login_invD [OF inv] and th = login_inv_thread [OF inv i, unfolded km fst_conv snd_conv]
  note u = session_for_ok [OF request_pieces(1,3) [OF th(2) ab] nick(2,3)]
  have Vk: "?V k = None" using th(5) p by (simp add: login_thread_def)
  have k: "?ks ! i = k" using th(1) km by simp
  have V': "to_be ?ks (ps[i := Holding ?u]) ?s' = ?V(k \<mapsto> ?u)"
    using held_update [OF d(2,3) th(1), of "Holding ?u"] by (simp add: to_be_def k)
  have "login_inv env s0 reqs s (ps[i := Refused])" if "a \<in> idSet s"
    by (rule login_inv_quiet [OF inv i]) (use p Vk km that ab in \<open>simp_all add: login_thread_def\<close>)
  moreover have "login_at env k m (say SEND_ME msg '''' k st Done) Refused" for msg st
    by (intro login_at.finish) (simp_all add: finishing_say)
  moreover have "login_inv env s0 reqs ?s' (ps[i := Holding ?u])" if "a \<notin> idSet s"
  proof (rule login_inv_step [OF inv i _ _ _ _ _ _ V' [symmetric]])
    show "users_ok (?V(k \<mapsto> ?u)) (map_of (liveSocket s))"
      using d(6) u(1) th(4) by (auto simp: users_ok_def)
    show "ids_ok (?V(k \<mapsto> ?u)) (idSet ?s')" using ids_login [OF d(7) Vk, of ?u] u(2) that by simp
    show "rooms_ok (?V(k \<mapsto> ?u)) (map_of (roomMap ?s'))"
      using d(8) Vk u(5) by (simp add: rooms_same)
    show "map_of (userMap ?s') \<subseteq>\<^sub>m ?V(k \<mapsto> ?u)" using d(9) Vk by (auto simp: map_le_def dom_def)
  qed (use inv ab d km in \<open>auto simp: maps_ok_def login_inv_def Let_def login_thread_def\<close>)
  moreover have "login_at env k m (InitUser_task env a k nick) (Holding ?u)"
    using ab nick(2,3) by (rule login_at.store)
  ultimately show ?thesis using nick(1) by (auto simp: UserEnter_claim_def)
qed

lemma step_store:
  assumes inv: "login_inv env s0 reqs s ps" and i: "i < length ps" and km: "reqs ! i = (k, m)"
    and p: "ps ! i = Holding (session_for a nick)" and ab: "pieces (CHR 0x5C) m = [a, b]"
    and nick: "nul_free nick" "length nick < NAME_SIZE"
  shows "ok (step (InitUser_task env a k nick) s)
    (\<lambda>(s', t'). \<exists>p. login_at env k m t' p \<and> login_inv env s0 reqs s' (ps[i := p]))"
proof -
  let ?ks = "map fst reqs" and ?u = "session_for a nick"
  let ?s' = "s\<lparr>userMap := um_put (ord env) k ?u (userMap s)\<rparr>"
  note d = login_invD [OF inv] and th = login_inv_thread [OF inv i, unfolded km fst_conv snd_conv]
  have k: "?ks ! i = k" "k \<in> set ?ks" using th(1) km nth_mem [OF th(1)] by simp_all
  have h: "held ?ks ps k = Some ?u" using held_nth [OF d(2,3) th(1)] p k(1) by simp
  have wf: "um_wf (userMap s)" using d(4) by (simp add: maps_ok_def)
  have "held ?ks (ps[i := Inside]) = (held ?ks ps)(k := None)"
    using held_update [OF d(2,3) th(1), of Inside] k(1) by simp
  then have V': "to_be ?ks (ps[i := Inside]) ?s' = to_be ?ks ps s"
    using h by (auto simp: to_be_def map_of_um_put [OF wf] map_add_def fun_eq_iff split: option.split)
  have Vk: "to_be ?ks ps s k = Some ?u" using h by (simp add: to_be_def)
  have "map_of (userMap s0) k = None" using th(3) .
  then have le: "map_of (userMap s0) \<subseteq>\<^sub>m map_of (userMap ?s')"
    using inv by (auto simp: login_inv_def map_le_def map_of_um_put [OF wf])
  have dom: "dom (map_of (userMap ?s')) \<subseteq> dom (map_of (userMap s0)) \<union> set ?ks"
    using inv k(2) by (auto simp: login_inv_def map_of_um_put [OF wf])
  have "map_of (userMap ?s') \<subseteq>\<^sub>m to_be ?ks ps s"
    using d(9) Vk by (auto simp: map_le_def map_of_um_put [OF wf])
  then have "login_inv env s0 reqs ?s' (ps[i := Inside])"
    by (intro login_inv_step [OF inv i _ _ _ _ le dom V' [symmetric]])
      (use d Vk ab wf km in \<open>auto simp: maps_ok_def um_wf_put login_thread_def\<close>)
  moreover have "login_at env k m (InitUser_update env ?u k nick) Inside"
    using ab nick by (rule login_at.update)
  ultimately show ?thesis by (auto simp: InitUser_task_session)
qed

lemma step_inside:
  assumes inv: "login_inv env s0 reqs s ps" and i: "i < length ps" and p: "ps ! i = Inside"
    and db: "ok (step t s) (\<lambda>(s', t'). same_sessions s s' \<and> login_at env k m t' Inside)"
  shows "ok (step t s) (\<lambda>(s', t'). \<exists>p. login_at env k m t' p \<and> login_inv env s0 reqs s' (ps[i := p]))"
proof -
  have "login_inv env s0 reqs s' (ps[i := Inside])" if "same_sessions s s'" for s'
    by (rule login_inv_quiet [OF inv i that]) (use p login_inv_thread(5) [OF inv i] in simp_all)
  with db show ?thesis by (auto elim!: ok_mono)
qed

text \<open>What \<open>InitUser\<close> logs.\<close>

definition session_log :: "string \<Rightarrow> string \<Rightarrow> LogVo" where
  "session_log a nick =
     setNickName (upto_nul (strncpy NAME_SIZE nick)) (setUserId (upto_nul (strncpy NAME_SIZE a)) LogVo_new)"

lemma session_log:
  assumes "nul_free a" "length a < NAME_SIZE" "nul_free nick" "length nick < NAME_SIZE"
  shows "NUL \<in> set (userId_v (session_log a nick))" "NUL \<in> set (nickName_v (session_log a nick))"
  using assms
  by (simp_all add: session_log_def vo_defs vo_simps upto_nul_strncpy NUL_in_strncpy NAME_SIZE_def)

lemma session_src:
  "strncpy_src 10 (strncpy NAME_SIZE a) = Inr (upto_nul (strncpy NAME_SIZE a))"
  "strncpy_src 20 (strncpy NAME_SIZE nick) = Inr (upto_nul (strncpy NAME_SIZE nick))"
  by (simp_all add: strncpy_src_def NAME_SIZE_def)

lemma InitUser_update_step:
  assumes a: "nul_free a" "length a < NAME_SIZE" and n: "nul_free nick" "length nick < NAME_SIZE"
  shows "ok (step (InitUser_update env (session_for a nick) k nick) s)
    (\<lambda>(s', t'). same_sessions s s' \<and> login_at env k m t' Inside)"
proof -
  note vo = session_log [OF a n]
  obtain db where "UpdateUser env (session_log a nick) (database s) = Inr db"
    using logs_ok(1) [of env _ "database s"] vo unfolding ok_iff by blast
  moreover have "login_at env k m (InitUser_log env (session_log a nick) k nick) Inside"
    using vo by (rule login_at.log)
  ultimately show ?thesis
    by (simp add: InitUser_update_def session_for_def session_src session_log_def Let_def)
qed

lemma InitUser_log_step:
  assumes "NUL \<in> set (userId_v vo)" and "NUL \<in> set (nickName_v vo)"
  shows "ok (step (InitUser_log env vo k nick) s)
    (\<lambda>(s', t'). same_sessions s s' \<and> login_at env k m t' Inside)"
proof -
  obtain db where "InsertLogin env vo (database s) = Inr db"
    using logs_ok(2) [of env vo "database s"] assms unfolding ok_iff by blast
  moreover have "login_at env k m (say SEND_ME msg '''' k st Done) Inside" for msg st
    by (intro login_at.finish) (simp_all add: finishing_say)
  ultimately show ?thesis by (simp add: InitUser_log_def)
qed

lemma login_step:
  assumes inv: "login_inv env s0 reqs s ps" and i: "i < length ps" and km: "reqs ! i = (k, m)"
    and at: "login_at env k m t (ps ! i)"
  shows "ok (step t s) (\<lambda>(s', t'). \<exists>p. login_at env k m t' p \<and> login_inv env s0 reqs s' (ps[i := p]))"
proof -
  have req: "request_ok STATUS_LOGOUT USER_ENTER m" using login_inv_thread(2) [OF inv i] km by simp
  show ?thesis
    using at
  proof (cases rule: login_at.cases)
    case ask
    then show ?thesis using step_ask [OF inv i km] by simp
  next
    case (claim a b vo nick)
    then show ?thesis using step_claim [OF inv i km] by simp
  next
    case (store a b nick)
    then show ?thesis using step_store [OF inv i km] by simp
  next
    case (update a b nick)
    with step_inside [OF inv i _ InitUser_update_step [OF request_pieces(1,3) [OF req update(3)] update(4,5)]]
    show ?thesis by simp
  next
    case (log vo nick)
    with step_inside [OF inv i _ InitUser_log_step [OF log(3,4)]] show ?thesis by simp
  next
    case finish
    then show ?thesis using step_finishing [OF inv i] by simp
  qed
qed

interpretation lgn: protocol "login_inv env s0 reqs" "\<lambda>i. login_at env (fst (reqs ! i)) (snd (reqs ! i))"
  by unfold_locales (rule login_step, simp_all)

section \<open>Any schedule\<close>

definition logins :: "'db cfg \<Rightarrow> (SOCKET \<times> string) list \<Rightarrow> 'db server task list" where
  "logins env reqs = map (\<lambda>(k, m). UserEnter_task env k m) reqs"

lemma to_be_none: "length ps = length ks \<Longrightarrow> \<forall>p\<in>set ps. holding p = None \<Longrightarrow> to_be ks ps s = map_of (userMap s)"
proof -
  assume "length ps = length ks" and h: "\<forall>p\<in>set ps. holding p = None"
  have "held ks ps k = None" for k
    using h by (cases "map_of (zip ks ps) k") (auto simp: held_def dest!: map_of_SomeD set_zip_rightD)
  then show ?thesis by (simp add: to_be_def map_add_def)
qed

lemma login_start:
  assumes "sql_ok env" and s: "world_ok s" and "distinct (map fst reqs)"
    and reqs: "\<forall>(k, m)\<in>set reqs. map_of (userMap s) k = None \<and> map_of (liveSocket s) k \<noteq> None \<and>
      request_ok STATUS_LOGOUT USER_ENTER m"
  shows "login_inv env s reqs s (replicate (length reqs) Asking)"
proof -
  let ?ps = "replicate (length reqs) Asking"
  have V: "to_be (map fst reqs) ?ps s = map_of (userMap s)" by (rule to_be_none) simp_all
  have "map_of (userMap s) (fst (reqs ! i)) = None" "map_of (liveSocket s) (fst (reqs ! i)) \<noteq> None"
    if "i < length reqs" for i
    using bspec [OF reqs nth_mem [OF that]] by (auto split: prod.splits)
  moreover have "login_setup env s reqs" using assms by (auto simp: login_setup_def)
  ultimately show ?thesis
    using world_okD [OF s] by (simp add: login_inv_def V Let_def login_thread_def maps_ok_def)
qed

lemma login_end:
  assumes "login_inv env s0 reqs s ps" and "\<forall>p\<in>set ps. holding p = None"
  shows "world_ok s"
proof -
  have "to_be (map fst reqs) ps s = map_of (userMap s)"
    using login_invD(3) [OF assms(1)] assms(2) by (rule to_be_none)
  then show ?thesis using assms(1) by (simp add: login_inv_def world_ok_def sessions_ok_def Let_def)
qed

lemma logins_run:
  assumes "sql_ok env" and "world_ok s" and "distinct (map fst reqs)"
    and "\<forall>(k, m)\<in>set reqs. map_of (userMap s) k = None \<and> map_of (liveSocket s) k \<noteq> None \<and>
      request_ok STATUS_LOGOUT USER_ENTER m"
  shows "ok (run_sched sched (s, logins env reqs)) (\<lambda>(s', ts'). length ts' = length reqs \<and>
    (\<exists>ps. login_inv env s reqs s' ps \<and> length ps = length reqs \<and>
       (\<forall>i<length reqs. login_at env (fst (reqs ! i)) (snd (reqs ! i)) (ts' ! i) (ps ! i))))"
proof -
  have "\<forall>i<length (logins env reqs). login_at env (fst (reqs ! i)) (snd (reqs ! i))
      (logins env reqs ! i) (replicate (length reqs) Asking ! i)"
    by (auto simp: logins_def split: prod.split intro: login_at.ask)
  from lgn.sched_ok [OF login_start [OF assms] _ this] show ?thesis by (simp add: logins_def)
qed

section \<open>What any number of logins end in\<close>

lemma session_for_names:
  assumes "nul_free a" "length a < NAME_SIZE"
  shows "uid (session_for a nick) = a" "room_of (session_for a nick) = None"
  using assms by (simp_all add: session_for_def upto_nul_strncpy room_of_def)

lemma login_others:
  assumes "login_inv env s0 reqs s ps" and "k \<notin> set (map fst reqs)"
  shows "map_of (userMap s) k = map_of (userMap s0) k"
proof -
  have "map_of (userMap s0) \<subseteq>\<^sub>m map_of (userMap s)"
    "dom (map_of (userMap s)) \<subseteq> dom (map_of (userMap s0)) \<union> set (map fst reqs)"
    using assms(1) by (simp_all add: login_inv_def)
  with assms(2) show ?thesis
    by (cases "map_of (userMap s0) k"; cases "map_of (userMap s) k")
       (auto simp: map_le_def dom_def subset_iff)
qed

text \<open>
  Any number of login requests on connections that are not logged in, run as threads under any
  schedule of the pieces between their locks. No piece fails; at no time do two sessions have the same
  id; the sessions of all other connections are as they were; and once the threads are done the whole
  state satisfies the invariant again.
\<close>

theorem logins_exclusive:
  assumes "sql_ok env" and "world_ok s" and "distinct (map fst reqs)"
    and "\<forall>(k, m)\<in>set reqs. map_of (userMap s) k = None \<and> map_of (liveSocket s) k \<noteq> None \<and>
      request_ok STATUS_LOGOUT USER_ENTER m"
  shows "ok (run_sched sched (s, logins env reqs)) (\<lambda>(s', ts').
    (\<forall>k k' x x'. chat_of s' k = Some x \<and> chat_of s' k' = Some x' \<and> fst x = fst x' \<longrightarrow> k = k') \<and>
    (\<forall>k. k \<notin> set (map fst reqs) \<longrightarrow> chat_of s' k = chat_of s k) \<and>
    (set ts' \<subseteq> {Done} \<longrightarrow> world_ok s'))"
proof -
  obtain s' ts' ps where run: "run_sched sched (s, logins env reqs) = Inr (s', ts')"
    and len: "length ts' = length reqs" "length ps = length reqs" and inv: "login_inv env s reqs s' ps"
    and at: "\<forall>i<length reqs. login_at env (fst (reqs ! i)) (snd (reqs ! i)) (ts' ! i) (ps ! i)"
    using logins_run [OF assms, of sched] by (auto simp: ok_iff)
  note d = login_invD [OF inv]
  have "k = k'" if "chat_of s' k = Some x" "chat_of s' k' = Some x'" "fst x = fst x'" for k k' x x'
  proof -
    from that obtain u u'
      where "map_of (userMap s') k = Some u" "map_of (userMap s') k' = Some u'" "uid u = uid u'"
      by (auto simp: chat_of_def)
    with d(7,9) show ?thesis by (force simp: ids_ok_def map_le_def dom_def)
  qed
  moreover have "chat_of s' k = chat_of s k" if "k \<notin> fst ` set reqs" for k
  proof -
    from that have "map_of (userMap s') k = map_of (userMap s) k" by (intro login_others [OF inv]) simp
    then show ?thesis by (simp add: chat_of_def)
  qed
  moreover have "world_ok s'" if "set ts' \<subseteq> {Done}"
  proof (rule login_end [OF inv], rule ballI)
    fix p assume "p \<in> set ps"
    then obtain i where i: "i < length reqs" "p = ps ! i" using len(2) by (auto simp: in_set_conv_nth)
    then have "ts' ! i = Done" using that len(1) by (auto simp: subset_iff)
    with at i have "login_at env (fst (reqs ! i)) (snd (reqs ! i)) Done p" by metis
    then show "holding p = None" by (auto dest!: Done_position)
  qed
  ultimately show ?thesis using run by auto
qed

definition two_logins :: "(SOCKET \<times> string) list" where
  "two_logins = [(7, carl_enters), (8, carl_enters)]"

lemma two_logins_ok:
  "distinct (map fst two_logins)" "fst ` set two_logins = {7, 8}"
  "\<forall>(k, m)\<in>set two_logins. map_of (userMap demo_world4) k = None \<and>
     map_of (liveSocket demo_world4) k \<noteq> None \<and> request_ok STATUS_LOGOUT USER_ENTER m"
proof -
  have "length carl_enters = 7" by (simp add: carl_enters_def)
  then show "\<forall>(k, m)\<in>set two_logins. map_of (userMap demo_world4) k = None \<and>
      map_of (liveSocket demo_world4) k \<noteq> None \<and> request_ok STATUS_LOGOUT USER_ENTER m"
    using demo_world4_simps(3,4) carl_enters_ok(1,3)
    by (simp add: two_logins_def demo_world4_simps(1) request_ok_def Let_def NAME_SIZE_def)
qed (simp_all add: two_logins_def)

theorem logins_exclusive_witness:
  "ok (run_sched [0, 1, 1, 0, 1, 0, 0, 1] (demo_world4, logins demo_cfg two_logins)) (\<lambda>(s', ts').
     (\<forall>k k' x x'. chat_of s' k = Some x \<and> chat_of s' k' = Some x' \<and> fst x = fst x' \<longrightarrow> k = k') \<and>
     chat_of s' 6 = Some (''bob'', ''Bob'', Some ''den''))"
proof -
  have "chat_of demo_world4 6 = Some (''bob'', ''Bob'', Some ''den'')"
    using fun_cong [OF demo_chat, of 6] by (simp add: chat_of_def demo_world4_simps)
  then show ?thesis
    using logins_exclusive [OF demo_sql_ok demo_world4_simps(5) two_logins_ok(1,3), of "[0, 1, 1, 0, 1, 0, 0, 1]"]
    by (auto simp: two_logins_ok(2) elim!: ok_mono)
qed

text \<open>
  Exactly one of the sockets \<open>ks\<close> has got a session under the id \<open>a\<close>, when the id was new and everybody
  who has none finds it taken.
\<close>

lemma one_new_session:
  assumes U0: "ids_ok U0 ids0" "a \<notin> ids0" and U: "ids_ok U ids" and ks: "ks \<noteq> []"
    and old: "\<And>k. k \<notin> set ks \<Longrightarrow> U k = U0 k" "\<And>k. k \<in> set ks \<Longrightarrow> U0 k = None"
    and a: "\<And>n. uid (session_for a n) = a"
    and th: "\<And>k. k \<in> set ks \<Longrightarrow> (\<exists>n. U k = Some (session_for a n)) \<or> U k = None \<and> a \<in> ids"
  shows "\<exists>k\<in>set ks. \<exists>n. U = U0(k \<mapsto> session_for a n)"
proof -
  have "\<exists>k\<in>set ks. \<exists>n. U k = Some (session_for a n)"
  proof (rule ccontr)
    assume "\<not> ?thesis"
    with th have out: "U k = None \<and> a \<in> ids" if "k \<in> set ks" for k using that by blast
    then have "a \<in> uid ` ran U" using ks hd_in_set U by (auto simp: ids_ok_def)
    then obtain k u where k: "U k = Some u" "uid u = a" by (auto simp: ran_def)
    with out have "k \<notin> set ks" by fastforce
    with old(1) k have "a \<in> uid ` ran U0" by (force simp: ran_def)
    with U0 show False by (simp add: ids_ok_def)
  qed
  then obtain k n where k: "k \<in> set ks" "U k = Some (session_for a n)" by blast
  have "U k' = U0 k'" if "k' \<noteq> k" for k'
  proof (cases "k' \<in> set ks")
    case True
    have "U k' \<noteq> Some (session_for a n')" for n'
      using U k(2) a that unfolding ids_ok_def by metis
    with th [OF True] old(2) [OF True] show ?thesis by auto
  qed (rule old(1))
  then have "U = U0(k \<mapsto> session_for a n)" using k(2) by (auto simp: fun_eq_iff)
  with k(1) show ?thesis by blast
qed

text \<open>
  C10: Several connections log in at the same time with the same id and password, which the database
  knows and nobody has claimed. Under any schedule that gives each thread as many turns as it has
  pieces, all threads end without an error, the invariant holds, and exactly one of the connections
  has got the session, the others none; nothing else has changed.
\<close>

theorem one_login_wins:
  assumes "sql_ok env" and s: "world_ok s" and ks: "distinct ks" "ks \<noteq> []"
      "\<forall>k\<in>set ks. map_of (userMap s) k = None \<and> map_of (liveSocket s) k \<noteq> None"
    and m: "request_ok STATUS_LOGOUT USER_ENTER m" "pieces (CHR 0x5C) m = [a, b]" "a \<notin> idSet s"
      "\<forall>db. account_answer env db a b nick"
    and turns: "\<forall>i<length ks. 6 \<le> count_list sched i"
  shows "ok (run_sched sched (s, logins env (map (\<lambda>k. (k, m)) ks))) (\<lambda>(s', ts').
    set ts' \<subseteq> {Done} \<and> world_ok s' \<and>
    (\<exists>k\<in>set ks. \<exists>n. chat_of s' = (chat_of s)(k \<mapsto> (a, n, None))))"
proof -
  let ?reqs = "map (\<lambda>k. (k, m)) ks"
  have fst_reqs: "map fst ?reqs = ks" by (induction ks) simp_all
  have "\<forall>(k, m)\<in>set ?reqs. map_of (userMap s) k = None \<and> map_of (liveSocket s) k \<noteq> None \<and>
      request_ok STATUS_LOGOUT USER_ENTER m"
    using ks(3) m(1) by auto
  from logins_run [OF assms(1) s _ this, unfolded fst_reqs, OF ks(1), of sched]
  obtain s' ts' ps where run: "run_sched sched (s, logins env ?reqs) = Inr (s', ts')"
    and len: "length ts' = length ks" "length ps = length ks" and inv: "login_inv env s ?reqs s' ps"
    and at: "\<forall>i<length ks. login_at env (ks ! i) m (ts' ! i) (ps ! i)"
    by (auto simp: ok_iff)
  have Done: "ts' ! i = Done" if i: "i < length ks" for i
  proof (rule sched_completes [OF run _ _ turns [rule_format, OF i]])
    show "i < length (logins env ?reqs)" using i by (simp add: logins_def)
    have "logins env ?reqs ! i = UserEnter_task env (ks ! i) m" using i by (simp add: logins_def)
    then show "pieces_left 6 (logins env ?reqs ! i)" using tasks_left(2) by (simp add: eval_nat_numeral)
  qed
  have good: "good_login env m" using m(2,4) by (auto simp: good_login_def)
  have pos: "ps ! i = Inside \<or> ps ! i = Refused" if "i < length ks" for i
    using at [rule_format, OF that] good by (auto simp: Done [OF that] dest!: Done_position)
  have none: "\<forall>p\<in>set ps. holding p = None" using pos len(2) by (fastforce simp: in_set_conv_nth)
  have w: "world_ok s'" using login_end [OF inv none] .
  have V: "to_be ks ps s' = map_of (userMap s')" using to_be_none [OF len(2) none] .
  note ab = request_pieces [OF m(1,2)]
  have "(\<exists>n. map_of (userMap s') k = Some (session_for a n)) \<or> map_of (userMap s') k = None \<and> a \<in> idSet s'"
    if k: "k \<in> set ks" for k
  proof -
    from k obtain i where i: "i < length ks" "k = ks ! i" by (auto simp: in_set_conv_nth)
    then show ?thesis
      using login_inv_thread(5) [OF inv, unfolded fst_reqs V, of i] pos [OF i(1)] len(2) m(2)
      by (auto simp: login_thread_def)
  qed
  moreover have "map_of (userMap s') k = map_of (userMap s) k" if "k \<notin> set ks" for k
    using login_others [OF inv] that unfolding fst_reqs .
  ultimately obtain k n where k: "k \<in> set ks" "map_of (userMap s') = (map_of (userMap s))(k \<mapsto> session_for a n)"
    using one_new_session [OF world_okD(5) [OF s] m(3) world_okD(5) [OF w] ks(2) _ _ session_for_names(1) [OF ab(1,3)]]
      ks(3) by blast
  from chat_of_upd [OF k(2)] have "chat_of s' = (chat_of s)(k \<mapsto> (a, uname (session_for a n), None))"
    using session_for_names [OF ab(1,3)] by simp
  moreover have "set ts' \<subseteq> {Done}" using Done len(1) by (auto simp: in_set_conv_nth)
  ultimately show ?thesis using run w k(1) by auto
qed

lemma demo_account: "\<forall>db. account_answer demo_cfg db ''carl'' ''pw'' ''Bob''"
proof -
  have "column 10 (demo_row 1) = ''pw''" "column 20 (demo_row 2) = ''Bob''"
    by (simp_all add: column_def upto_nul_def demo_row_def)
  then show ?thesis by (auto simp: account_answer_def SQLExecute_def demo_exec_def)
qed

theorem one_login_wins_witness:
  "ok (run_sched (concat (replicate 6 [1, 0])) (demo_world4, logins demo_cfg two_logins)) (\<lambda>(s', ts').
     set ts' \<subseteq> {Done} \<and> world_ok s' \<and>
     (\<exists>k\<in>{7, 8}. \<exists>n. chat_of s' = (chat_of demo_world4)(k \<mapsto> (''carl'', n, None))))"
proof -
  have ks: "\<forall>k\<in>set [7, 8]. map_of (userMap demo_world4) k = None \<and> map_of (liveSocket demo_world4) k \<noteq> None"
    and m: "request_ok STATUS_LOGOUT USER_ENTER carl_enters"
    using two_logins_ok(3) by (simp_all add: two_logins_def)
  have turns: "\<forall>i<length [7 :: SOCKET, 8]. 6 \<le> count_list (concat (replicate 6 [1 :: nat, 0])) i"
    by (auto simp: eval_nat_numeral less_Suc_eq)
  show ?thesis
    using one_login_wins [OF demo_sql_ok demo_world4_simps(5) _ _ ks m carl_enters_ok(3) _ demo_account turns]
    by (simp add: two_logins_def demo_world4_simps)
qed

end
