(* ===== verification/Races.thy ===== *)
theory Races
  imports Logins Rooms
begin

text \<open>
  The handlers as threads: without interruption their pieces are the handlers of \<open>Handlers\<close>; with
  another thread in between, three of them do what no handler does alone. A client that disconnects
  while its login waits for the database leaves a session behind that nobody can close; a room can
  vanish between the look-up and the entry; one account can be made twice.
\<close>

section \<open>The pieces are the handlers\<close>



section \<open>A session without a connection\<close>

lemma ClientExit_no_session:
  "map_of (userMap s) k = None \<Longrightarrow>
   run (ClientExit_task env True k) s = Inr (s\<lparr>
     net_of := (net_of s)\<lparr>wire := wire (net_of s) @ [CloseSocket k]\<rparr>,
     liveSocket := am_erase k (liveSocket s)\<rparr>)"
  by (simp add: ClientExit_task_def ClientExit_live_def ClientExit_session_def)

text \<open>What \<open>UserEnter\<close> does for the right password, up to the claim of the id and after it.\<close>

lemma UserEnter_task_granted:
  assumes m: "tokens 2 m = Inr [a, b]" "nul_free a" "a \<noteq> ''''"
    and ans: "account_answer env (database s) a b nick"
  obtains db vo where "step (UserEnter_task env k m) s = Inr (s\<lparr>database := db\<rparr>, UserEnter_claim env k a vo)"
    "getNickName vo = Inr nick"
proof -
  obtain vo db where vo: "selectUser env (setUserId a UserVo_new) (database s) = Inr (vo, db)"
      "getUserId (UserVo_copy vo) = Inr (take 10 a)" "getPassword (UserVo_copy vo) = Inr b"
      "getNickName (UserVo_copy vo) = Inr nick"
    by (rule selectUser_answer [OF ans m(2)])
  then have "step (UserEnter_task env k m) s = Inr (s\<lparr>database := db\<rparr>, UserEnter_claim env k a (UserVo_copy vo))"
    using m by (simp add: UserEnter_task_def Let_def)
  with vo(4) that show thesis by blast
qed

lemma InitUser_session:
  assumes wf: "um_wf (userMap s)" and a: "nul_free a" "length a < NAME_SIZE"
    and n: "nul_free nick" "length nick < NAME_SIZE"
  shows "ok (run (InitUser_task env a k nick) s) (\<lambda>s'.
    map_of (userMap s') = (map_of (userMap s))(k \<mapsto> session_for a nick) \<and>
    idSet s' = idSet s \<and> liveSocket s' = liveSocket s)"
proof -
  obtain db db' where "UpdateUser env (session_log a nick) (database s) = Inr db"
      "InsertLogin env (session_log a nick) db = Inr db'"
    using logs_ok [of env "session_log a nick"] session_log [OF a n] unfolding ok_iff by metis
  then show ?thesis
    by (simp add: run_InitUser InitUser_def session_for_def session_src session_log_def Let_def
        map_of_um_put [OF wf])
qed

lemma login_left:
  "pieces_left (Suc (Suc (Suc (Suc 0)))) (InitUser_task env a k nick)"
  by (auto simp: cut_defs Let_def intro!: pieces_left_intros)

text \<open>
  C15: A client asks for a login with the right password and disconnects. When the worker that handles the
  disconnection runs between the claim of the id and the session that follows from it, the client ends up
  with a session although its socket is closed and no longer among the connections; the id stays taken,
  so that the next login with it is refused as a double login, on whatever connection.
\<close>

theorem ghost_session:
  assumes s: "world_ok s" and k: "map_of (userMap s) k = None"
    and m: "request_ok STATUS_LOGOUT USER_ENTER m" "pieces (CHR 0x5C) m = [a, b]" "a \<notin> idSet s"
      "\<forall>db. account_answer env db a b nick"
  shows "ok (run_sched ([0, 0] @ replicate 9 1 @ replicate 4 0)
      (s, [UserEnter_task env k m, ClientExit_task env True k])) (\<lambda>(s', ts').
    ts' = [Done, Done] \<and> chat_of s' k = Some (a, nick, None) \<and> map_of (liveSocket s') k = None \<and>
    \<not> world_ok s' \<and>
    (\<forall>k2. ok (UserEnter env k2 m s') (\<lambda>s''. chat_of s'' = chat_of s' \<and>
       sd_msg (last (sendQueue s'')) = m_doubleLogin @ loginBeforeMessage)))"
proof -
  note ab = request_pieces [OF m(1,2)]
  have t: "tokens 2 m = Inr [a, b]" using m(1,2) by (simp add: request_ok_def tokens_pieces BUF_SIZE_def Let_def)
  note n = account_answer_props [OF m(4) [rule_format]]
  obtain db vo where ask: "step (UserEnter_task env k m) s = Inr (s\<lparr>database := db\<rparr>, UserEnter_claim env k a vo)"
      "getNickName vo = Inr nick"
    using UserEnter_task_granted [OF t ab(1,2) m(4) [rule_format]] by blast
  let ?s1 = "s\<lparr>database := db, idSet := insert a (idSet s)\<rparr>"
  let ?s2 = "?s1\<lparr>net_of := (net_of s)\<lparr>wire := wire (net_of s) @ [CloseSocket k]\<rparr>,
    liveSocket := am_erase k (liveSocket s)\<rparr>"
  have claim: "step (UserEnter_claim env k a vo) (s\<lparr>database := db\<rparr>) = Inr (?s1, InitUser_task env a k nick)"
    using m(3) ask(2) by (simp add: UserEnter_claim_def)
  have exit: "run (ClientExit_task env True k) ?s1 = Inr ?s2"
    using ClientExit_no_session [of ?s1 k env] k by simp
  obtain s' where store: "run (InitUser_task env a k nick) ?s2 = Inr s'"
      "map_of (userMap s') = (map_of (userMap s))(k \<mapsto> session_for a nick)"
      "idSet s' = insert a (idSet s)" "liveSocket s' = am_erase k (liveSocket s)"
    using InitUser_session [of ?s2 a nick env k] world_okD(1) [OF s] ab n by (auto simp: ok_iff)
  have left: "pieces_left 9 (ClientExit_task env True k)" "pieces_left 4 (InitUser_task env a k nick)"
    using tasks_left(7) [of env True k] login_left by (simp_all add: eval_nat_numeral)
  have "run_sched ([0, 0] @ replicate 9 1 @ replicate 4 0)
      (s, [UserEnter_task env k m, ClientExit_task env True k]) = Inr (s', [Done, Done])"
    using sched_alone [OF left(1), of 1 "[InitUser_task env a k nick, ClientExit_task env True k]"]
      sched_alone [OF left(2), of 0 "[InitUser_task env a k nick, Done]" "[]"]
    by (simp add: ask(1) claim exit store(1))
  moreover have "chat_of s' k = Some (a, nick, None)"
    using store(2) session_for_ok(2,3,5) [OF ab(1,3) n] by (simp add: chat_of_def)
  moreover have gone: "map_of (liveSocket s') k = None"
    using store(4) world_okD(3) [OF s] by (simp add: map_of_am_erase sm_wf_def)
  moreover have "\<not> world_ok s'"
    using world_okD(4) [of s'] gone store(2) unfolding users_ok_def by (metis map_upd_Some_unfold)
  moreover have "ok (UserEnter env k2 m s') (\<lambda>s''. chat_of s'' = chat_of s' \<and>
       sd_msg (last (sendQueue s'')) = m_doubleLogin @ loginBeforeMessage)" for k2
  proof -
    obtain db vo where "step (UserEnter_task env k2 m) s' = Inr (s'\<lparr>database := db\<rparr>, UserEnter_claim env k2 a vo)"
      using UserEnter_task_granted [OF t ab(1,2) m(4) [rule_format]] by blast
    then show ?thesis
      using store(3) by (simp add: run_UserEnter [symmetric] run_step [of "UserEnter_task env k2 m"]
          UserEnter_claim_def sendQueue_me)
  qed
  ultimately show ?thesis by simp
qed

theorem ghost_session_witness:
  "ok (run_sched ([0, 0] @ replicate 9 1 @ replicate 4 0)
      (demo_world, [UserEnter_task demo_cfg 7 carl_enters, ClientExit_task demo_cfg True 7])) (\<lambda>(s', ts').
    ts' = [Done, Done] \<and> chat_of s' 7 = Some (''carl'', ''Bob'', None) \<and> map_of (liveSocket s') 7 = None)"
proof -
  have m: "request_ok STATUS_LOGOUT USER_ENTER carl_enters"
    using two_logins_ok(3) by (simp add: two_logins_def)
  from ghost_session [OF demo_world_ok _ m carl_enters_ok(3) _ demo_account, of 7] show ?thesis
    by (auto elim!: ok_mono)
qed

section \<open>A room that vanishes\<close>

text \<open>
  C16: A client enters a room by its name while the only member leaves with \<open>\out\<close>. When the leaver runs between
  the look-up of the room and the entry into its list, the second look-up finds nothing, and the code
  dereferences the end iterator: undefined behaviour. The client entering is by then marked as a member.
\<close>

theorem room_vanishes:
  assumes s: "world_ok s"
    and k1: "map_of (userMap s) k1 = Some u1" "status u1 = STATUS_WAITING"
    and k2: "map_of (userMap s) k2 = Some u2" "status u2 = STATUS_CHATTIG"
    and r: "map_of (roomMap s) (rname u2) = Some \<lparr>userList = [k2]\<rparr>"
  shows "run_sched ([0, 0] @ replicate 5 1 @ [0, 0]) (s, [RoomEnter_task k1 (rname u2), RoomOut_task env k2]) =
    Inl EndIterator"
proof -
  let ?rn = "rname u2"
  have kk: "k1 \<noteq> k2" using k1 k2 by auto
  obtain s' where out: "run (RoomOut_task env k2) s = Inr s'" "world_ok s'"
      "chat_of s' = (chat_of s)(k2 \<mapsto> (uid u2, uname u2, None))" "map_of (roomMap s') ?rn = None"
    using StatusChat_out [OF s k2 r, of env USER_GOOD] by (auto simp: ok_iff run_RoomOut [of _ _ _ USER_GOOD])
  have "chat_of s' k1 \<noteq> None" using out(3) kk k1 by (simp add: chat_of_def)
  then obtain v where v: "map_of (userMap s') k1 = Some v" by (auto simp: chat_of_def)
  have "pieces_left 5 (RoomOut_task env k2)" using tasks_left(6) by (simp add: eval_nat_numeral)
  from sched_alone [OF this, of 1 "[RoomEnter_join k1 ?rn (uname u1), RoomOut_task env k2]" "[0, 0]" s]
  show ?thesis
    using r out(1,4) v
    by (simp add: RoomEnter_task_def RoomEnter_find_def RoomEnter_join_def RoomEnter_push_def session_names_ok [OF s k1(1)] upd_user_def am_at_def)
qed

theorem room_vanishes_witness:
  "run_sched ([0, 0] @ replicate 5 1 @ [0, 0]) (demo_world, [RoomEnter_task 5 ''den'', RoomOut_task demo_cfg 6]) =
     Inl EndIterator"
  using room_vanishes [OF demo_world_ok, of 5 Ann 6 Bob demo_cfg] by simp

section \<open>One account made twice\<close>

text \<open>
  Two clients ask at the same time for a new account with the same id. The id is looked up, and the
  account inserted, under two separate holds of the lock: both find the id free, both inserts are executed,
  the second with the id of the first, and both clients are told that their account was made.
\<close>

theorem register_twice:
  assumes m: "nul_free m1" "length m1 < BUF_SIZE" "pieces (CHR 0x5C) m1 = [a, b1, c1]"
      "nul_free m2" "length m2 < BUF_SIZE" "pieces (CHR 0x5C) m2 = [a, b2, c2]"
      "length b1 < 10" "length c1 < NAME_SIZE" "length b2 < 10" "length c2 < NAME_SIZE"
    and db: "SQLExecute env (database s) q_selectUser [SqlText (take 10 a)] [10, 10, 20] = (db1, r1, f1)"
      "f1 0 = NO_DATA"
      "SQLExecute env db1 q_selectUser [SqlText (take 10 a)] [10, 10, 20] = (db2, r2, f2)"
      "f2 0 = NO_DATA"
  shows "ok (run_sched [0, 1, 0, 0, 1, 1] (s, [UserMake_task env k1 m1, UserMake_task env k2 m2])) (\<lambda>(s', ts').
    ts' = [Done, Done] \<and> same_sessions s s' \<and>
    database s' =
      fst (SQLExecute env
        (fst (SQLExecute env db2 q_InsertUser [SqlText (take 10 a), SqlText b1, SqlText c1] []))
        q_InsertUser [SqlText (take 10 a), SqlText b2, SqlText c2] []) \<and>
    map (\<lambda>d. (sd_mySocket d, sd_msg d)) (sendQueue s') =
      map (\<lambda>d. (sd_mySocket d, sd_msg d)) (sendQueue s) @
      [(Some k1, a @ m_made @ loginBeforeMessage), (Some k2, a @ m_made @ loginBeforeMessage)])"
proof -
  have t: "tokens 3 m1 = Inr [a, b1, c1]" "tokens 3 m2 = Inr [a, b2, c2]"
    using tokens_pieces [OF m(1,2)] m(3) tokens_pieces [OF m(4,5)] m(6) by simp_all
  have nf: "nul_free a" "nul_free b1" "nul_free c1" "nul_free b2" "nul_free c2"
    using pieces_nul_free [OF m(1), of _ "CHR 0x5C"] pieces_nul_free [OF m(4), of _ "CHR 0x5C"] m(3,6)
    by simp_all
  note sel = selectUser_none [OF db(1,2) nf(1)] selectUser_none [OF db(3,4) nf(1)]
  show ?thesis
    by (simp add: UserMake_task_def UserMake_store_def t sel say_def UserVo_none(1) Let_def
        InsertUser_none [OF nf(1-3) m(7,8)] InsertUser_none [OF nf(1,4,5) m(9,10)] InsertSendQueue_def
        same_sessions_def)
qed

theorem register_twice_witness:
  "ok (run_sched [0, 1, 0, 0, 1, 1]
      (demo_world, [UserMake_task demo_cfg 7 new_account, UserMake_task demo_cfg 8 new_account])) (\<lambda>(s', ts').
    map (\<lambda>d. (sd_mySocket d, sd_msg d)) (sendQueue s') =
      [(Some 7, ''new'' @ m_made @ loginBeforeMessage), (Some 8, ''new'' @ m_made @ loginBeforeMessage)])"
proof -
  let ?st = "\<lparr>query = q_selectUser, params = [SqlText (take 10 ''new'')], cols = [10, 10, 20]\<rparr>"
  have q: "SQLExecute demo_cfg db q_selectUser [SqlText (take 10 ''new'')] [10, 10, 20] =
      (db @ [?st], 1, \<lambda>i. NO_DATA)" for db
    by (simp add: SQLExecute_def demo_exec_def)
  have "nul_free new_account" "length new_account < BUF_SIZE"
    "pieces (CHR 0x5C) new_account = [''new'', ''pw'', ''Neu'']"
    by (simp_all add: new_account_def nul_free_def BUF_SIZE_def pieces_def)
  from register_twice [OF this this _ _ _ _ q [of "database demo_world"] _ q,
      where ?k1.0 = 7 and ?k2.0 = 8] show ?thesis
    by (auto simp: NAME_SIZE_def simp del: run_sched.simps elim!: ok_mono)
qed

end
