(* ===== verification/Interleave.thy ===== *)
theory Interleave
  imports Races
begin

text \<open>
  Different handlers at the same time, one for each of any number of connections: registering, logging in,
  logging out, opening, entering and leaving rooms, disconnecting. Between two pieces of a handler the
  session, the set of ids, the lists of the rooms and the connections contradict each other. The position
  of a thread says what each of them holds for its socket; the assertion is the invariant of \<open>Session\<close>
  over these views.

  Two things are excluded, for the reasons shown in \<open>Races\<close>: two threads for one connection, and entering a
  room that another of the threads leaves.
\<close>

section \<open>Views\<close>

text \<open>
  What the thread's socket has: its session in \<open>userMap\<close>; the session whose id is in \<open>idSet\<close>; the session
  whose room has it on its list; a room it will remove if it is empty; a room it is about to enter;
  whether the socket is closed.
\<close>

record position =
  mine :: "PER_HANDLE_DATA option"
  named :: "PER_HANDLE_DATA option"
  seated :: "PER_HANDLE_DATA option"
  doomed :: "string option"
  needed :: "string option"
  closing :: bool

definition settled :: "PER_HANDLE_DATA option \<Rightarrow> position" where
  "settled x = \<lparr>mine = x, named = x, seated = x, doomed = None, needed = None, closing = False\<rparr>"

lemma settled_simps [simp]:
  "mine (settled x) = x" "named (settled x) = x" "seated (settled x) = x" "doomed (settled x) = None"
  "needed (settled x) = None" "closing (settled x) = False"
  by (simp_all add: settled_def)

definition view :: "(position \<Rightarrow> PER_HANDLE_DATA option) \<Rightarrow> SOCKET list \<Rightarrow> position list \<Rightarrow>
    (SOCKET \<Rightarrow> PER_HANDLE_DATA option) \<Rightarrow> SOCKET \<Rightarrow> PER_HANDLE_DATA option" where
  "view sel ks ps U k = (case map_of (zip ks ps) k of None \<Rightarrow> U k | Some p \<Rightarrow> sel p)"

lemma view_nth:
  "distinct ks \<Longrightarrow> length ps = length ks \<Longrightarrow> i < length ks \<Longrightarrow> view sel ks ps U (ks ! i) = sel (ps ! i)"
  by (simp add: view_def map_of_zip_nth)

lemma view_other: "length ps = length ks \<Longrightarrow> k \<notin> set ks \<Longrightarrow> view sel ks ps U k = U k"
  by (simp add: view_def map_of_zip_is_None [THEN iffD2])

lemma view_update:
  assumes "distinct ks" and "length ps = length ks" and "i < length ks"
    and "\<And>k. k \<noteq> ks ! i \<Longrightarrow> U' k = U k"
  shows "view sel ks (ps[i := p]) U' = (view sel ks ps U)(ks ! i := sel p)"
proof
  fix k
  show "view sel ks (ps[i := p]) U' k = ((view sel ks ps U)(ks ! i := sel p)) k"
  proof (cases "k \<in> set ks")
    case True
    then obtain j where j: "j < length ks" "k = ks ! j" by (auto simp: in_set_conv_nth)
    have "ks ! j = ks ! i \<longleftrightarrow> j = i" using nth_eq_iff_index_eq [OF assms(1) j(1) assms(3)] .
    then show ?thesis
      using assms(2,3) j view_nth [OF assms(1), of "ps[i := p]" j sel U'] view_nth [OF assms(1,2) j(1), of sel U]
      by (auto simp: nth_list_update)
  next
    case False
    with assms show ?thesis using nth_mem [OF assms(3)] by (auto simp: view_other)
  qed
qed

lemma view_same:
  assumes "distinct ks" and "length ps = length ks"
    and "\<And>i. i < length ks \<Longrightarrow> sel (ps ! i) = U (ks ! i)"
  shows "view sel ks ps U = U"
proof
  fix k show "view sel ks ps U k = U k"
    using assms view_nth [OF assms(1,2)] view_other [OF assms(2)]
    by (cases "k \<in> set ks") (auto simp: in_set_conv_nth)
qed

section \<open>The assertion\<close>

definition threads_inv ::
    "'db server \<Rightarrow> string set \<Rightarrow> SOCKET list \<Rightarrow> 'db server \<Rightarrow> position list \<Rightarrow> bool" where
  "threads_inv s0 left ks s ps \<longleftrightarrow>
     distinct ks \<and> length ps = length ks \<and> maps_ok s \<and> net_ok (net_of s) \<and>
     (let U = map_of (userMap s); L = map_of (liveSocket s); R = map_of (roomMap s) in
      (\<forall>i<length ks. U (ks ! i) = mine (ps ! i) \<and> (closing (ps ! i) \<or> L (ks ! i) \<noteq> None) \<and>
         (\<forall>u. seated (ps ! i) = Some u \<longrightarrow> user_ok u) \<and>
         (\<forall>rn. doomed (ps ! i) = Some rn \<longrightarrow> rn \<in> left) \<and>
         (\<forall>rn. needed (ps ! i) = Some rn \<longrightarrow> rn \<notin> left \<and> R rn \<noteq> None)) \<and>
      (\<forall>k u. U k = Some u \<longrightarrow> user_ok u) \<and>
      (\<forall>k. k \<notin> set ks \<longrightarrow> U k = map_of (userMap s0) k \<and> (U k \<noteq> None \<longrightarrow> L k \<noteq> None)) \<and>
      ids_ok (view named ks ps U) (idSet s) \<and> seats_ok (view seated ks ps U) R \<and>
      (\<forall>rn r. R rn = Some r \<and> userList r = [] \<longrightarrow> (\<exists>i<length ks. doomed (ps ! i) = Some rn)))"

lemma threads_invD:
  assumes "threads_inv s0 left ks s ps"
  shows "distinct ks" "length ps = length ks" "um_wf (userMap s)" "sm_wf (roomMap s)" "sm_wf (liveSocket s)"
    "net_ok (net_of s)" "ids_ok (view named ks ps (map_of (userMap s))) (idSet s)"
    "seats_ok (view seated ks ps (map_of (userMap s))) (map_of (roomMap s))"
  using assms by (simp_all add: threads_inv_def Let_def maps_ok_def)

lemma threads_inv_thread:
  assumes "threads_inv s0 left ks s ps" and "i < length ps"
  shows "i < length ks" "map_of (userMap s) (ks ! i) = mine (ps ! i)"
    "closing (ps ! i) \<or> map_of (liveSocket s) (ks ! i) \<noteq> None"
    "doomed (ps ! i) = Some rn \<Longrightarrow> rn \<in> left"
    "needed (ps ! i) = Some rn \<Longrightarrow> rn \<notin> left \<and> map_of (roomMap s) rn \<noteq> None"
    "mine (ps ! i) = Some u \<Longrightarrow> user_ok u"
    "view named ks ps (map_of (userMap s)) (ks ! i) = named (ps ! i)"
    "view seated ks ps (map_of (userMap s)) (ks ! i) = seated (ps ! i)"
proof -
  show i: "i < length ks" using assms by (simp add: threads_inv_def)
  show "map_of (userMap s) (ks ! i) = mine (ps ! i)"
    "closing (ps ! i) \<or> map_of (liveSocket s) (ks ! i) \<noteq> None"
    "doomed (ps ! i) = Some rn \<Longrightarrow> rn \<in> left"
    "needed (ps ! i) = Some rn \<Longrightarrow> rn \<notin> left \<and> map_of (roomMap s) rn \<noteq> None"
    using assms(1) i by (simp_all add: threads_inv_def Let_def)
  then show "mine (ps ! i) = Some u \<Longrightarrow> user_ok u"
    using assms(1) by (simp add: threads_inv_def Let_def)
  show "view named ks ps (map_of (userMap s)) (ks ! i) = named (ps ! i)"
    "view seated ks ps (map_of (userMap s)) (ks ! i) = seated (ps ! i)"
    using threads_invD(1,2) [OF assms(1)] i by (simp_all add: view_nth)
qed

text \<open>
  What one piece of one thread must respect: only its own session, its own connection and the rooms it has
  to do with change, and the three views fit again.
\<close>

lemma threads_inv_step:
  assumes inv: "threads_inv s0 left ks s ps" and i: "i < length ps" and k: "ks ! i = k"
    and maps: "maps_ok s'" "net_ok (net_of s')"
    and U: "map_of (userMap s') = (map_of (userMap s))(k := mine p)"
      "\<And>u. mine p = Some u \<or> seated p = Some u \<Longrightarrow> user_ok u"
    and L: "\<And>k'. k' \<noteq> k \<Longrightarrow> map_of (liveSocket s') k' = map_of (liveSocket s) k'"
      "closing p \<or> map_of (liveSocket s') k \<noteq> None"
    and ids: "ids_ok ((view named ks ps (map_of (userMap s)))(k := named p)) (idSet s')"
    and seats: "seats_ok ((view seated ks ps (map_of (userMap s)))(k := seated p)) (map_of (roomMap s'))"
    and doom: "\<And>rn. doomed p = Some rn \<Longrightarrow> rn \<in> left"
      "\<And>rn r. map_of (roomMap s') rn = Some r \<Longrightarrow> userList r = [] \<Longrightarrow> doomed p = Some rn \<or>
         doomed (ps ! i) \<noteq> Some rn \<and> (\<exists>r'. map_of (roomMap s) rn = Some r' \<and> userList r' = [])"
    and need: "\<And>rn. needed p = Some rn \<Longrightarrow> rn \<notin> left \<and> map_of (roomMap s') rn \<noteq> None"
      "\<And>rn. map_of (roomMap s) rn \<noteq> None \<Longrightarrow> rn \<notin> left \<Longrightarrow> map_of (roomMap s') rn \<noteq> None"
  shows "threads_inv s0 left ks s' (ps[i := p])"
proof -
  note d = threads_invD [OF inv]
  let ?U = "map_of (userMap s)" and ?U' = "map_of (userMap s')"
  have ks: "i < length ks" "k \<in> set ks" using i d(2) k nth_mem [of i ks] by auto
  have V: "view sel ks (ps[i := p]) ?U' = (view sel ks ps ?U)(k := sel p)" for sel
    using view_update [OF d(1,2) ks(1), of ?U' ?U sel p] U(1) k by simp
  have "?U' (ks ! j) = mine (ps[i := p] ! j) \<and>
      (closing (ps[i := p] ! j) \<or> map_of (liveSocket s') (ks ! j) \<noteq> None) \<and>
      (\<forall>u. seated (ps[i := p] ! j) = Some u \<longrightarrow> user_ok u) \<and>
      (\<forall>rn. doomed (ps[i := p] ! j) = Some rn \<longrightarrow> rn \<in> left) \<and>
      (\<forall>rn. needed (ps[i := p] ! j) = Some rn \<longrightarrow> rn \<notin> left \<and> map_of (roomMap s') rn \<noteq> None)"
    if j: "j < length ks" for j
  proof (cases "j = i")
    case True
    then show ?thesis using U L(2) doom(1) need(1) k i by simp
  next
    case False
    then have "ks ! j \<noteq> k" using nth_eq_iff_index_eq [OF d(1) j ks(1)] k by simp
    then show ?thesis
      using inv j False U(1) L(1) need(2) unfolding threads_inv_def Let_def by simp
  qed
  moreover have "\<forall>k' u. ?U' k' = Some u \<longrightarrow> user_ok u"
    using inv U by (auto simp: threads_inv_def Let_def)
  moreover have "\<forall>k'. k' \<notin> set ks \<longrightarrow> ?U' k' = map_of (userMap s0) k' \<and>
      (?U' k' \<noteq> None \<longrightarrow> map_of (liveSocket s') k' \<noteq> None)"
  proof (intro allI impI)
    fix k' assume "k' \<notin> set ks"
    moreover from this have "k' \<noteq> k" using ks(2) by blast
    ultimately show "?U' k' = map_of (userMap s0) k' \<and> (?U' k' \<noteq> None \<longrightarrow> map_of (liveSocket s') k' \<noteq> None)"
      using inv U(1) L(1) by (simp add: threads_inv_def Let_def)
  qed
  moreover have "\<forall>rn r. map_of (roomMap s') rn = Some r \<and> userList r = [] \<longrightarrow>
      (\<exists>j<length ks. doomed (ps[i := p] ! j) = Some rn)"
  proof (intro allI impI, elim conjE)
    fix rn r assume r: "map_of (roomMap s') rn = Some r" "userList r = []"
    show "\<exists>j<length ks. doomed (ps[i := p] ! j) = Some rn"
    proof (cases "doomed p = Some rn")
      case True
      then show ?thesis using ks(1) i by (intro exI [of _ i]) simp
    next
      case False
      with doom(2) [OF r] obtain r' where r': "map_of (roomMap s) rn = Some r'" "userList r' = []"
          "doomed (ps ! i) \<noteq> Some rn" by blast
      then obtain j where "j < length ks" "doomed (ps ! j) = Some rn"
        using inv unfolding threads_inv_def Let_def by blast
      moreover from this r'(3) have "j \<noteq> i" by metis
      ultimately show ?thesis by (intro exI [of _ j]) simp
    qed
  qed
  ultimately show ?thesis
    using d(1,2) maps ids seats unfolding threads_inv_def Let_def V by simp
qed

text \<open>A piece that leaves the sessions alone keeps the thread where it is.\<close>

lemma threads_inv_quiet:
  assumes "threads_inv s0 left ks s ps" and "same_sessions s s'"
  shows "threads_inv s0 left ks s' ps"
  using assms by (simp add: threads_inv_def same_sessions_def maps_ok_def Let_def)


section \<open>The pieces that change something\<close>

lemma threads_inv_views:
  assumes "threads_inv s0 left ks s ps" and "i < length ps" and "ks ! i = k"
  shows "(view named ks ps (map_of (userMap s)))(k := named (ps ! i)) = view named ks ps (map_of (userMap s))"
    and "(view seated ks ps (map_of (userMap s)))(k := seated (ps ! i)) = view seated ks ps (map_of (userMap s))"
  using threads_inv_thread(7,8) [OF assms(1,2), unfolded assms(3)] by (auto simp: fun_eq_iff)

lemma threads_inv_erase_id:
  assumes inv: "threads_inv s0 left ks s ps" and i: "i < length ps" and k: "ks ! i = k"
    and p: "named (ps ! i) = Some u"
  shows "threads_inv s0 left ks (s\<lparr>idSet := idSet s - {uid u}\<rparr>) (ps[i := (ps ! i)\<lparr>named := None\<rparr>])"
proof (rule threads_inv_step [OF inv i k])
  note d = threads_invD [OF inv] and th = threads_inv_thread [OF inv i, unfolded k]
  show "ids_ok ((view named ks ps (map_of (userMap s)))(k := named ((ps ! i)\<lparr>named := None\<rparr>)))
      (idSet (s\<lparr>idSet := idSet s - {uid u}\<rparr>))"
    using ids_logout [OF d(7), of k u] th(7) p by simp
  show "seats_ok ((view seated ks ps (map_of (userMap s)))(k := seated ((ps ! i)\<lparr>named := None\<rparr>)))
      (map_of (roomMap (s\<lparr>idSet := idSet s - {uid u}\<rparr>)))"
    using d(8) threads_inv_views(2) [OF inv i k] by simp
qed (use inv i k threads_inv_thread [OF inv i] in \<open>auto simp: threads_inv_def maps_ok_def Let_def\<close>)

lemma threads_inv_erase_user:
  assumes inv: "threads_inv s0 left ks s ps" and i: "i < length ps" and k: "ks ! i = k"
    and p: "named (ps ! i) = None" "map_option room_of (seated (ps ! i)) \<in> {None, Some None}"
  shows "threads_inv s0 left ks (s\<lparr>userMap := am_erase k (userMap s)\<rparr>)
    (ps[i := (ps ! i)\<lparr>mine := None, seated := None\<rparr>])"
proof (rule threads_inv_step [OF inv i k])
  note d = threads_invD [OF inv] and th = threads_inv_thread [OF inv i, unfolded k]
  let ?p = "(ps ! i)\<lparr>mine := None, seated := None\<rparr>" and ?s = "s\<lparr>userMap := am_erase k (userMap s)\<rparr>"
  show "map_of (userMap ?s) = (map_of (userMap s))(k := mine ?p)" by (simp add: map_of_am_erase)
  show "maps_ok ?s" using d(3-5) by (simp add: maps_ok_def um_wf_erase)
  show "ids_ok ((view named ks ps (map_of (userMap s)))(k := named ?p)) (idSet ?s)"
    using d(7) threads_inv_views(1) [OF inv i k] by simp
  show "seats_ok ((view seated ks ps (map_of (userMap s)))(k := seated ?p)) (map_of (roomMap ?s))"
    using seats_same [OF d(8), of k None] th(8) p(2) by simp
qed (use threads_inv_thread [OF inv i] threads_invD(6) [OF inv] k in auto)

lemma threads_inv_reset:
  assumes inv: "threads_inv s0 left ks s ps" and i: "i < length ps" and k: "ks ! i = k"
    and p: "mine (ps ! i) = Some u" "named (ps ! i) \<in> {None, Some u}" "seated (ps ! i) = None"
  shows "ok (reset_session k s) (\<lambda>s'. threads_inv s0 left ks s'
    (ps[i := (ps ! i)\<lparr>mine := Some (reset_user u), named := map_option reset_user (named (ps ! i)),
                       seated := Some (reset_user u)\<rparr>]))"
proof -
  let ?p = "(ps ! i)\<lparr>mine := Some (reset_user u), named := map_option reset_user (named (ps ! i)),
      seated := Some (reset_user u)\<rparr>" and ?s = "s\<lparr>userMap := am_modify k reset_user (userMap s)\<rparr>"
  note d = threads_invD [OF inv] and th = threads_inv_thread [OF inv i, unfolded k]
  note r = reset_user_ok [OF th(6) [OF p(1)]]
  have "threads_inv s0 left ks ?s (ps[i := ?p])"
  proof (rule threads_inv_step [OF inv i k])
    show "map_of (userMap ?s) = (map_of (userMap s))(k := mine ?p)"
      using th(2) p(1) by (simp add: map_of_am_modify)
    show "maps_ok ?s" using d(3-5) by (simp add: maps_ok_def um_wf_modify)
    show "ids_ok ((view named ks ps (map_of (userMap s)))(k := named ?p)) (idSet ?s)"
      using d(7) p(2) th(7) threads_inv_views(1) [OF inv i k] ids_modify [OF d(7), of k u "reset_user u"] r(3)
      by auto
    show "seats_ok ((view seated ks ps (map_of (userMap s)))(k := seated ?p)) (map_of (roomMap ?s))"
      using seats_same [OF d(8), of k "Some (reset_user u)"] th(8) p(3) r(2) by simp
  qed (use threads_inv_thread [OF inv i] d(6) k r(1) in auto)
  then show ?thesis using th(2) p(1) by (simp add: reset_session_eq)
qed

lemma threads_inv_leave:
  assumes inv: "threads_inv s0 left ks s ps" and i: "i < length ps" and k: "ks ! i = k"
    and p: "seated (ps ! i) = Some u" "user_ok u" "status u = STATUS_CHATTIG" "doomed (ps ! i) = None"
      "rname u \<in> left"
  shows "ok (broadcast_leave env (uname u @ m_left) (rname u) k s) (\<lambda>s'. threads_inv s0 left ks s'
    (ps[i := (ps ! i)\<lparr>seated := None, doomed := Some (rname u)\<rparr>]))"
proof -
  let ?p = "(ps ! i)\<lparr>seated := None, doomed := Some (rname u)\<rparr>"
  note d = threads_invD [OF inv] and th = threads_inv_thread [OF inv i, unfolded k]
  have ru: "room_of u = Some (rname u)" using p(3) by (simp add: room_of_def)
  obtain r where r: "map_of (roomMap s) (rname u) = Some r"
    using seats_member [OF d(8) _ ru, of k] th(8) p(1) by metis
  obtain n where n: "net_ok n" "broadcast_leave env (uname u @ m_left) (rname u) k s =
      Inr (s\<lparr>net_of := n, roomMap := am_modify (rname u) (list_without k) (roomMap s)\<rparr>)"
    using broadcast_leave_ok [OF d(6) r] leave_notice [OF p(2)] by metis
  let ?s = "s\<lparr>net_of := n, roomMap := am_modify (rname u) (list_without k) (roomMap s)\<rparr>"
  have R: "map_of (roomMap ?s) = (map_of (roomMap s))(rname u \<mapsto> list_without k r)"
    using r by (simp add: map_of_am_modify)
  have "threads_inv s0 left ks ?s (ps[i := ?p])"
  proof (rule threads_inv_step [OF inv i k])
    show "maps_ok ?s" using d(3-5) by (simp add: maps_ok_def sm_wf_modify)
    show "ids_ok ((view named ks ps (map_of (userMap s)))(k := named ?p)) (idSet ?s)"
      using d(7) threads_inv_views(1) [OF inv i k] by simp
    show "seats_ok ((view seated ks ps (map_of (userMap s)))(k := seated ?p)) (map_of (roomMap ?s))"
      using seats_leave [OF d(8) _ ru r, of k] th(8) p(1) R by simp
    show "doomed ?p = Some rn \<or> doomed (ps ! i) \<noteq> Some rn \<and>
        (\<exists>r'. map_of (roomMap s) rn = Some r' \<and> userList r' = [])"
      if "map_of (roomMap ?s) rn = Some r'" "userList r' = []" for rn r'
      using that R p(4) by (auto split: if_splits)
    show "needed ?p = Some rn \<Longrightarrow> rn \<notin> left \<and> map_of (roomMap ?s) rn \<noteq> None" for rn
      using th(5) [of rn] R by auto
    show "map_of (userMap ?s) = (map_of (userMap s))(k := mine ?p)" using th(2) by auto
    show "map_of (roomMap ?s) rn \<noteq> None" if "map_of (roomMap s) rn \<noteq> None" for rn using that R by simp
  qed (use th p(5) n(1) in simp_all)
  with n(2) show ?thesis by simp
qed

lemma threads_inv_drop:
  assumes inv: "threads_inv s0 left ks s ps" and i: "i < length ps" and k: "ks ! i = k"
    and p: "doomed (ps ! i) = Some rn"
  shows "threads_inv s0 left ks (drop_empty_room rn s) (ps[i := (ps ! i)\<lparr>doomed := None\<rparr>])"
proof -
  let ?p = "(ps ! i)\<lparr>doomed := None\<rparr>" and ?s = "drop_empty_room rn s"
  note d = threads_invD [OF inv] and th = threads_inv_thread [OF inv i, unfolded k]
  have R: "map_of (roomMap ?s) rn' = (if rn' = rn \<and> (\<exists>r. map_of (roomMap s) rn = Some r \<and> userList r = [])
      then None else map_of (roomMap s) rn')" for rn'
    by (auto simp: drop_empty_room_def map_of_am_erase split: option.split)
  have same: "userMap ?s = userMap s" "idSet ?s = idSet s" "liveSocket ?s = liveSocket s" "net_of ?s = net_of s"
    by simp_all
  have left: "rn \<in> left" using th(4) p .
  show ?thesis
  proof (rule threads_inv_step [OF inv i k])
    show "maps_ok ?s" using d(3-5) sm_wf_drop by (simp add: maps_ok_def)
    show "ids_ok ((view named ks ps (map_of (userMap s)))(k := named ?p)) (idSet ?s)"
      using d(7) threads_inv_views(1) [OF inv i k] by simp
    show "seats_ok ((view seated ks ps (map_of (userMap s)))(k := seated ?p)) (map_of (roomMap ?s))"
    proof (cases "\<exists>r. map_of (roomMap s) rn = Some r \<and> userList r = []")
      case True
      then obtain r where r: "map_of (roomMap s) rn = Some r" "userList r = []" by blast
      with R have "map_of (roomMap ?s) = (map_of (roomMap s))(rn := None)" by auto
      with seats_drop [OF d(8) r] threads_inv_views(2) [OF inv i k] show ?thesis by simp
    next
      case False
      with R have "map_of (roomMap ?s) = map_of (roomMap s)" by auto
      with d(8) threads_inv_views(2) [OF inv i k] show ?thesis by simp
    qed
    show "doomed ?p = Some rn' \<or> doomed (ps ! i) \<noteq> Some rn' \<and>
        (\<exists>r'. map_of (roomMap s) rn' = Some r' \<and> userList r' = [])"
      if "map_of (roomMap ?s) rn' = Some r'" "userList r' = []" for rn' r'
      using that R p by (auto split: if_splits)
    show "needed ?p = Some rn' \<Longrightarrow> rn' \<notin> left \<and> map_of (roomMap ?s) rn' \<noteq> None" for rn'
      using th(5) [of rn'] R left by auto
    show "map_of (roomMap ?s) rn' \<noteq> None" if "map_of (roomMap s) rn' \<noteq> None" "rn' \<notin> left" for rn'
      using that R left by auto
    show "map_of (userMap ?s) = (map_of (userMap s))(k := mine ?p)" using th(2) by auto
    show "\<And>u. mine ?p = Some u \<or> seated ?p = Some u \<Longrightarrow> user_ok u" 
      using th(6) inv th(1) by (auto simp: threads_inv_def Let_def)
  qed (use th d(6) in simp_all)
qed

text \<open>Opening a room: the list has the client before its session says so.\<close>

lemma threads_inv_open:
  assumes inv: "threads_inv s0 left ks s ps" and i: "i < length ps" and k: "ks ! i = k"
    and p: "ps ! i = settled (Some u)" "status u = STATUS_WAITING"
    and m: "nul_free m" "length m < NAME_SIZE" "map_of (roomMap s) m = None"
  shows "threads_inv s0 left ks (s\<lparr>roomMap := sm_put m \<lparr>userList = [k]\<rparr> (roomMap s)\<rparr>)
    (ps[i := (ps ! i)\<lparr>seated := Some (join_room m u)\<rparr>])"
proof (rule threads_inv_step [OF inv i k])
  note d = threads_invD [OF inv] and th = threads_inv_thread [OF inv i, unfolded k]
  let ?p = "(ps ! i)\<lparr>seated := Some (join_room m u)\<rparr>"
    and ?s = "s\<lparr>roomMap := sm_put m \<lparr>userList = [k]\<rparr> (roomMap s)\<rparr>"
  have u: "user_ok u" using th(6) p(1) by simp
  note j = join_room_ok [OF u m(1,2)]
  show "maps_ok ?s" using d(3-5) by (simp add: maps_ok_def sm_wf_put)
  show "ids_ok ((view named ks ps (map_of (userMap s)))(k := named ?p)) (idSet ?s)"
    using d(7) threads_inv_views(1) [OF inv i k] by simp
  show "seats_ok ((view seated ks ps (map_of (userMap s)))(k := seated ?p)) (map_of (roomMap ?s))"
    using seats_join [OF d(8) _ waiting_room_of [OF p(2)] j(2), of k "\<lparr>userList = [k]\<rparr>"] th(8) p(1) m(3)
    by (simp add: map_of_sm_put members_def)
  show "map_of (userMap ?s) = (map_of (userMap s))(k := mine ?p)" using th(2) by auto
  show "user_ok v" if "mine ?p = Some v \<or> seated ?p = Some v" for v using that p(1) u j(1) by auto
  show "doomed ?p = Some rn \<or> doomed (ps ! i) \<noteq> Some rn \<and>
      (\<exists>r'. map_of (roomMap s) rn = Some r' \<and> userList r' = [])"
    if "map_of (roomMap ?s) rn = Some r'" "userList r' = []" for rn r'
    using that p(1) by (auto simp: map_of_sm_put split: if_splits)
  show "map_of (roomMap ?s) rn \<noteq> None" if "map_of (roomMap s) rn \<noteq> None" for rn
    using that by (simp add: map_of_sm_put)
qed (use threads_inv_thread [OF inv i] p k threads_invD(6) [OF inv] in simp_all)

text \<open>The session says that it is in the room; \<open>x\<close> is what the list says.\<close>

lemma threads_inv_join:
  assumes inv: "threads_inv s0 left ks s ps" and i: "i < length ps" and k: "ks ! i = k"
    and p: "mine (ps ! i) = Some u" "named (ps ! i) = Some u"
      "seated (ps ! i) = Some (join_room m u) \<or> seated (ps ! i) = Some u"
    and m: "nul_free m" "length m < NAME_SIZE"
  shows "ok (upd_user k (join_room m) s) (\<lambda>s'. threads_inv s0 left ks s'
    (ps[i := (ps ! i)\<lparr>mine := Some (join_room m u), named := Some (join_room m u)\<rparr>]))"
proof -
  let ?p = "(ps ! i)\<lparr>mine := Some (join_room m u), named := Some (join_room m u)\<rparr>"
    and ?s = "s\<lparr>userMap := am_modify k (join_room m) (userMap s)\<rparr>"
  note d = threads_invD [OF inv] and th = threads_inv_thread [OF inv i, unfolded k]
  note j = join_room_ok [OF th(6) [OF p(1)] m]
  have "threads_inv s0 left ks ?s (ps[i := ?p])"
  proof (rule threads_inv_step [OF inv i k])
    show "map_of (userMap ?s) = (map_of (userMap s))(k := mine ?p)"
      using th(2) p(1) by (simp add: map_of_am_modify)
    show "maps_ok ?s" using d(3-5) by (simp add: maps_ok_def um_wf_modify)
    show "ids_ok ((view named ks ps (map_of (userMap s)))(k := named ?p)) (idSet ?s)"
      using ids_modify [OF d(7), of k u "join_room m u"] th(7) p(2) j(3) by simp
    show "seats_ok ((view seated ks ps (map_of (userMap s)))(k := seated ?p)) (map_of (roomMap ?s))"
      using d(8) threads_inv_views(2) [OF inv i k] by simp
    show "user_ok v" if "mine ?p = Some v \<or> seated ?p = Some v" for v
      using that p(3) j(1) th(6) [OF p(1)] by auto
  qed (use th d(6) in simp_all)
  then show ?thesis using th(2) p(1) by (simp add: upd_user_def)
qed

text \<open>The client put on the list of a room that stays.\<close>

lemma threads_inv_push:
  assumes inv: "threads_inv s0 left ks s ps" and i: "i < length ps" and k: "ks ! i = k"
    and p: "needed (ps ! i) = Some m" "seated (ps ! i) = Some u" "room_of u = None" "doomed (ps ! i) = None"
      "user_ok u" "nul_free m" "length m < NAME_SIZE"
  shows "map_of (roomMap s) m \<noteq> None"
    and "threads_inv s0 left ks
      (s\<lparr>roomMap := am_modify m (\<lambda>r. r\<lparr>userList := userList r @ [k]\<rparr>) (roomMap s)\<rparr>)
      (ps[i := (ps ! i)\<lparr>seated := Some (join_room m u), needed := None\<rparr>])"
proof -
  let ?p = "(ps ! i)\<lparr>seated := Some (join_room m u), needed := None\<rparr>"
    and ?s = "s\<lparr>roomMap := am_modify m (\<lambda>r. r\<lparr>userList := userList r @ [k]\<rparr>) (roomMap s)\<rparr>"
  note d = threads_invD [OF inv] and th = threads_inv_thread [OF inv i, unfolded k]
  note j = join_room_ok [OF p(5-7)]
  show m: "map_of (roomMap s) m \<noteq> None" using th(5) [OF p(1)] by simp
  then obtain r where r: "map_of (roomMap s) m = Some r" by blast
  let ?r = "r\<lparr>userList := userList r @ [k]\<rparr>"
  have R: "map_of (roomMap ?s) = (map_of (roomMap s))(m \<mapsto> ?r)" using r by (simp add: map_of_am_modify)
  show "threads_inv s0 left ks ?s (ps[i := ?p])"
  proof (rule threads_inv_step [OF inv i k])
    show "maps_ok ?s" using d(3-5) by (simp add: maps_ok_def sm_wf_modify)
    show "ids_ok ((view named ks ps (map_of (userMap s)))(k := named ?p)) (idSet ?s)"
      using d(7) threads_inv_views(1) [OF inv i k] by simp
    show "seats_ok ((view seated ks ps (map_of (userMap s)))(k := seated ?p)) (map_of (roomMap ?s))"
      using seats_join [OF d(8) _ p(3) j(2), of k ?r] th(8) p(2) R r by (simp add: members_def)
    show "doomed ?p = Some rn \<or> doomed (ps ! i) \<noteq> Some rn \<and>
        (\<exists>r'. map_of (roomMap s) rn = Some r' \<and> userList r' = [])"
      if "map_of (roomMap ?s) rn = Some r'" "userList r' = []" for rn r'
      using that R p(4) by (auto split: if_splits)
    show "map_of (roomMap ?s) rn \<noteq> None" if "map_of (roomMap s) rn \<noteq> None" for rn using that R by simp
    show "map_of (userMap ?s) = (map_of (userMap s))(k := mine ?p)" using th(2) by auto
    show "user_ok v" if "mine ?p = Some v \<or> seated ?p = Some v" for v using that j(1) th(6) by auto
  qed (use th p(4) d(6) in simp_all)
qed

text \<open>An id claimed, and the session stored for it.\<close>

lemma threads_inv_claim:
  assumes inv: "threads_inv s0 left ks s ps" and i: "i < length ps" and k: "ks ! i = k"
    and p: "ps ! i = settled None" and u: "user_ok u" "room_of u = None" "uid u \<notin> idSet s"
  shows "threads_inv s0 left ks (s\<lparr>idSet := insert (uid u) (idSet s)\<rparr>)
    (ps[i := (settled None)\<lparr>named := Some u, seated := Some u\<rparr>])"
proof (rule threads_inv_step [OF inv i k])
  note d = threads_invD [OF inv] and th = threads_inv_thread [OF inv i, unfolded k]
  let ?p = "(settled None)\<lparr>named := Some u, seated := Some u\<rparr>"
    and ?s = "s\<lparr>idSet := insert (uid u) (idSet s)\<rparr>"
  show "ids_ok ((view named ks ps (map_of (userMap s)))(k := named ?p)) (idSet ?s)"
    using ids_login [OF d(7) _ u(3), of k] th(7) p by simp
  show "seats_ok ((view seated ks ps (map_of (userMap s)))(k := seated ?p)) (map_of (roomMap ?s))"
    using seats_same [OF d(8), of k "Some u"] th(8) p u(2) by simp
  show "map_of (userMap ?s) = (map_of (userMap s))(k := mine ?p)" using th(2) p by auto
  show "maps_ok ?s" using d(3-5) by (simp add: maps_ok_def)
qed (use threads_inv_thread [OF inv i] p k u(1) threads_invD(6) [OF inv] in auto)

lemma threads_inv_store:
  assumes inv: "threads_inv s0 left ks s ps" and i: "i < length ps" and k: "ks ! i = k"
    and p: "ps ! i = (settled None)\<lparr>named := Some u, seated := Some u\<rparr>" and u: "user_ok u"
  shows "threads_inv s0 left ks (s\<lparr>userMap := um_put f k u (userMap s)\<rparr>) (ps[i := settled (Some u)])"
proof (rule threads_inv_step [OF inv i k])
  note d = threads_invD [OF inv] and th = threads_inv_thread [OF inv i, unfolded k]
  let ?s = "s\<lparr>userMap := um_put f k u (userMap s)\<rparr>"
  show "map_of (userMap ?s) = (map_of (userMap s))(k := mine (settled (Some u)))"
    using d(3) by (simp add: map_of_um_put)
  show "maps_ok ?s" using d(3-5) by (simp add: maps_ok_def um_wf_put)
  show "ids_ok ((view named ks ps (map_of (userMap s)))(k := named (settled (Some u)))) (idSet ?s)"
    using d(7) threads_inv_views(1) [OF inv i k] p by simp
  show "seats_ok ((view seated ks ps (map_of (userMap s)))(k := seated (settled (Some u)))) (map_of (roomMap ?s))"
    using d(8) threads_inv_views(2) [OF inv i k] p by simp
qed (use threads_inv_thread [OF inv i] p k u threads_invD(6) [OF inv] in auto)

text \<open>A connection taken off the live ones.\<close>

lemma threads_inv_close:
  assumes inv: "threads_inv s0 left ks s ps" and i: "i < length ps" and k: "ks ! i = k"
  shows "threads_inv s0 left ks (s\<lparr>liveSocket := am_erase k (liveSocket s)\<rparr>)
    (ps[i := (ps ! i)\<lparr>closing := True\<rparr>])"
proof (rule threads_inv_step [OF inv i k])
  note d = threads_invD [OF inv] and th = threads_inv_thread [OF inv i, unfolded k]
  let ?p = "(ps ! i)\<lparr>closing := True\<rparr>" and ?s = "s\<lparr>liveSocket := am_erase k (liveSocket s)\<rparr>"
  show "maps_ok ?s" using d(3-5) by (simp add: maps_ok_def sm_wf_erase)
  show "ids_ok ((view named ks ps (map_of (userMap s)))(k := named ?p)) (idSet ?s)"
    using d(7) threads_inv_views(1) [OF inv i k] by simp
  show "seats_ok ((view seated ks ps (map_of (userMap s)))(k := seated ?p)) (map_of (roomMap ?s))"
    using d(8) threads_inv_views(2) [OF inv i k] by simp
  show "map_of (userMap ?s) = (map_of (userMap s))(k := mine ?p)" using th(2) by auto
  show "user_ok v" if "mine ?p = Some v \<or> seated ?p = Some v" for v
    using that inv th(1,6) by (auto simp: threads_inv_def Let_def)
qed (use threads_inv_thread [OF inv i] k threads_invD(6) [OF inv] in \<open>auto simp: map_of_am_erase\<close>)

end
