(* ===== verification/Mixed.thy ===== *)
theory Mixed
  imports Interleave
begin

text \<open>
  The handlers of \<open>Cut\<close> that change sessions keep the assertion of \<open>Interleave\<close>, piece by piece.
\<close>

section \<open>Requests\<close>

datatype deed =
    Register string
  | Login string
  | Logout string
  | MakeRoom string
  | EnterRoom string
  | LeaveRoom
  | Disconnect

primrec thread_of :: "'db cfg \<Rightarrow> SOCKET \<Rightarrow> deed \<Rightarrow> 'db server task" where
  "thread_of env k (Register m) = UserMake_task env k m"
| "thread_of env k (Login m) = UserEnter_task env k m"
| "thread_of env k (Logout m) = LogOut_task env k m"
| "thread_of env k (MakeRoom m) = RoomMake_task k m"
| "thread_of env k (EnterRoom m) = RoomEnter_task k m"
| "thread_of env k LeaveRoom = RoomOut_task env k"
| "thread_of env k Disconnect = ClientExit_task env True k"

text \<open>What a client is afterwards, from what it was before.\<close>

fun effect :: "deed \<Rightarrow> (string \<times> string \<times> string option) option \<Rightarrow>
    (string \<times> string \<times> string option) option \<Rightarrow> bool" where
  "effect (Register m) x y \<longleftrightarrow> y = x"
| "effect (Login m) x y \<longleftrightarrow> y = None \<or>
     (\<exists>a b nick. pieces (CHR 0x5C) m = [a, b] \<and> y = Some (a, nick, None))"
| "effect (Logout m) x y \<longleftrightarrow> y = None"
| "effect (MakeRoom m) x y \<longleftrightarrow> y = x \<or> (\<exists>i n. x = Some (i, n, None) \<and> y = Some (i, n, Some m))"
| "effect (EnterRoom m) x y \<longleftrightarrow> y = x \<or> (\<exists>i n. x = Some (i, n, None) \<and> y = Some (i, n, Some m))"
| "effect LeaveRoom x y \<longleftrightarrow> (\<exists>i n rn. x = Some (i, n, Some rn) \<and> y = Some (i, n, None))"
| "effect Disconnect x y \<longleftrightarrow> y = None"

definition row :: "PER_HANDLE_DATA \<Rightarrow> string \<times> string \<times> string option" where
  "row u = (uid u, uname u, room_of u)"

section \<open>Where a thread can be\<close>

inductive deed_at ::
    "'db cfg \<Rightarrow> PER_HANDLE_DATA option \<Rightarrow> SOCKET \<Rightarrow> deed \<Rightarrow> 'db server task \<Rightarrow> position \<Rightarrow> bool"
  for env x k where
  start: "deed_at env x k d (thread_of env k d) (settled x)"
| said: "deed_at env x k d t p \<Longrightarrow> deed_at env x k d (say dir msg rn sock st t) p"
| finish: "effect d (map_option row x) (map_option row (mine p)) \<Longrightarrow>
    p = settled y \<or> p = (settled None)\<lparr>closing := True\<rparr> \<Longrightarrow> deed_at env x k d Done p"
| insert: "\<forall>db. ok (InsertUser env vo db) (\<lambda>_. True) \<Longrightarrow>
    deed_at env x k (Register m) (UserMake_store env k a vo) (settled x)"
| claim: "pieces (CHR 0x5C) m = [a, b] \<Longrightarrow> getNickName vo = Inr nick \<Longrightarrow> nul_free nick \<Longrightarrow>
    length nick < NAME_SIZE \<Longrightarrow> deed_at env x k (Login m) (UserEnter_claim env k a vo) (settled None)"
| store: "pieces (CHR 0x5C) m = [a, b] \<Longrightarrow> nul_free nick \<Longrightarrow> length nick < NAME_SIZE \<Longrightarrow>
    u = session_for a nick \<Longrightarrow>
    deed_at env x k (Login m) (InitUser_task env a k nick) ((settled None)\<lparr>named := Some u, seated := Some u\<rparr>)"
| update: "pieces (CHR 0x5C) m = [a, b] \<Longrightarrow> nul_free nick \<Longrightarrow> length nick < NAME_SIZE \<Longrightarrow>
    deed_at env x k (Login m) (InitUser_update env (session_for a nick) k nick) (settled (Some (session_for a nick)))"
| log: "pieces (CHR 0x5C) m = [a, b] \<Longrightarrow> nul_free nick \<Longrightarrow> length nick < NAME_SIZE \<Longrightarrow>
    deed_at env x k (Login m) (InitUser_log env (session_log a nick) k nick) (settled (Some (session_for a nick)))"
| out_id: "x = Some u \<Longrightarrow> deed_at env x k (Logout m) (LogOut_id env k m (uname u)) (settled x)"
| out_session: "x = Some u \<Longrightarrow>
    deed_at env x k (Logout m) (LogOut_session env k m (uname u)) ((settled x)\<lparr>named := None\<rparr>)"
| out_log: "x = Some u \<Longrightarrow> deed_at env x k (Logout m) (LogOut_log env m (uname u)) (settled None)"
| make: "deed_at env x k (MakeRoom m) (RoomMake_claim k m) (settled x)"
| made: "x = Some u \<Longrightarrow>
    deed_at env x k (MakeRoom m) (RoomMake_enter k m) ((settled x)\<lparr>seated := Some (join_room m u)\<rparr>)"
| find: "x = Some u \<Longrightarrow> deed_at env x k (EnterRoom m) (RoomEnter_find k m (uname u)) (settled x)"
| found: "x = Some u \<Longrightarrow> nul_free m \<Longrightarrow> length m < NAME_SIZE \<Longrightarrow>
    deed_at env x k (EnterRoom m) (RoomEnter_join k m (uname u)) ((settled x)\<lparr>needed := Some m\<rparr>)"
| push: "x = Some u \<Longrightarrow> nul_free m \<Longrightarrow> length m < NAME_SIZE \<Longrightarrow>
    p = (settled (Some (join_room m u)))\<lparr>seated := x, needed := Some m\<rparr> \<Longrightarrow>
    deed_at env x k (EnterRoom m) (RoomEnter_push k m (uname u)) p"
| leave: "x = Some u \<Longrightarrow> deed_at env x k LeaveRoom (RoomOut_leave env k (uname u) (rname u)) (settled x)"
| reset: "mine p = Some u \<Longrightarrow> named p \<in> {None, Some u} \<Longrightarrow> seated p = None \<Longrightarrow>
    deed_at env x k d (drop_task rn t) (p\<lparr>mine := Some (reset_user u),
      named := map_option reset_user (named p), seated := Some (reset_user u)\<rparr>) \<Longrightarrow>
    deed_at env x k d (reset_task k rn t) p"
| drop: "doomed p = Some rn \<Longrightarrow> deed_at env x k d t (p\<lparr>doomed := None\<rparr>) \<Longrightarrow>
    deed_at env x k d (drop_task rn t) p"
| live: "deed_at env x k Disconnect (ClientExit_live env k) (settled x)"
| session: "deed_at env x k Disconnect (ClientExit_session env k) ((settled x)\<lparr>closing := True\<rparr>)"
| ident: "x = Some u \<Longrightarrow>
    deed_at env x k Disconnect (erase_id (uid u) (quit_room env k u (erase_user k))) ((settled x)\<lparr>closing := True\<rparr>)"
| quit: "x = Some u \<Longrightarrow>
    deed_at env x k Disconnect (quit_room env k u (erase_user k)) ((settled x)\<lparr>named := None, closing := True\<rparr>)"
| quit_leave: "x = Some u \<Longrightarrow> status u = STATUS_CHATTIG \<Longrightarrow>
    deed_at env x k Disconnect (quit_leave env k (uname u) (rname u) (erase_user k))
      ((settled x)\<lparr>named := None, closing := True\<rparr>)"
| erase: "named p = None \<Longrightarrow> map_option room_of (seated p) \<in> {None, Some None} \<Longrightarrow> doomed p = None \<Longrightarrow>
    needed p = None \<Longrightarrow> closing p \<Longrightarrow> deed_at env x k Disconnect (erase_user k) p"

section \<open>One piece\<close>

definition advances ::
    "'db cfg \<Rightarrow> PER_HANDLE_DATA option \<Rightarrow> SOCKET \<Rightarrow> deed \<Rightarrow> ('db server \<Rightarrow> position \<Rightarrow> bool) \<Rightarrow>
     'db server task \<Rightarrow> 'db server \<Rightarrow> bool" where
  "advances env x k d I t s \<longleftrightarrow> ok (step t s) (\<lambda>(s', t'). \<exists>p. deed_at env x k d t' p \<and> I s' p)"

lemma advances_piece:
  assumes "ok (f s) (\<lambda>s'. I s' p)" and "deed_at env x k d t p"
  shows "advances env x k d I (piece f t) s"
  using assms by (auto simp: advances_def elim!: ok_mono)

lemma advances_with:
  assumes "ok (f s) (\<lambda>(y, s'). \<exists>p. deed_at env x k d (t y) p \<and> I s' p)"
  shows "advances env x k d I (piece_with f t) s"
  using assms by (auto simp: advances_def elim!: ok_mono)

lemma advances_say:
  assumes "\<And>s'. same_sessions s s' \<Longrightarrow> I s' p" and "deed_at env x k d t p"
  shows "advances env x k d I (say dir msg rn sock st t) s"
  using assms by (auto simp: say_def intro!: advances_piece)

lemma session_names_of:
  "map_of (userMap s) k = Some u \<Longrightarrow> user_ok u \<Longrightarrow> session_names k s = Inr (uname u, uid u)"
  by (simp add: session_names_def cstr_def user_okD)

lemma deed_done:
  "effect d (map_option row x) (map_option row y) \<Longrightarrow> deed_at env x k d Done (settled y)"
  by (rule deed_at.finish [where y = y]) simp_all

lemma deed_finish:
  assumes "finishing k t" and "effect d (map_option row x) (map_option row y)"
  shows "deed_at env x k d t (settled y)"
  using assms by (auto simp: finishing_def intro!: deed_at.said deed_done)

section \<open>Every piece\<close>

text \<open>The session \<open>x\<close> the client had at the start, for a request its status allows, with arguments the handler has room for.\<close>

definition deed_fits :: "string set \<Rightarrow> PER_HANDLE_DATA option \<Rightarrow> deed \<Rightarrow> bool" where
  "deed_fits left x d \<longleftrightarrow> (\<forall>u. x = Some u \<longrightarrow> user_ok u) \<and>
     (case d of
        Register m \<Rightarrow> request_ok STATUS_LOGOUT USER_MAKE m
      | Login m \<Rightarrow> x = None \<and> request_ok STATUS_LOGOUT USER_ENTER m
      | Logout m \<Rightarrow> (\<exists>u. x = Some u \<and> status u = STATUS_WAITING) \<and> request_ok STATUS_WAITING LOG_OUT m
      | MakeRoom m \<Rightarrow> (\<exists>u. x = Some u \<and> status u = STATUS_WAITING) \<and> request_ok STATUS_WAITING ROOM_MAKE m
      | EnterRoom m \<Rightarrow> (\<exists>u. x = Some u \<and> status u = STATUS_WAITING) \<and> m \<notin> left
      | LeaveRoom \<Rightarrow> \<exists>u. x = Some u \<and> status u = STATUS_CHATTIG \<and> rname u \<in> left
      | Disconnect \<Rightarrow> \<forall>u. x = Some u \<longrightarrow> status u = STATUS_CHATTIG \<longrightarrow> rname u \<in> left)"

lemma threads_inv_stay: "threads_inv s0 left ks s (ps[i := ps ! i]) = threads_inv s0 left ks s ps"
  by simp

lemma threads_inv_net:
  "threads_inv s0 left ks s ps \<Longrightarrow> net_ok n \<Longrightarrow> threads_inv s0 left ks (s\<lparr>net_of := n\<rparr>) ps"
  by (simp add: threads_inv_def maps_ok_def Let_def)

lemma UserMake_ask:
  assumes sql: "sql_ok env" and req: "request_ok STATUS_LOGOUT USER_MAKE m"
  obtains db t where "step (UserMake_task env k m) s = Inr (s\<lparr>database := db\<rparr>, t)" "finishing k t"
  | db a vo where "step (UserMake_task env k m) s = Inr (s\<lparr>database := db\<rparr>, UserMake_store env k a vo)"
      "\<forall>db. ok (InsertUser env vo db) (\<lambda>_. True)"
proof -
  let ?ts = "pieces (CHR 0x5C) m"
  have t: "tokens 3 m = Inr ?ts" and nf: "\<And>p. p \<in> set ?ts \<Longrightarrow> nul_free p"
    using req pieces_nul_free by (auto simp: request_ok_def tokens_pieces BUF_SIZE_def Let_def)
  show thesis
  proof (cases "\<exists>a b c. ?ts = [a, b, c]")
    case False
    then have "step (UserMake_task env k m) s = Inr (s\<lparr>database := database s\<rparr>, Done)"
      by (simp add: UserMake_task_def t not_three [OF False])
    with that(1) [of "database s" Done] show thesis by (simp add: finishing_def)
  next
    case True
    then obtain a b c where ts: "?ts = [a, b, c]" by blast
    have a: "nul_free a" "a \<noteq> ''''" and bc: "length b < 10" "length c < NAME_SIZE"
      using nf [of a] pieces_nonempty [of a "CHR 0x5C" m] req by (auto simp: ts request_ok_def Let_def)
    have "NUL \<in> set (userId_v (setUserId a UserVo_new))" using a(1) by (simp add: vo_defs vo_simps)
    note sel = selectUser_cases [OF sql this, of "database s"]
    show thesis
    proof (cases rule: sel)
      case (1 db')
      let ?vo = "setNickName c (setPassword b (setUserId a (UserVo_copy (setUserId '''' (setUserId a UserVo_new)))))"
      have "step (UserMake_task env k m) s = Inr (s\<lparr>database := db'\<rparr>, UserMake_store env k a ?vo)"
        by (simp add: UserMake_task_def t ts 1 UserVo_none(1) Let_def)
      moreover have "\<forall>db. ok (InsertUser env ?vo db) (\<lambda>_. True)"
        by (intro allI UserVo_none(2) [OF refl a(1) bc])
      ultimately show thesis by (rule that(2))
    next
      case (2 db' pw nick)
      note vo = UserVo_row [OF refl a(1) 2(2-5)]
      have "step (UserMake_task env k m) s = Inr (s\<lparr>database := db'\<rparr>,
          say SEND_ME (m_idTaken @ loginBeforeMessage) '''' k STATUS_LOGOUT Done)"
        using a(2) 2(1) vo by (simp add: UserMake_task_def t ts Let_def)
      from that(1) [OF this finishing_say] show thesis .
    qed
  qed
qed

text \<open>The first piece of every handler.\<close>

lemma advances_start:
  assumes sql: "sql_ok env" and inv: "threads_inv s0 left ks s ps" and i: "i < length ps" and k: "ks ! i = k"
    and x: "deed_fits left x d" and p: "ps ! i = settled x"
  shows "advances env x k d (\<lambda>s' p. threads_inv s0 left ks s' (ps[i := p])) (thread_of env k d) s"
proof -
  let ?I = "\<lambda>s' p. threads_inv s0 left ks s' (ps[i := p])"
  have stay: "?I s' (settled x)" if "same_sessions s s'" for s'
    using threads_inv_quiet [OF inv that] p threads_inv_stay [of s0 left ks s' ps i] by simp
  have U: "map_of (userMap s) k = x" using threads_inv_thread(2) [OF inv i] k p by simp
  show ?thesis
  proof (cases d)
    case (Register m)
    have "request_ok STATUS_LOGOUT USER_MAKE m" using x Register by (simp add: deed_fits_def)
    then show ?thesis
    proof (cases rule: UserMake_ask [OF sql _, of m k s])
      case (2 db t)
      have "deed_at env x k d t (settled x)" using 2(2) Register by (intro deed_finish) simp_all
      with 2(1) stay show ?thesis by (auto simp: advances_def Register)
    next
      case (3 db a vo)
      have "deed_at env x k d (UserMake_store env k a vo) (settled x)" using 3(2) Register deed_at.insert by blast
      with 3(1) stay show ?thesis by (auto simp: advances_def Register)
    qed
  next
    case (Login m)
    have req: "x = None" "request_ok STATUS_LOGOUT USER_ENTER m" using x Login by (simp_all add: deed_fits_def)
    show ?thesis
    proof (cases rule: UserEnter_ask [OF sql req(2), of k s])
      case (1 db t)
      have "deed_at env x k d t (settled x)" using 1(2) Login req(1) by (intro deed_finish) simp_all
      with 1(1) stay show ?thesis by (auto simp: advances_def Login)
    next
      case (2 db a b vo nick)
      have "deed_at env x k d (UserEnter_claim env k a vo) (settled x)"
        using 2(2-5) Login req(1) deed_at.claim by metis
      with 2(1) stay show ?thesis by (auto simp: advances_def Login)
    qed
  next
    case Disconnect
    have "?I (s\<lparr>net_of := (net_of s)\<lparr>wire := wire (net_of s) @ [CloseSocket k]\<rparr>\<rparr>) (settled x)"
      using threads_inv_net [OF inv] threads_invD(6) [OF inv] p threads_inv_stay [of s0 left ks _ ps i]
      by (simp add: net_ok_close)
    then show ?thesis
      unfolding Disconnect thread_of.simps ClientExit_task_def
      by (intro advances_piece [where p = "settled x"]) (simp_all add: deed_at.live)
  next
    case LeaveRoom
    then obtain u where u: "x = Some u" "user_ok u" using x by (auto simp: deed_fits_def)
    then show ?thesis
      unfolding LeaveRoom thread_of.simps RoomOut_task_def
      using stay [of s] U deed_at.leave [OF u(1)]
      by (intro advances_with) (auto simp: session_names_of am_at_def user_ok_cstr)
  next
    case (Logout m)
    then obtain u where u: "x = Some u" "user_ok u" using x by (auto simp: deed_fits_def)
    then show ?thesis
      unfolding Logout thread_of.simps LogOut_task_def
      using stay [of s] U deed_at.out_id [OF u(1)]
      by (intro advances_with) (auto simp: session_names_of)
  next
    case (EnterRoom m)
    then obtain u where u: "x = Some u" "user_ok u" using x by (auto simp: deed_fits_def)
    then show ?thesis
      unfolding EnterRoom thread_of.simps RoomEnter_task_def
      using stay [of s] U deed_at.find [OF u(1)]
      by (intro advances_with) (auto simp: session_names_of)
  next
    case (MakeRoom m)
    then obtain u where u: "x = Some u" "user_ok u" using x by (auto simp: deed_fits_def)
    then show ?thesis
      unfolding MakeRoom thread_of.simps RoomMake_task_def
      using stay [of s] U
      by (intro advances_piece [where p = "settled x"] deed_at.make) (simp_all add: session_names_of)
  qed
qed

text \<open>The pieces of the logins and registrations.\<close>

lemma session_for_user:
  assumes "request_ok STATUS_LOGOUT USER_ENTER m" and "pieces (CHR 0x5C) m = [a, b]"
    and "nul_free nick" "length nick < NAME_SIZE"
  shows "user_ok (session_for a nick)" "uid (session_for a nick) = a" "room_of (session_for a nick) = None"
    "effect (Login m) x (Some (row (session_for a nick)))"
  using session_for_ok [OF request_pieces(1,3) [OF assms(1,2)] assms(3,4)] assms(2) by (auto simp: row_def)

lemma advances_stay:
  assumes "threads_inv s0 left ks s ps" and "ok (f s) (same_sessions s)" and "deed_at env x k d t (ps ! i)"
  shows "advances env x k d (\<lambda>s' p. threads_inv s0 left ks s' (ps[i := p])) (piece f t) s"
proof (rule advances_piece [where p = "ps ! i"])
  show "ok (f s) (\<lambda>s'. threads_inv s0 left ks s' (ps[i := ps ! i]))"
    using assms(2) by (rule ok_mono) (simp add: threads_inv_quiet [OF assms(1)])
qed (rule assms(3))

lemma advances_said:
  assumes "threads_inv s0 left ks s ps" and "deed_at env x k d t (ps ! i)"
  shows "advances env x k d (\<lambda>s' p. threads_inv s0 left ks s' (ps[i := p])) (say dir msg rn sock st t) s"
  by (rule advances_say [OF _ assms(2)]) (simp add: threads_inv_quiet [OF assms(1)])

lemma advances_insert:
  assumes "threads_inv s0 left ks s ps" and "ps ! i = settled x" and "\<forall>db. ok (InsertUser env vo db) (\<lambda>_. True)"
  shows "advances env x k (Register m) (\<lambda>s' p. threads_inv s0 left ks s' (ps[i := p])) (UserMake_store env k a vo) s"
  unfolding UserMake_store_def
proof (rule advances_stay [OF assms(1)])
  show "ok (sbind (InsertUser env vo (database s)) (\<lambda>db. Inr (s\<lparr>database := db\<rparr>))) (same_sessions s)"
  proof -
    obtain db where "InsertUser env vo (database s) = Inr db" using assms(3) unfolding ok_iff by blast
    then show ?thesis by simp
  qed
  show "deed_at env x k (Register m) (say SEND_ME (a @ m_made @ loginBeforeMessage) '''' k STATUS_LOGOUT Done) (ps ! i)"
    unfolding assms(2) by (intro deed_at.said deed_done) simp_all
qed

lemma advances_claim:
  assumes inv: "threads_inv s0 left ks s ps" and i: "i < length ps" and k: "ks ! i = k"
    and p: "ps ! i = settled None" and m: "request_ok STATUS_LOGOUT USER_ENTER m" "pieces (CHR 0x5C) m = [a, b]"
    and nick: "getNickName vo = Inr nick" "nul_free nick" "length nick < NAME_SIZE"
  shows "advances env None k (Login m) (\<lambda>s' p. threads_inv s0 left ks s' (ps[i := p])) (UserEnter_claim env k a vo) s"
  unfolding UserEnter_claim_def
proof (rule advances_with)
  note u = session_for_user [OF m nick(2,3)]
  have refused: "deed_at env None k (Login m) (say SEND_ME msg '''' k STATUS_LOGOUT Done) (settled None)" for msg
    by (intro deed_at.said deed_done) simp_all
  show "ok (if a \<in> idSet s then Inr (None, s)
        else sbind (getNickName vo) (\<lambda>nick. Inr (Some nick, s\<lparr>idSet := insert a (idSet s)\<rparr>)))
      (\<lambda>(y, s'). \<exists>p. deed_at env None k (Login m) (case y of
          None \<Rightarrow> say SEND_ME (m_doubleLogin @ loginBeforeMessage) '''' k STATUS_LOGOUT Done
        | Some nick \<Rightarrow> InitUser_task env a k nick) p \<and> threads_inv s0 left ks s' (ps[i := p]))"
  proof (cases "a \<in> idSet s")
    case True
    then show ?thesis using threads_inv_stay [of s0 left ks s ps i] inv refused p by auto
  next
    case False
    with threads_inv_claim [OF inv i k p u(1,3)] deed_at.store [OF m(2) nick(2,3) refl, of env None k]
    show ?thesis using u(2) nick(1) by auto
  qed
qed

lemma advances_store:
  assumes inv: "threads_inv s0 left ks s ps" and i: "i < length ps" and k: "ks ! i = k"
    and m: "request_ok STATUS_LOGOUT USER_ENTER m" "pieces (CHR 0x5C) m = [a, b]"
    and nick: "nul_free nick" "length nick < NAME_SIZE"
    and p: "ps ! i = (settled None)\<lparr>named := Some (session_for a nick), seated := Some (session_for a nick)\<rparr>"
  shows "advances env x k (Login m) (\<lambda>s' p. threads_inv s0 left ks s' (ps[i := p])) (InitUser_task env a k nick) s"
  unfolding InitUser_task_session
  using threads_inv_store [OF inv i k p session_for_user(1) [OF m nick]] deed_at.update [OF m(2) nick]
  by (intro advances_piece) auto

lemma advances_update:
  assumes inv: "threads_inv s0 left ks s ps" and p: "ps ! i = settled (Some (session_for a nick))"
    and m: "request_ok STATUS_LOGOUT USER_ENTER m" "pieces (CHR 0x5C) m = [a, b]"
    and nick: "nul_free nick" "length nick < NAME_SIZE"
  shows "advances env x k (Login m) (\<lambda>s' p. threads_inv s0 left ks s' (ps[i := p]))
    (InitUser_update env (session_for a nick) k nick) s"
proof -
  obtain db where "UpdateUser env (session_log a nick) (database s) = Inr db"
    using logs_ok(1) [of env _ "database s"] session_log(1) [OF request_pieces(1,3) [OF m] nick]
    unfolding ok_iff by blast
  then have "step (InitUser_update env (session_for a nick) k nick) s =
      Inr (s\<lparr>database := db\<rparr>, InitUser_log env (session_log a nick) k nick)"
    by (simp add: InitUser_update_def session_for_def session_src session_log_def Let_def)
  then show ?thesis
    using deed_at.log [OF m(2) nick] p threads_inv_quiet [OF inv] threads_inv_stay [of s0 left ks _ ps i]
    by (fastforce simp: advances_def)
qed

lemma advances_log:
  assumes inv: "threads_inv s0 left ks s ps" and p: "ps ! i = settled (Some (session_for a nick))"
    and m: "request_ok STATUS_LOGOUT USER_ENTER m" "pieces (CHR 0x5C) m = [a, b]"
    and nick: "nul_free nick" "length nick < NAME_SIZE"
  shows "advances env x k (Login m) (\<lambda>s' p. threads_inv s0 left ks s' (ps[i := p]))
    (InitUser_log env (session_log a nick) k nick) s"
  unfolding InitUser_log_def
proof (rule advances_stay [OF inv])
  show "ok (sbind (InsertLogin env (session_log a nick) (database s)) (\<lambda>db. Inr (s\<lparr>database := db\<rparr>)))
      (same_sessions s)"
    using logs_ok(2) [of env "session_log a nick" "database s"] session_log [OF request_pieces(1,3) [OF m] nick]
    by (auto simp: ok_iff)
  show "deed_at env x k (Login m) (say SEND_ME (nick @ m_entered @ waitRoomMessage) '''' k STATUS_WAITING Done)
      (ps ! i)"
    unfolding p using session_for_user(4) [OF m nick] by (intro deed_at.said deed_done) simp_all
qed

text \<open>The pieces of the rooms and of the logout.\<close>

lemma advances_out_id:
  assumes inv: "threads_inv s0 left ks s ps" and i: "i < length ps" and k: "ks ! i = k"
    and u: "x = Some u" "user_ok u" and p: "ps ! i = settled x"
  shows "advances env x k (Logout m) (\<lambda>s' p. threads_inv s0 left ks s' (ps[i := p])) (LogOut_id env k m (uname u)) s"
  unfolding LogOut_id_def
proof (rule advances_piece)
  show "deed_at env x k (Logout m) (LogOut_session env k m (uname u)) ((settled x)\<lparr>named := None\<rparr>)"
    using u(1) by (rule deed_at.out_session)
  have "map_of (userMap s) k = Some u" using threads_inv_thread(2) [OF inv i] k p u(1) by simp
  then show "ok (sbind (am_at (userMap s) k) (\<lambda>u. sbind (cstr (userId u)) (\<lambda>uid.
        Inr (s\<lparr>idSet := idSet s - {uid}\<rparr>)))) (\<lambda>s'. threads_inv s0 left ks s' (ps[i := (settled x)\<lparr>named := None\<rparr>]))"
    using threads_inv_erase_id [OF inv i k, of u] p u by (simp add: am_at_def user_ok_cstr)
qed

lemma advances_out_session:
  assumes inv: "threads_inv s0 left ks s ps" and i: "i < length ps" and k: "ks ! i = k"
    and u: "x = Some u" "status u = STATUS_WAITING" and p: "ps ! i = (settled x)\<lparr>named := None\<rparr>"
  shows "advances env x k (Logout m) (\<lambda>s' p. threads_inv s0 left ks s' (ps[i := p]))
    (LogOut_session env k m (uname u)) s"
  unfolding LogOut_session_def
proof (rule advances_piece)
  show "deed_at env x k (Logout m) (say SEND_ME loginBeforeMessage '''' k STATUS_LOGOUT (LogOut_log env m (uname u)))
      (settled None)"
    using u(1) by (intro deed_at.said deed_at.out_log)
  have P: "(ps ! i)\<lparr>mine := None, seated := None\<rparr> = settled None" by (simp add: p settled_def)
  show "ok (Inr (s\<lparr>userMap := am_erase k (userMap s)\<rparr>)) (\<lambda>s'. threads_inv s0 left ks s' (ps[i := settled None]))"
    using threads_inv_erase_user [OF inv i k, unfolded P] p u waiting_room_of [OF u(2)] by simp
qed

lemma advances_out_log:
  assumes inv: "threads_inv s0 left ks s ps" and u: "user_ok u" and p: "ps ! i = settled None"
    and m: "request_ok STATUS_WAITING LOG_OUT m"
  shows "advances env x k (Logout m) (\<lambda>s' p. threads_inv s0 left ks s' (ps[i := p])) (LogOut_log env m (uname u)) s"
  unfolding LogOut_log_def
proof (rule advances_stay [OF inv])
  have "nul_free m" "length m < 512" using m by (simp_all add: request_ok_def Let_def)
  then obtain db where "log_direction env (uname u) STATUS_WAITING LOG_OUT m s = Inr (s\<lparr>database := db\<rparr>)"
    using log_direction_ok user_ok_lengths(1) [OF u] by metis
  then show "ok (log_direction env (uname u) STATUS_WAITING LOG_OUT m s) (same_sessions s)" by simp
  show "deed_at env x k (Logout m) Done (ps ! i)" unfolding p by (rule deed_done) simp
qed

lemma effect_join:
  assumes "user_ok u" "status u = STATUS_WAITING" "nul_free m" "length m < NAME_SIZE"
  shows "effect (MakeRoom m) (Some (row u)) (Some (row (join_room m u)))"
    "effect (EnterRoom m) (Some (row u)) (Some (row (join_room m u)))"
  using join_room_ok [OF assms(1,3,4)] waiting_room_of [OF assms(2)] by (simp_all add: row_def)

lemma advances_make:
  assumes inv: "threads_inv s0 left ks s ps" and i: "i < length ps" and k: "ks ! i = k"
    and u: "x = Some u" "status u = STATUS_WAITING" and p: "ps ! i = settled x"
    and m: "nul_free m" "length m < NAME_SIZE"
  shows "advances env x k (MakeRoom m) (\<lambda>s' p. threads_inv s0 left ks s' (ps[i := p])) (RoomMake_claim k m) s"
proof (cases "map_of (roomMap s) m")
  case None
  have "ps ! i = settled (Some u)" using p u(1) by simp
  from threads_inv_open [OF inv i k this u(2) m None] deed_at.made [OF u(1)] show ?thesis
    using p None u(1) by (auto simp: advances_def RoomMake_claim_def)
next
  case (Some r)
  have "deed_at env x k (MakeRoom m) (say SEND_ME (m @ m_roomTaken @ waitRoomMessage) '''' k STATUS_WAITING Done)
      (ps ! i)"
    unfolding p by (intro deed_at.said deed_done) simp
  then show ?thesis
    using Some inv threads_inv_stay [of s0 left ks s ps i] by (auto simp: advances_def RoomMake_claim_def)
qed

lemma advances_made:
  assumes inv: "threads_inv s0 left ks s ps" and i: "i < length ps" and k: "ks ! i = k"
    and u: "x = Some u" "user_ok u" "status u = STATUS_WAITING"
    and p: "ps ! i = (settled x)\<lparr>seated := Some (join_room m u)\<rparr>" and m: "nul_free m" "length m < NAME_SIZE"
  shows "advances env x k (MakeRoom m) (\<lambda>s' p. threads_inv s0 left ks s' (ps[i := p])) (RoomMake_enter k m) s"
  unfolding RoomMake_enter_def
proof (rule advances_piece)
  have P: "(ps ! i)\<lparr>mine := Some (join_room m u), named := Some (join_room m u)\<rparr> = settled (Some (join_room m u))"
    by (simp add: p settled_def)
  show "ok (upd_user k (join_room m) s) (\<lambda>s'. threads_inv s0 left ks s' (ps[i := settled (Some (join_room m u))]))"
    using threads_inv_join [OF inv i k _ _ _ m, of u, unfolded P] p u by simp
  show "deed_at env x k (MakeRoom m) (say SEND_ME (m @ m_roomMade @ chatRoomMessage) '''' k STATUS_CHATTIG Done)
      (settled (Some (join_room m u)))"
    using effect_join(1) [OF u(2,3) m] u(1) by (intro deed_at.said deed_done) simp
qed

lemma threads_inv_room:
  assumes inv: "threads_inv s0 left ks s ps" and r: "map_of (roomMap s) m = Some r" and "m \<notin> left"
  shows "nul_free m" "length m < NAME_SIZE"
proof -
  note d = threads_invD [OF inv]
  have "doomed (ps ! i) \<noteq> Some m" if "i < length ks" for i
    using threads_inv_thread(4) [OF inv, of i m] that d(2) assms(3) by auto
  then have "userList r \<noteq> []" using inv r by (auto simp: threads_inv_def Let_def)
  then obtain k where "k \<in> set (members (map_of (roomMap s)) m)"
    using r by (cases "userList r") (auto simp: members_def)
  then obtain u where u: "view seated ks ps (map_of (userMap s)) k = Some u" "room_of u = Some m"
    using d(8) by (auto simp: seats_ok_def)
  have "user_ok u"
  proof (cases "k \<in> set ks")
    case True
    then obtain i where i: "i < length ks" "k = ks ! i" by (auto simp: in_set_conv_nth)
    then have "seated (ps ! i) = Some u" using u(1) view_nth [OF d(1,2) i(1)] by simp
    with inv i(1) show ?thesis by (simp add: threads_inv_def Let_def)
  next
    case False
    then have "map_of (userMap s) k = Some u" using u(1) view_other [OF d(2)] by metis
    with inv show ?thesis by (simp add: threads_inv_def Let_def)
  qed
  moreover have "m = rname u" using u(2) by (simp add: room_of_def split: if_splits)
  ultimately show "nul_free m" "length m < NAME_SIZE" using user_ok_lengths(2) [of u] by simp_all
qed

lemma threads_inv_need:
  assumes inv: "threads_inv s0 left ks s ps" and i: "i < length ps"
    and m: "map_of (roomMap s) m \<noteq> None" "m \<notin> left"
  shows "threads_inv s0 left ks s (ps[i := (ps ! i)\<lparr>needed := Some m\<rparr>])"
proof (rule threads_inv_step [OF inv i refl])
  note d = threads_invD [OF inv] and th = threads_inv_thread [OF inv i]
  show "ids_ok ((view named ks ps (map_of (userMap s)))(ks ! i := named ((ps ! i)\<lparr>needed := Some m\<rparr>))) (idSet s)"
    using d(7) threads_inv_views(1) [OF inv i refl] by simp
  show "seats_ok ((view seated ks ps (map_of (userMap s)))(ks ! i := seated ((ps ! i)\<lparr>needed := Some m\<rparr>)))
      (map_of (roomMap s))"
    using d(8) threads_inv_views(2) [OF inv i refl] by simp
  show "user_ok v" if "mine ((ps ! i)\<lparr>needed := Some m\<rparr>) = Some v \<or> seated ((ps ! i)\<lparr>needed := Some m\<rparr>) = Some v"
    for v
    using that inv th(1,6) by (auto simp: threads_inv_def Let_def)
qed (use threads_inv_thread [OF inv i] threads_invD(3-6) [OF inv] m in \<open>auto simp: maps_ok_def\<close>)

lemma advances_find:
  assumes inv: "threads_inv s0 left ks s ps" and i: "i < length ps"
    and u: "x = Some u" and p: "ps ! i = settled x" and m: "m \<notin> left"
  shows "advances env x k (EnterRoom m) (\<lambda>s' p. threads_inv s0 left ks s' (ps[i := p]))
    (RoomEnter_find k m (uname u)) s"
proof (cases "map_of (roomMap s) m")
  case None
  have "deed_at env x k (EnterRoom m) (say SEND_ME (m @ m_noRoom @ waitRoomMessage) '''' k STATUS_WAITING Done)
      (ps ! i)"
    unfolding p by (intro deed_at.said deed_done) simp
  then show ?thesis
    using None inv threads_inv_stay [of s0 left ks s ps i] by (auto simp: advances_def RoomEnter_find_def)
next
  case (Some r)
  have "deed_at env x k (EnterRoom m) (RoomEnter_join k m (uname u)) ((ps ! i)\<lparr>needed := Some m\<rparr>)"
    unfolding p using u threads_inv_room [OF inv Some m] by (rule deed_at.found)
  then show ?thesis
    using Some threads_inv_need [OF inv i _ m] by (auto simp: advances_def RoomEnter_find_def)
qed

lemma advances_found:
  assumes inv: "threads_inv s0 left ks s ps" and i: "i < length ps" and k: "ks ! i = k"
    and u: "x = Some u" and p: "ps ! i = (settled x)\<lparr>needed := Some m\<rparr>" and m: "nul_free m" "length m < NAME_SIZE"
  shows "advances env x k (EnterRoom m) (\<lambda>s' p. threads_inv s0 left ks s' (ps[i := p]))
    (RoomEnter_join k m (uname u)) s"
  unfolding RoomEnter_join_def
proof (rule advances_piece)
  show "ok (upd_user k (join_room m) s) (\<lambda>s'. threads_inv s0 left ks s'
      (ps[i := (ps ! i)\<lparr>mine := Some (join_room m u), named := Some (join_room m u)\<rparr>]))"
    using p u by (intro threads_inv_join [OF inv i k _ _ _ m]) simp_all
  show "deed_at env x k (EnterRoom m) (RoomEnter_push k m (uname u))
      ((ps ! i)\<lparr>mine := Some (join_room m u), named := Some (join_room m u)\<rparr>)"
    using u m by (rule deed_at.push) (simp add: p settled_def)
qed

lemma advances_push:
  assumes inv: "threads_inv s0 left ks s ps" and i: "i < length ps" and k: "ks ! i = k"
    and u: "x = Some u" "user_ok u" "status u = STATUS_WAITING"
    and p: "ps ! i = (settled (Some (join_room m u)))\<lparr>seated := x, needed := Some m\<rparr>"
    and m: "nul_free m" "length m < NAME_SIZE"
  shows "advances env x k (EnterRoom m) (\<lambda>s' p. threads_inv s0 left ks s' (ps[i := p]))
    (RoomEnter_push k m (uname u)) s"
  unfolding RoomEnter_push_def
proof (rule advances_piece)
  have P: "(ps ! i)\<lparr>seated := Some (join_room m u), needed := None\<rparr> = settled (Some (join_room m u))"
    by (simp add: p settled_def)
  have pos: "needed (ps ! i) = Some m" "seated (ps ! i) = Some u" "doomed (ps ! i) = None" using p u(1) by simp_all
  note push = threads_inv_push [OF inv i k pos(1,2) waiting_room_of [OF u(3)] pos(3) u(2) m, unfolded P]
  from push show "ok (sbind (am_at (roomMap s) m) (\<lambda>_.
      Inr (s\<lparr>roomMap := am_modify m (\<lambda>r. r\<lparr>userList := userList r @ [k]\<rparr>) (roomMap s)\<rparr>)))
      (\<lambda>s'. threads_inv s0 left ks s' (ps[i := settled (Some (join_room m u))]))"
    by (auto simp: am_at_def split: option.split)
  show "deed_at env x k (EnterRoom m) (say SEND_ROOM (uname u @ m_joined @ chatRoomMessage) m 0 STATUS_CHATTIG Done)
      (settled (Some (join_room m u)))"
    using effect_join(2) [OF u(2,3) m] u(1) by (intro deed_at.said deed_done) simp
qed

text \<open>The pieces of leaving and disconnecting.\<close>

lemma advances_reset:
  assumes inv: "threads_inv s0 left ks s ps" and i: "i < length ps" and k: "ks ! i = k"
    and p: "mine (ps ! i) = Some u" "named (ps ! i) \<in> {None, Some u}" "seated (ps ! i) = None"
    and t: "deed_at env x k d (drop_task rn t) ((ps ! i)\<lparr>mine := Some (reset_user u),
      named := map_option reset_user (named (ps ! i)), seated := Some (reset_user u)\<rparr>)"
  shows "advances env x k d (\<lambda>s' p. threads_inv s0 left ks s' (ps[i := p])) (reset_task k rn t) s"
  unfolding reset_task_def by (rule advances_piece [OF _ t]) (rule threads_inv_reset [OF inv i k p])

lemma advances_drop:
  assumes inv: "threads_inv s0 left ks s ps" and i: "i < length ps" and k: "ks ! i = k"
    and p: "doomed (ps ! i) = Some rn" and t: "deed_at env x k d t ((ps ! i)\<lparr>doomed := None\<rparr>)"
  shows "advances env x k d (\<lambda>s' p. threads_inv s0 left ks s' (ps[i := p])) (drop_task rn t) s"
  unfolding drop_task_def
  by (rule advances_piece [OF _ t]) (use threads_inv_drop [OF inv i k p] in simp)

lemma advances_leave:
  assumes inv: "threads_inv s0 left ks s ps" and i: "i < length ps" and k: "ks ! i = k"
    and u: "x = Some u" "user_ok u" "status u = STATUS_CHATTIG" "rname u \<in> left" and p: "ps ! i = settled x"
  shows "advances env x k LeaveRoom (\<lambda>s' p. threads_inv s0 left ks s' (ps[i := p]))
    (RoomOut_leave env k (uname u) (rname u)) s"
  unfolding RoomOut_leave_def
proof (rule advances_piece)
  let ?p = "(ps ! i)\<lparr>seated := None, doomed := Some (rname u)\<rparr>"
  show "ok (broadcast_leave env (uname u @ m_left) (rname u) k s) (\<lambda>s'. threads_inv s0 left ks s' (ps[i := ?p]))"
    using p u by (intro threads_inv_leave [OF inv i k]) simp_all
  have "room_of u = Some (rname u)" using u(3) by (simp add: room_of_def)
  then have eff: "effect LeaveRoom (map_option row x) (map_option row (Some (reset_user u)))"
    using reset_user_ok(2-4) [OF u(2)] u(1) by (simp add: row_def)
  show "deed_at env x k LeaveRoom (say SEND_ME waitRoomMessage '''' k STATUS_WAITING (reset_task k (rname u) Done)) ?p"
  proof (intro deed_at.said deed_at.reset [of _ u] deed_at.drop)
    have "?p\<lparr>mine := Some (reset_user u), named := map_option reset_user (named ?p), seated := Some (reset_user u),
        doomed := None\<rparr> = settled (Some (reset_user u))"
      using p u(1) by (simp add: settled_def)
    with deed_done [OF eff] show "deed_at env x k LeaveRoom Done (?p\<lparr>mine := Some (reset_user u),
        named := map_option reset_user (named ?p), seated := Some (reset_user u), doomed := None\<rparr>)" by simp
  qed (use p u(1) in simp_all)
qed

lemma advances_live:
  assumes inv: "threads_inv s0 left ks s ps" and i: "i < length ps" and k: "ks ! i = k"
    and p: "ps ! i = settled x"
  shows "advances env x k Disconnect (\<lambda>s' p. threads_inv s0 left ks s' (ps[i := p])) (ClientExit_live env k) s"
  unfolding ClientExit_live_def
  by (rule advances_piece [OF _ deed_at.session]) (use threads_inv_close [OF inv i k] p in simp)

lemma advances_session:
  assumes inv: "threads_inv s0 left ks s ps" and i: "i < length ps" and k: "ks ! i = k"
    and x: "\<forall>u. x = Some u \<longrightarrow> user_ok u" and p: "ps ! i = (settled x)\<lparr>closing := True\<rparr>"
  shows "advances env x k Disconnect (\<lambda>s' p. threads_inv s0 left ks s' (ps[i := p])) (ClientExit_session env k) s"
proof -
  have U: "map_of (userMap s) k = x" using threads_inv_thread(2) [OF inv i] k p by simp
  have stay: "threads_inv s0 left ks s (ps[i := ps ! i])" using inv by simp
  show ?thesis
  proof (cases x)
    case None
    have "deed_at env x k Disconnect Done (ps ! i)"
      using p None by (intro deed_at.finish) simp_all
    with stay U None show ?thesis by (auto simp: advances_def ClientExit_session_def)
  next
    case (Some u)
    have "deed_at env x k Disconnect (erase_id (uid u) (quit_room env k u (erase_user k))) (ps ! i)"
      unfolding p using Some by (rule deed_at.ident)
    with stay U Some x show ?thesis by (auto simp: advances_def ClientExit_session_def user_ok_cstr)
  qed
qed

lemma advances_ident:
  assumes inv: "threads_inv s0 left ks s ps" and i: "i < length ps" and k: "ks ! i = k"
    and u: "x = Some u" and p: "ps ! i = (settled x)\<lparr>closing := True\<rparr>"
  shows "advances env x k Disconnect (\<lambda>s' p. threads_inv s0 left ks s' (ps[i := p]))
    (erase_id (uid u) (quit_room env k u (erase_user k))) s"
  unfolding erase_id_def
proof (rule advances_piece)
  have P: "(ps ! i)\<lparr>named := None\<rparr> = (settled x)\<lparr>named := None, closing := True\<rparr>" by (simp add: p settled_def)
  have "named (ps ! i) = Some u" using p u by simp
  from threads_inv_erase_id [OF inv i k this, unfolded P]
  show "ok (Inr (s\<lparr>idSet := idSet s - {uid u}\<rparr>))
      (\<lambda>s'. threads_inv s0 left ks s' (ps[i := (settled x)\<lparr>named := None, closing := True\<rparr>]))" by simp
  show "deed_at env x k Disconnect (quit_room env k u (erase_user k)) ((settled x)\<lparr>named := None, closing := True\<rparr>)"
    using u by (rule deed_at.quit)
qed

lemma advances_quit:
  assumes inv: "threads_inv s0 left ks s ps" and i: "i < length ps" and k: "ks ! i = k"
    and u: "x = Some u" "user_ok u" and p: "ps ! i = (settled x)\<lparr>named := None, closing := True\<rparr>"
  shows "advances env x k Disconnect (\<lambda>s' p. threads_inv s0 left ks s' (ps[i := p]))
    (quit_room env k u (erase_user k)) s"
proof -
  have U: "map_of (userMap s) k = Some u" using threads_inv_thread(2) [OF inv i] k p u(1) by simp
  have stay: "threads_inv s0 left ks s (ps[i := ps ! i])" using inv by simp
  show ?thesis
  proof (cases "status u = STATUS_CHATTIG")
    case True
    have "deed_at env x k Disconnect (quit_leave env k (uname u) (rname u) (erase_user k)) (ps ! i)"
      unfolding p using u(1) True by (rule deed_at.quit_leave)
    with stay U True u(2) show ?thesis
      by (auto simp: advances_def quit_room_def am_at_def user_ok_cstr)
  next
    case False
    then have "room_of u = None" by (simp add: room_of_def)
    then have "deed_at env x k Disconnect (erase_user k) (ps ! i)"
      using p u(1) by (intro deed_at.erase) simp_all
    with stay U False show ?thesis by (auto simp: advances_def quit_room_def am_at_def)
  qed
qed

lemma advances_quit_leave:
  assumes inv: "threads_inv s0 left ks s ps" and i: "i < length ps" and k: "ks ! i = k"
    and u: "x = Some u" "user_ok u" "status u = STATUS_CHATTIG" "rname u \<in> left"
    and p: "ps ! i = (settled x)\<lparr>named := None, closing := True\<rparr>"
  shows "advances env x k Disconnect (\<lambda>s' p. threads_inv s0 left ks s' (ps[i := p]))
    (quit_leave env k (uname u) (rname u) (erase_user k)) s"
  unfolding quit_leave_def
proof (rule advances_piece)
  let ?p = "(ps ! i)\<lparr>seated := None, doomed := Some (rname u)\<rparr>"
  show "ok (broadcast_leave env (uname u @ m_left) (rname u) k s) (\<lambda>s'. threads_inv s0 left ks s' (ps[i := ?p]))"
    using p u by (intro threads_inv_leave [OF inv i k]) simp_all
  show "deed_at env x k Disconnect (reset_task k (rname u) (erase_user k)) ?p"
    using p u(1) reset_user_ok(2) [OF u(2)]
    by (intro deed_at.reset [of _ u] deed_at.drop deed_at.erase) simp_all
qed

lemma advances_erase:
  assumes inv: "threads_inv s0 left ks s ps" and i: "i < length ps" and k: "ks ! i = k"
    and p: "named (ps ! i) = None" "map_option room_of (seated (ps ! i)) \<in> {None, Some None}"
      "doomed (ps ! i) = None" "needed (ps ! i) = None" "closing (ps ! i)"
  shows "advances env x k Disconnect (\<lambda>s' p. threads_inv s0 left ks s' (ps[i := p])) (erase_user k) s"
  unfolding erase_user_def
proof (rule advances_piece)
  have P: "(ps ! i)\<lparr>mine := None, seated := None\<rparr> = (settled None)\<lparr>closing := True\<rparr>"
    using p by (cases "ps ! i") (simp add: settled_def)
  show "ok (Inr (s\<lparr>userMap := am_erase k (userMap s)\<rparr>))
      (\<lambda>s'. threads_inv s0 left ks s' (ps[i := (settled None)\<lparr>closing := True\<rparr>]))"
    using threads_inv_erase_user [OF inv i k p(1,2), unfolded P] by simp
  show "deed_at env x k Disconnect Done ((settled None)\<lparr>closing := True\<rparr>)"
    by (intro deed_at.finish) simp_all
qed

section \<open>One step\<close>

lemma request_room: "request_ok STATUS_WAITING ROOM_MAKE m \<Longrightarrow> nul_free m \<and> length m < NAME_SIZE"
  by (simp add: request_ok_def Let_def)

lemma deed_step:
  assumes sql: "sql_ok env" and inv: "threads_inv s0 left ks s ps" and i: "i < length ps" and k: "ks ! i = k"
    and x: "deed_fits left x d" and at: "deed_at env x k d t (ps ! i)"
  shows "advances env x k d (\<lambda>s' p. threads_inv s0 left ks s' (ps[i := p])) t s"
  using at
proof (cases rule: deed_at.cases)
  case start
  then show ?thesis using advances_start [OF sql inv i k x] by simp
next
  case (said t dir msg rn sock st)
  then show ?thesis using advances_said [OF inv] by simp
next
  case (finish y)
  have "threads_inv s0 left ks s (ps[i := ps ! i])" using inv by simp
  with at show ?thesis unfolding finish(1) by (auto simp: advances_def)
next
  case (insert vo m a)
  then show ?thesis using advances_insert [OF inv] by simp
next
  case (claim m a b vo nick)
  then show ?thesis using advances_claim [OF inv i k] x by (auto simp: deed_fits_def)
next
  case (store m a b nick u)
  then show ?thesis using advances_store [OF inv i k] x by (auto simp: deed_fits_def)
next
  case (update m a b nick)
  then show ?thesis using advances_update [OF inv] x by (auto simp: deed_fits_def)
next
  case (log m a b nick)
  then show ?thesis using advances_log [OF inv] x by (auto simp: deed_fits_def)
next
  case (out_id u m)
  then show ?thesis using advances_out_id [OF inv i k] x by (auto simp: deed_fits_def)
next
  case (out_session u m)
  then show ?thesis using advances_out_session [OF inv i k] x by (auto simp: deed_fits_def)
next
  case (out_log u m)
  then show ?thesis using advances_out_log [OF inv] x by (auto simp: deed_fits_def)
next
  case (make m)
  then show ?thesis using advances_make [OF inv i k] x request_room [of m] by (auto simp: deed_fits_def)
next
  case (made u m)
  then show ?thesis using advances_made [OF inv i k] x request_room [of m] by (auto simp: deed_fits_def)
next
  case (find u m)
  then show ?thesis using advances_find [OF inv i] x by (auto simp: deed_fits_def)
next
  case (found u m)
  then show ?thesis using advances_found [OF inv i k] by simp
next
  case (push u m)
  then show ?thesis using advances_push [OF inv i k] x by (auto simp: deed_fits_def)
next
  case (leave u)
  then show ?thesis using advances_leave [OF inv i k] x by (auto simp: deed_fits_def)
next
  case (reset u rn t)
  then show ?thesis using advances_reset [OF inv i k] by simp
next
  case (drop rn t)
  then show ?thesis using advances_drop [OF inv i k] by simp
next
  case live
  then show ?thesis using advances_live [OF inv i k] by simp
next
  case session
  then show ?thesis using advances_session [OF inv i k] x by (auto simp: deed_fits_def)
next
  case (ident u)
  then show ?thesis using advances_ident [OF inv i k] by simp
next
  case (quit u)
  then show ?thesis using advances_quit [OF inv i k] x by (auto simp: deed_fits_def)
next
  case (quit_leave u)
  then show ?thesis using advances_quit_leave [OF inv i k] x by (auto simp: deed_fits_def)
next
  case erase
  then show ?thesis using advances_erase [OF inv i k] by simp
qed

section \<open>At the end\<close>

lemma mixed_done:
  assumes "threads_inv s0 left ks s ps" and "\<forall>p\<in>set ps. (\<exists>y. p = settled y) \<or> p = (settled None)\<lparr>closing := True\<rparr>"
  shows "world_ok s"
proof -
  note d = threads_invD [OF assms(1)]
  let ?U = "map_of (userMap s)"
  have p: "(\<exists>y. ps ! i = settled y) \<or> ps ! i = (settled None)\<lparr>closing := True\<rparr>" if "i < length ks" for i
    using assms(2) d(2) that by simp
  have m: "?U (ks ! i) = mine (ps ! i)" "closing (ps ! i) \<or> map_of (liveSocket s) (ks ! i) \<noteq> None"
    if "i < length ks" for i
    using threads_inv_thread(2,3) [OF assms(1), of i] that d(2) by simp_all
  have V: "view named ks ps ?U = ?U" "view seated ks ps ?U = ?U"
    using p m(1) by (intro view_same [OF d(1,2)]; fastforce)+
  have "doomed (ps ! i) = None" if "i < length ks" for i using p [OF that] by auto
  moreover have "\<forall>rn r. map_of (roomMap s) rn = Some r \<and> userList r = [] \<longrightarrow>
      (\<exists>i<length ks. doomed (ps ! i) = Some rn)"
    using assms(1) by (simp add: threads_inv_def Let_def)
  ultimately have "\<forall>rn r. map_of (roomMap s) rn = Some r \<longrightarrow> userList r \<noteq> []"
    by (metis option.distinct(1))
  then have rooms: "rooms_ok ?U (map_of (roomMap s))" using d(8) V(2) by (simp add: rooms_seats)
  have "map_of (liveSocket s) k \<noteq> None" if "?U k = Some u" for k u
  proof (cases "k \<in> set ks")
    case True
    then obtain i where i: "i < length ks" "k = ks ! i" by (auto simp: in_set_conv_nth)
    with that m(1) have "mine (ps ! i) = Some u" by simp
    with p [OF i(1)] have "\<not> closing (ps ! i)" by auto
    with m(2) [OF i(1)] i(2) show ?thesis by simp
  qed (use assms(1) that in \<open>auto simp: threads_inv_def Let_def\<close>)
  then have "users_ok ?U (map_of (liveSocket s))"
    using assms(1) by (auto simp: users_ok_def threads_inv_def Let_def)
  then show ?thesis
    using d V(1) rooms by (simp add: world_ok_def sessions_ok_def maps_ok_def)
qed

lemma deed_at_Done:
  "deed_at env x k d Done p \<Longrightarrow> effect d (map_option row x) (map_option row (mine p)) \<and>
     ((\<exists>y. p = settled y) \<or> p = (settled None)\<lparr>closing := True\<rparr>)"
  by (erule deed_at.cases) (cases d; auto simp: cut_defs piece_def piece_with_def Let_def)+

lemma chat_of_row: "chat_of s k = map_option row (map_of (userMap s) k)"
  by (simp add: chat_of_def row_def [abs_def])

end
