(* ===== verification/Quiet.thy ===== *)
theory Quiet
  imports Cut
begin

text \<open>
  Handlers that only ask: whispers, lists of rooms, users and friends, adding and deleting friends, lines in a
  room, the log of commands. Between any two of their pieces other threads may log in and out, and open,
  enter and leave rooms; each piece finds what it needs as long as the client's own session stays, and
  changes no session.
\<close>

section \<open>Tasks that change no session\<close>

text \<open>What such a handler relies on: the client has the session \<open>x\<close>, and the strings of all sessions end.\<close>

definition readable :: "PER_HANDLE_DATA option \<Rightarrow> SOCKET \<Rightarrow> 'db server \<Rightarrow> bool" where
  "readable x k s \<longleftrightarrow> map_of (userMap s) k = x \<and> (\<forall>u\<in>snd ` set (userMap s). user_ok u)"

inductive asks :: "PER_HANDLE_DATA option \<Rightarrow> SOCKET \<Rightarrow> 'db server task \<Rightarrow> bool" for x k where
  Done: "asks x k Done"
| Piece: "(\<And>s. readable x k s \<Longrightarrow> \<exists>s' t. f s = Inr (s', t) \<and> same_sessions s s' \<and> asks x k t) \<Longrightarrow>
    asks x k (Piece f)"

inductive_cases asks_PieceE: "asks x k (Piece f)"

lemma asks_step:
  assumes "asks x k t" and "readable x k s"
  shows "ok (step t s) (\<lambda>(s', t'). same_sessions s s' \<and> asks x k t')"
  using assms by (cases t) (fastforce simp: step_def intro: asks.Done elim: asks_PieceE)+

lemma asks_with:
  assumes "\<And>s. readable x k s \<Longrightarrow> ok (f s) (\<lambda>(y, s'). same_sessions s s' \<and> asks x k (t y))"
  shows "asks x k (piece_with f t)"
  unfolding piece_with_def using assms by (intro asks.Piece) (fastforce simp: ok_iff)

lemma asks_piece:
  assumes "\<And>s. readable x k s \<Longrightarrow> ok (f s) (same_sessions s)" and "asks x k t"
  shows "asks x k (piece f t)"
  unfolding piece_def using assms by (intro asks.Piece) (fastforce simp: ok_iff)

lemma asks_say: "asks x k t \<Longrightarrow> asks x k (say dir msg rn sock st t)"
  unfolding say_def by (rule asks_piece) simp_all

lemma asks_seq:
  assumes "asks x k t" and "asks x k u"
  shows "asks x k (seq_task t u)"
  using assms
proof (induction rule: asks.induct)
  case (Piece f)
  then show ?case unfolding seq_Piece by (intro asks.Piece) fastforce
qed simp

lemmas asks_intros = asks.Done asks_say asks_seq

lemma asks_bind:
  assumes "ok m (\<lambda>_. True)" and "\<And>x. m = Inr x \<Longrightarrow> ok (f x) P"
  shows "ok (sbind m f) P"
  using assms by (cases m) simp_all

section \<open>What they find\<close>

lemma readable_user:
  assumes "readable (Some u) k s"
  shows "map_of (userMap s) k = Some u" "user_ok u" "session_names k s = Inr (uname u, uid u)"
    "am_at (userMap s) k = Inr u"
proof -
  show u: "map_of (userMap s) k = Some u" using assms by (simp add: readable_def)
  have "(k, u) \<in> set (userMap s)" by (rule map_of_SomeD [OF u])
  then show "user_ok u" using assms by (force simp: readable_def)
  with u show "session_names k s = Inr (uname u, uid u)" "am_at (userMap s) k = Inr u"
    by (simp_all add: session_names_def am_at_def user_ok_cstr)
qed

lemma readable_find:
  assumes "readable x k s"
  shows "find_user name (userMap s) = Inr (List.find (\<lambda>(k, u). uname u = name) (userMap s))"
  using assms user_okD(1) by (intro find_user_ok) (auto simp: readable_def)

section \<open>The handlers\<close>

lemma lists_ask:
  "asks (Some u) k (RoomInfo_task k)" "asks (Some u) k (RoomUserInfo_task k)"
proof -
  show "asks (Some u) k (RoomInfo_task k)"
    unfolding RoomInfo_task_def RoomInfo_list_def
    by (rule asks_with) (auto simp: readable_user intro!: asks_intros asks_with)
  have "ok (user_lines m_userList (userMap s)) (\<lambda>_. True)" if "readable (Some u) k s" for s
    using that by (intro user_lines_ok) (simp add: readable_def)
  then show "asks (Some u) k (RoomUserInfo_task k)"
    unfolding RoomUserInfo_task_def RoomUserInfo_list_def
    by (intro asks_piece asks_with asks_bind) (auto simp: readable_user intro!: asks_intros)
qed

lemma Whisper_asks:
  assumes m: "nul_free message" "length message < BUF_SIZE" "length (pieces (CHR 0x5C) message) \<le> 2"
  shows "asks (Some u) k (Whisper_task k message)"
proof -
  let ?ts = "pieces (CHR 0x5C) message"
  have t: "tokens 2 message = Inr ?ts" using tokens_pieces [OF m(1,2)] m(3) by simp
  have find: "asks (Some u) k (Whisper_find k name msg)" for name msg
    unfolding Whisper_find_def
    by (rule asks_with)
      (auto simp: readable_find readable_user user_ok_cstr intro!: asks_intros split: option.split)
  show ?thesis
    unfolding Whisper_task_def
    by (rule asks_with) (auto simp: readable_user t split: list.split intro!: asks_intros find)
qed

lemma FriendInfo_asks:
  fixes env :: "'db cfg"
  assumes sql: "sql_ok env"
  shows "asks (Some u) k (FriendInfo_task env k)"
proof -
  have "ok (friend_lines vec (userMap s)) (\<lambda>_. True)"
    if "readable (Some u) k s" "\<forall>v\<in>set vec. friend_ok v" for vec and s :: "'db server"
    using that by (intro friend_lines_ok) (simp_all add: readable_def)
  then have list: "asks (Some u) k (FriendInfo_list k vec :: 'db server task)" if "\<forall>v\<in>set vec. friend_ok v" for vec
    using that unfolding FriendInfo_list_def by (intro asks_with asks_bind) (auto intro!: asks_intros)
  have "NUL \<in> set (userId_v (setUserId (uid u) RelationVo_new))" by (simp add: vo_defs vo_simps)
  note sel = selectFriends_ok [OF sql this]
  have "asks (Some u) k (FriendInfo_select env k (uid u))"
    unfolding FriendInfo_select_def
  proof (rule asks_with)
    fix s :: "'db server"
    show "ok (sbind (selectFriends env (setUserId (uid u) RelationVo_new) (database s))
        (\<lambda>(vec, db). Inr (vec, s\<lparr>database := db\<rparr>)))
      (\<lambda>(vec, s'). same_sessions s s' \<and> asks (Some u) k
         (if vec = [] then say SEND_ME (m_friendList @ m_noFriends) '''' k STATUS_WAITING Done
          else FriendInfo_list k vec :: 'db server task))"
      unfolding ok_sbind by (rule ok_mono [OF sel]) (auto intro!: asks_intros list)
  qed
  then show ?thesis
    unfolding FriendInfo_task_def by (intro asks_with) (auto simp: readable_user)
qed

lemma FriendAdd_asks:
  fixes env :: "'db cfg"
  assumes sql: "sql_ok env" and m: "length message < NAME_SIZE"
  shows "asks (Some u) k (FriendAdd_task env k message)"
proof -
  have insert: "asks (Some u) k (FriendAdd_insert env k message vo)" if "\<And>db. ok (InsertRelation env vo db) (\<lambda>_. True)" for vo
    unfolding FriendAdd_insert_def using that by (intro asks_with asks_bind) (auto intro!: asks_intros)
  have "asks (Some u) k (FriendAdd_find env k message (uid u))"
    unfolding FriendAdd_find_def
  proof (rule asks_with)
    fix s :: "'db server"
    obtain vo2 db' to where f: "findUserId env (setNickName message RelationVo_new) (database s) = Inr (vo2, db')"
      "getRelationto (RelationVo_copy vo2) = Inr to"
      "\<And>db. to \<noteq> '''' \<Longrightarrow> ok (InsertRelation env (setRelationcode 1 (setUserId (uid u) (RelationVo_copy vo2))) db) (\<lambda>_. True)"
      using FriendAdd_finds [OF sql m, of "database s"] by (metis nul_free_upto_nul)
    then show "ok (sbind (findUserId env (setNickName message RelationVo_new) (database s)) (\<lambda>(vo2, db).
          let vo2 = RelationVo_copy vo2 in
          sbind (getRelationto vo2) (\<lambda>to.
          Inr (if to = '''' then None else Some (setRelationcode 1 (setUserId (uid u) vo2)), s\<lparr>database := db\<rparr>))))
        (\<lambda>(r, s'). same_sessions s s' \<and> asks (Some u) k (case r of
          None \<Rightarrow> say SEND_ME m_noSuchId '''' k STATUS_WAITING Done
        | Some vo2 \<Rightarrow> FriendAdd_insert env k message vo2))"
      by (auto simp: Let_def intro!: asks_intros insert)
  qed
  then show ?thesis
    unfolding FriendAdd_task_def by (intro asks_with) (auto simp: readable_user)
qed

lemma FriendDelete_asks:
  fixes env :: "'db cfg"
  assumes m: "length message < NAME_SIZE"
  shows "asks (Some u) k (FriendDelete_task env k message)"
proof -
  have "asks (Some u) k (FriendDelete_delete env k message (uid u))"
    unfolding FriendDelete_delete_def Let_def
  proof (rule asks_with)
    fix s :: "'db server"
    let ?vo = "setNickName message (setRelationcode 1 (setUserId (uid u) RelationVo_new))"
    show "ok (sbind (DeleteRelation env ?vo (database s)) (\<lambda>(res, db). Inr (res, s\<lparr>database := db\<rparr>)))
      (\<lambda>(res, s'). same_sessions s s' \<and> asks (Some u) k (say SEND_ME
         (if res \<noteq> -1 then message @ m_friendDeleted else m_friendDeleteFailed @ waitRoomMessage)
         '''' k STATUS_WAITING Done))"
      using FriendDelete_deletes [OF m, of "uid u" env "database s"] by (auto simp: ok_iff intro!: asks_intros)
  qed
  then show ?thesis
    unfolding FriendDelete_task_def by (intro asks_with) (auto simp: readable_user)
qed

lemma log_asks:
  assumes "nul_free message" "length message < 512" "length name < NAME_SIZE"
  shows "asks x k (StatusWait_log env st direction message name)"
  unfolding StatusWait_log_def
proof (rule asks_piece)
  fix s :: "'a server"
  obtain db' where "log_direction env name st direction message s = Inr (s\<lparr>database := db'\<rparr>)"
    by (rule log_direction_ok [OF assms])
  then show "ok (log_direction env name st direction message s) (same_sessions s)" by simp
qed (rule asks.Done)

lemma ChatLine_asks:
  assumes u: "user_ok u" and m: "nul_free message" "length message < 512"
  shows "asks (Some u) k (ChatLine_task env k message (uname u))"
proof -
  let ?vo = "setStatus 0 (setDirection 0 (setMsg message (setRoomName (rname u) (setNickName (uname u) LogVo_new))))"
  have "NUL \<in> set (nickName_v ?vo) \<and> NUL \<in> set (roomName_v ?vo) \<and> NUL \<in> set (msg_v ?vo)"
    using user_ok_lengths [OF u] m by (simp add: vo_defs vo_simps NUL_in_strncpy NAME_SIZE_def)
  then have "ok (InsertChatting env ?vo db) (\<lambda>_. True)" for db by (simp add: logs_ok)
  then have log: "asks (Some u) k (ChatLine_log env (uname u) message (rname u))"
    unfolding ChatLine_log_def Let_def by (intro asks_piece asks_bind) (auto intro!: asks_intros)
  show ?thesis
    unfolding ChatLine_task_def say_room_def
    by (auto simp: readable_user user_ok_cstr u intro!: asks_with asks_intros log)
qed

text \<open>The requests that change no session, with arguments their handlers have room for.\<close>

definition only_asks :: "ClientStatus \<Rightarrow> Direction \<Rightarrow> string \<Rightarrow> bool" where
  "only_asks st d m \<longleftrightarrow> request_ok st d m \<and>
     (case st of
        STATUS_LOGOUT \<Rightarrow> d \<notin> {USER_MAKE, USER_ENTER, EXIT}
      | STATUS_WAITING \<Rightarrow> d \<notin> {ROOM_MAKE, ROOM_ENTER, LOG_OUT}
      | STATUS_CHATTIG \<Rightarrow> m \<noteq> s_out
      | _ \<Rightarrow> False)"

lemma direction_asks:
  assumes sql: "sql_ok env" and req: "only_asks STATUS_WAITING d m"
    and d: "d \<in> {ROOM_MAKE, ROOM_ENTER, WHISPER, ROOM_INFO, ROOM_USER_INFO, FRIEND_INFO,
                 FRIEND_ADD, FRIEND_GO, FRIEND_DELETE}"
  shows "asks (Some u) k (direction_task env d k m)"
proof -
  have m: "nul_free m" "length m < BUF_SIZE"
    using req by (simp_all add: only_asks_def request_ok_def BUF_SIZE_def Let_def)
  from d req consider "d = WHISPER" "length (pieces (CHR 0x5C) m) \<le> 2" | "d = ROOM_INFO" | "d = ROOM_USER_INFO"
    | "d = FRIEND_INFO" | "d = FRIEND_ADD" "length m < NAME_SIZE" | "d = FRIEND_DELETE" "length m < NAME_SIZE"
    by (auto simp: only_asks_def request_ok_def Let_def)
  then show ?thesis
    by cases
      (simp_all add: direction_task_def Whisper_asks [OF m] lists_ask FriendInfo_asks [OF sql]
        FriendAdd_asks [OF sql] FriendDelete_asks)
qed

lemma StatusWait_asks:
  assumes sql: "sql_ok env" and req: "only_asks STATUS_WAITING d m" and u: "user_ok u"
  shows "asks (Some u) k (StatusWait_task env k STATUS_WAITING d m)"
proof -
  have log: "asks (Some u) k (StatusWait_log env STATUS_WAITING d m (uname u))"
    using req user_ok_lengths(1) [OF u] by (intro log_asks) (simp_all add: only_asks_def request_ok_def Let_def)
  have "asks (Some u) k (seq_task (direction_task env d k m) (StatusWait_log env STATUS_WAITING d m (uname u)))"
    if "d \<in> {ROOM_MAKE, ROOM_ENTER, WHISPER, ROOM_INFO, ROOM_USER_INFO, FRIEND_INFO,
             FRIEND_ADD, FRIEND_GO, FRIEND_DELETE}"
    by (rule asks_seq [OF direction_asks [OF sql req that] log])
  moreover have "d \<noteq> LOG_OUT" using req by (simp add: only_asks_def)
  ultimately show ?thesis
    unfolding StatusWait_task_def using log
    by (intro asks_with) (auto simp: readable_user intro: asks_intros)
qed

lemma request_asks:
  assumes sql: "sql_ok env" and req: "only_asks st d m"
    and x: "st \<noteq> STATUS_LOGOUT \<Longrightarrow> \<exists>u. x = Some u \<and> user_ok u"
  shows "asks x k (request_task env k st d m)"
proof -
  consider "st = STATUS_LOGOUT" | "st = STATUS_WAITING" | "st = STATUS_CHATTIG"
    using req by (cases st) (simp_all add: only_asks_def)
  then show ?thesis
  proof cases
    case 1
    then show ?thesis
      using req by (auto simp: only_asks_def request_task_def StatusLogout_task_def intro!: asks_intros)
  next
    case 2
    then obtain u where "x = Some u" "user_ok u" using x by blast
    then show ?thesis using StatusWait_asks [OF sql req [unfolded 2]] 2 by (simp add: request_task_def)
  next
    case 3
    then obtain u where u: "x = Some u" "user_ok u" using x by blast
    have "m \<noteq> s_out" "d \<noteq> FILE_SEND" "nul_free m" "length m < 512"
      using req 3 by (simp_all add: only_asks_def request_ok_def Let_def)
    then show ?thesis
      using 3 u ChatLine_asks [OF u(2)]
      by (auto simp: request_task_def StatusChat_task_def readable_user intro!: asks_with asks_intros)
  qed
qed

end
