(* ===== verification/Requests.thy ===== *)
theory Requests
  imports Mixed Quiet
begin

text \<open>
  Any mixture of requests and disconnections at the same time, one for each of any number of connections: the
  threads are what \<open>WorkThread\<close> and \<open>RecvThread\<close> call, cut at the locks, the log of commands included. The
  parts that change sessions are those of \<open>Mixed\<close>, the others those of \<open>Quiet\<close>.
\<close>

section \<open>Requests\<close>

text \<open>A request of a client is a direction and a text; \<open>None\<close> is the end of its connection.\<close>

type_synonym request = "(Direction \<times> string) option"

definition request_thread :: "'db cfg \<Rightarrow> 'db server \<Rightarrow> SOCKET \<Rightarrow> request \<Rightarrow> 'db server task" where
  "request_thread env s k r =
     (case r of
        None \<Rightarrow> ClientExit_task env True k
      | Some (d, m) \<Rightarrow> request_task env k (GetStatus k s) d m)"

definition threads :: "'db cfg \<Rightarrow> 'db server \<Rightarrow> (SOCKET \<times> request) list \<Rightarrow> 'db server task list" where
  "threads env s reqs = map (\<lambda>(k, r). request_thread env s k r) reqs"

text \<open>What the request changes, by the status of the client; most change nothing.\<close>

definition deed_of :: "'db server \<Rightarrow> SOCKET \<Rightarrow> request \<Rightarrow> deed option" where
  "deed_of s k r =
     (case r of
        None \<Rightarrow> Some Disconnect
      | Some (d, m) \<Rightarrow>
          (case GetStatus k s of
             STATUS_LOGOUT \<Rightarrow>
               if d = USER_MAKE then Some (Register m) else if d = USER_ENTER then Some (Login m) else None
           | STATUS_WAITING \<Rightarrow>
               if d = ROOM_MAKE then Some (MakeRoom m) else if d = ROOM_ENTER then Some (EnterRoom m)
               else if d = LOG_OUT then Some (Logout m) else None
           | STATUS_CHATTIG \<Rightarrow> if m = s_out then Some LeaveRoom else None
           | _ \<Rightarrow> None))"

text \<open>
  A live connection, and arguments the handler has room for; neither a command that \<open>WorkThread\<close> handles
  itself nor the one that ends the process.
\<close>

definition may_request :: "'db server \<Rightarrow> SOCKET \<Rightarrow> request \<Rightarrow> bool" where
  "may_request s k r \<longleftrightarrow> \<not> IsSocketDead k s \<and>
     (case r of
        None \<Rightarrow> True
      | Some (d, m) \<Rightarrow> request_ok (GetStatus k s) d m \<and> d \<notin> {CALLCOUNT, BAN} \<and>
          (GetStatus k s = STATUS_LOGOUT \<longrightarrow> d \<noteq> EXIT))"

text \<open>The rooms somebody leaves.\<close>

definition left_rooms :: "'db server \<Rightarrow> (SOCKET \<times> request) list \<Rightarrow> string set" where
  "left_rooms s reqs =
     {rn. \<exists>(k, r)\<in>set reqs. deed_of s k r \<in> {Some LeaveRoom, Some Disconnect} \<and>
        (\<exists>u. map_of (userMap s) k = Some u \<and> room_of u = Some rn)}"

text \<open>What the client is afterwards.\<close>

definition outcome :: "'db server \<Rightarrow> SOCKET \<Rightarrow> request \<Rightarrow> (string \<times> string \<times> string option) option \<Rightarrow> bool" where
  "outcome s k r y \<longleftrightarrow> (case deed_of s k r of None \<Rightarrow> y = chat_of s k | Some d \<Rightarrow> effect d (chat_of s k) y)"

section \<open>Where a thread can be\<close>

definition at_rest :: "position \<Rightarrow> bool" where
  "at_rest p \<longleftrightarrow> (\<exists>y. p = settled y) \<or> p = (settled None)\<lparr>closing := True\<rparr>"

inductive request_at ::
    "'db cfg \<Rightarrow> PER_HANDLE_DATA option \<Rightarrow> SOCKET \<Rightarrow> deed option \<Rightarrow> 'db server task \<Rightarrow> position \<Rightarrow> bool"
  for env x k where
  asking: "asks x k t \<Longrightarrow> request_at env x k None t (settled x)"
| names: "x = Some u \<Longrightarrow> (\<And>y. asks y k (r (uname u))) \<Longrightarrow>
    request_at env x k (Some d)
      (piece_with (\<lambda>s. sbind (session_names k s) (\<lambda>(name, _). Inr (name, s)))
         (\<lambda>name. seq_task (thread_of env k d) (r name))) (settled x)"
| doing: "deed_at env x k d t p \<Longrightarrow> (\<And>y. asks y k r) \<Longrightarrow> request_at env x k (Some d) (seq_task t r) p"
| resting: "effect d (map_option row x) (map_option row (mine p)) \<Longrightarrow> at_rest p \<Longrightarrow> asks (mine p) k r \<Longrightarrow>
    request_at env x k (Some d) r p"

lemma seq_task_Done [simp]: "seq_task t Done = t"
proof (induction t)
  case (Piece f)
  have "seq_task u Done = u" if "f s = Inr (s', u)" for s s' u
    by (rule Piece.IH [OF rangeI [of f s], of "(s', u)"]) (simp_all add: that)
  then have "sbind (f s) (\<lambda>(s', u). Inr (s', seq_task u Done)) = f s" for s by (cases "f s") auto
  then show ?case by (simp add: seq_Piece)
qed simp

lemma seq_task_is_Done [simp]: "seq_task t r = Done \<longleftrightarrow> t = Done \<and> r = Done"
  by (cases t) (simp_all add: seq_Piece)

lemma step_seq:
  "step (seq_task t r) s = (if t = Done then step r s else sbind (step t s) (\<lambda>(s', t'). Inr (s', seq_task t' r)))"
  by (cases t) (simp_all add: step_def seq_Piece)

lemma request_at_Done:
  assumes "request_at env x k d Done p"
  shows "at_rest p" "case d of None \<Rightarrow> mine p = x | Some d \<Rightarrow> effect d (map_option row x) (map_option row (mine p))"
  using assms
  by (cases rule: request_at.cases; force simp: at_rest_def piece_with_def eq_commute [of Done] dest: deed_at_Done)+

section \<open>One piece\<close>

lemma threads_inv_readable:
  assumes "threads_inv s0 left ks s ps" and "i < length ps"
  shows "readable (mine (ps ! i)) (ks ! i) s"
proof -
  have "user_ok u" if "(k, u) \<in> set (userMap s)" for k u
  proof -
    have "map_of (userMap s) k = Some u" using that um.entry_iff [OF threads_invD(3) [OF assms(1)]] by simp
    with assms(1) show ?thesis by (simp add: threads_inv_def Let_def)
  qed
  with threads_inv_thread(2) [OF assms] show ?thesis by (auto simp: readable_def)
qed

lemma request_step:
  assumes sql: "sql_ok env" and inv: "threads_inv s0 left ks s ps" and i: "i < length ps" and k: "ks ! i = k"
    and x: "\<And>d. dd = Some d \<Longrightarrow> deed_fits left x d" and at: "request_at env x k dd t (ps ! i)"
  shows "ok (step t s) (\<lambda>(s', t'). \<exists>p. request_at env x k dd t' p \<and> threads_inv s0 left ks s' (ps[i := p]))"
proof -
  have here: "readable (mine (ps ! i)) k s" using threads_inv_readable [OF inv i] k by simp
  have stay: "threads_inv s0 left ks s' (ps[i := ps ! i])" if "same_sessions s s'" for s'
    using threads_inv_quiet [OF inv that] by simp
  have rest: "ok (step r s) (\<lambda>(s', t'). \<exists>p. request_at env x k dd t' p \<and> threads_inv s0 left ks s' (ps[i := p]))"
    if r: "asks (mine (ps ! i)) k r" and d: "dd = Some d" "effect d (map_option row x) (map_option row (mine (ps ! i)))"
      "at_rest (ps ! i)" for r d
    using asks_step [OF r here] stay request_at.resting [of d x "ps ! i" k _ env] d by (fastforce elim!: ok_mono)
  show ?thesis
    using at
  proof (cases rule: request_at.cases)
    case asking
    then show ?thesis
      using asks_step [of x k t s] here stay request_at.asking [of x k _ env] by (fastforce elim!: ok_mono)
  next
    case (names u r d)
    have u: "session_names k s = Inr (uname u, uid u)" using here names(3,4) by (auto intro: readable_user)
    have "request_at env x k (Some d) (seq_task (thread_of env k d) (r (uname u))) (settled x)"
      by (intro request_at.doing deed_at.start names(5))
    with u names stay [of s] show ?thesis by auto
  next
    case (doing d u r)
    show ?thesis
    proof (cases "u = Done")
      case True
      from deed_at_Done [OF doing(3) [unfolded True]] rest [OF doing(4) doing(1)] show ?thesis
        by (simp add: doing True step_seq at_rest_def)
    next
      case False
      have "ok (step u s) (\<lambda>(s', t'). \<exists>p. deed_at env x k d t' p \<and> threads_inv s0 left ks s' (ps[i := p]))"
        using deed_step [OF sql inv i k x [OF doing(1)] doing(3)] by (simp add: advances_def)
      then show ?thesis
        using request_at.doing [OF _ doing(4)] False by (fastforce simp: doing step_seq elim!: ok_mono)
    qed
  next
    case (resting d)
    then show ?thesis by (intro rest)
  qed
qed

abbreviation requests_inv :: "'db cfg \<Rightarrow> 'db server \<Rightarrow> (SOCKET \<times> request) list \<Rightarrow> 'db server \<Rightarrow> position list \<Rightarrow> bool" where
  "requests_inv env s0 reqs s ps \<equiv>
     sql_ok env \<and> threads_inv s0 (left_rooms s0 reqs) (map fst reqs) s ps \<and>
     (\<forall>(k, r)\<in>set reqs. \<forall>d. deed_of s0 k r = Some d \<longrightarrow> deed_fits (left_rooms s0 reqs) (map_of (userMap s0) k) d)"

abbreviation thread_at :: "'db cfg \<Rightarrow> 'db server \<Rightarrow> (SOCKET \<times> request) list \<Rightarrow> nat \<Rightarrow> 'db server task \<Rightarrow> position \<Rightarrow> bool" where
  "thread_at env s0 reqs i \<equiv>
     request_at env (map_of (userMap s0) (fst (reqs ! i))) (fst (reqs ! i)) (deed_of s0 (fst (reqs ! i)) (snd (reqs ! i)))"

lemma requests_step:
  assumes inv: "requests_inv env s0 reqs s ps" and i: "i < length ps" and at: "thread_at env s0 reqs i t (ps ! i)"
  shows "ok (step t s) (\<lambda>(s', t'). \<exists>p. thread_at env s0 reqs i t' p \<and> requests_inv env s0 reqs s' (ps[i := p]))"
proof -
  have th: "threads_inv s0 (left_rooms s0 reqs) (map fst reqs) s ps" and sql: "sql_ok env" using inv by simp_all
  have "i < length reqs" using threads_inv_thread(1) [OF th i] by simp
  then have k: "map fst reqs ! i = fst (reqs ! i)" "reqs ! i \<in> set reqs" by simp_all
  have fits: "deed_fits (left_rooms s0 reqs) (map_of (userMap s0) (fst (reqs ! i))) d"
    if "deed_of s0 (fst (reqs ! i)) (snd (reqs ! i)) = Some d" for d
    using inv k(2) that unfolding case_prod_unfold by blast
  show ?thesis using request_step [OF sql th i k(1) fits at] inv by (auto elim!: ok_mono)
qed

interpretation req: protocol "requests_inv env s0 reqs" "thread_at env s0 reqs"
  by unfold_locales (rule requests_step)

section \<open>From start to end\<close>

lemma request_status:
  assumes s: "world_ok s"
  shows "GetStatus k s = STATUS_LOGOUT \<and> map_of (userMap s) k = None \<or>
    (\<exists>u. map_of (userMap s) k = Some u \<and> user_ok u \<and> status u = GetStatus k s \<and>
       GetStatus k s \<in> {STATUS_WAITING, STATUS_CHATTIG})"
proof (cases "map_of (userMap s) k")
  case (Some u)
  then show ?thesis using world_user(1) [OF s Some] by (auto simp: GetStatus_def user_ok_def)
qed (simp add: GetStatus_def)

lemma request_fits:
  assumes s: "world_ok s" and r: "may_request s k r" "(k, r) \<in> set reqs"
    and room: "\<And>m. d = EnterRoom m \<Longrightarrow> m \<notin> left_rooms s reqs" and d: "deed_of s k r = Some d"
  shows "deed_fits (left_rooms s reqs) (map_of (userMap s) k) d"
proof -
  have left: "rname u \<in> left_rooms s reqs"
    if "d = LeaveRoom \<or> d = Disconnect" "map_of (userMap s) k = Some u" "status u = STATUS_CHATTIG" for u
  proof -
    have "room_of u = Some (rname u)" using that(3) by (simp add: room_of_def)
    then show ?thesis using that r(2) d unfolding left_rooms_def by fastforce
  qed
  show ?thesis
    using request_status [OF s, of k] r(1) room left d
    by (auto simp: deed_fits_def deed_of_def may_request_def split: option.splits prod.splits if_splits)
qed

lemma request_start:
  assumes sql: "sql_ok env" and s: "world_ok s" and r: "may_request s k r"
  shows "request_at env (map_of (userMap s) k) k (deed_of s k r) (request_thread env s k r) (settled (map_of (userMap s) k))"
    (is "request_at env ?x k _ _ _")
proof -
  have deed: "request_at env ?x k (Some d) (thread_of env k d) (settled ?x)" for d
    using request_at.doing [OF deed_at.start, of k Done env ?x d] by (simp add: asks.Done)
  show ?thesis
  proof (cases r)
    case None
    then show ?thesis using deed [of Disconnect] by (simp add: deed_of_def request_thread_def)
  next
    case (Some dm)
    obtain d m where dm: "dm = (d, m)" by (cases dm)
    have req: "request_ok (GetStatus k s) d m" using r Some dm by (simp add: may_request_def)
    show ?thesis
    proof (cases "deed_of s k r")
      case None
      have "only_asks (GetStatus k s) d m"
        using None r request_status [OF s, of k] Some dm
        by (auto simp: only_asks_def deed_of_def may_request_def split: if_splits)
      then have "asks ?x k (request_task env k (GetStatus k s) d m)"
        using request_status [OF s, of k] by (intro request_asks [OF sql]) auto
      then show ?thesis using None Some dm by (simp add: request_thread_def request_at.asking)
    next
      case (Some e)
      consider "GetStatus k s = STATUS_LOGOUT" "d = USER_MAKE" "e = Register m"
        | "GetStatus k s = STATUS_LOGOUT" "d = USER_ENTER" "e = Login m"
        | u where "GetStatus k s = STATUS_WAITING" "d = ROOM_MAKE \<and> e = MakeRoom m \<or> d = ROOM_ENTER \<and> e = EnterRoom m"
            "?x = Some u" "user_ok u"
        | "GetStatus k s = STATUS_WAITING" "d = LOG_OUT" "e = Logout m"
        | "GetStatus k s = STATUS_CHATTIG" "m = s_out" "e = LeaveRoom"
        using Some \<open>r = Some dm\<close> dm request_status [OF s, of k] by (auto simp: deed_of_def split: if_splits)
      then have "request_at env ?x k (Some e) (request_task env k (GetStatus k s) d m) (settled ?x)"
      proof cases
        case (3 u)
        have "asks y k (StatusWait_log env STATUS_WAITING d m (uname u))" for y
          using req 3(1) user_ok_lengths(1) [OF 3(4)] by (intro log_asks) (simp_all add: request_ok_def Let_def)
        note names = request_at.names [where r = "StatusWait_log env STATUS_WAITING d m", OF 3(3) this]
        have "request_task env k STATUS_WAITING d m = piece_with (\<lambda>s. sbind (session_names k s) (\<lambda>(name, _). Inr (name, s)))
            (\<lambda>name. seq_task (thread_of env k e) (StatusWait_log env STATUS_WAITING d m name))"
          using 3(2) by (auto simp: request_task_def StatusWait_task_def direction_task_def int_of_direction_def direction_table_def)
        then show ?thesis using names [of env e] 3(1) by simp
      next
        case 4
        then have "request_task env k (GetStatus k s) d m = thread_of env k e"
          by (simp add: request_task_def StatusWait_task_def LogOut_task_def int_of_direction_def direction_table_def)
        then show ?thesis by (simp add: deed)
      qed (use deed [of e] in \<open>simp_all add: request_task_def StatusLogout_task_def direction_task_def StatusChat_task_def\<close>)
      then show ?thesis using Some \<open>r = Some dm\<close> dm by (simp add: request_thread_def)
    qed
  qed
qed

lemma requests_start:
  assumes s: "world_ok s" and ks: "distinct (map fst reqs)" and live: "\<forall>(k, r)\<in>set reqs. \<not> IsSocketDead k s"
  shows "threads_inv s left (map fst reqs) s (map (\<lambda>(k, r). settled (map_of (userMap s) k)) reqs)"
proof -
  let ?ps = "map (\<lambda>(k, r). settled (map_of (userMap s) k)) reqs" and ?U = "map_of (userMap s)"
  have pos: "?ps ! i = settled (?U (map fst reqs ! i))" if "i < length reqs" for i
    using that by (simp add: split_beta)
  have V: "view sel (map fst reqs) ?ps ?U = ?U" if "\<And>x. sel (settled x) = x" for sel
    using pos that by (intro view_same [OF ks]) simp_all
  have live: "map_of (liveSocket s) (map fst reqs ! i) \<noteq> None" if i: "i < length reqs" for i
    using live nth_mem [OF i] i unfolding case_prod_unfold by (auto simp: IsSocketDead_def)
  have rooms: "seats_ok ?U (map_of (roomMap s))" "\<forall>rn r. \<not> (map_of (roomMap s) rn = Some r \<and> userList r = [])"
    using world_okD(6) [OF s] by (auto simp: rooms_seats)
  have others: "\<forall>k. k \<notin> set (map fst reqs) \<longrightarrow> ?U k = ?U k \<and> (?U k \<noteq> None \<longrightarrow> map_of (liveSocket s) k \<noteq> None)"
    using world_user(2) [OF s] by auto
  show ?thesis
    unfolding threads_inv_def Let_def
    using ks world_okD(1-3,5,7) [OF s] pos live rooms others world_user(1) [OF s]
    by (simp add: V maps_ok_def) auto
qed

lemma request_left: "pieces_left 9 (request_thread env s k r)"
  using request_task_left tasks_left(7) [THEN pieces_left_mono, of 9]
  by (auto simp: request_thread_def split: option.split)


text \<open>Carl logs in, Ann asks for her friends, Bob leaves his room, and a fourth client disconnects.\<close>

definition demo_requests :: "(SOCKET \<times> request) list" where
  "demo_requests = [(7, Some (USER_ENTER, carl_enters)), (5, Some (FRIEND_INFO, '''')), (6, Some (DIRECTION_MAX, s_out)), (8, None)]"

lemma demo_requests_ok:
  "\<forall>(k, r)\<in>set demo_requests. may_request demo_world4 k r \<and>
     (\<forall>m. deed_of demo_world4 k r = Some (EnterRoom m) \<longrightarrow> m \<notin> left_rooms demo_world4 demo_requests)"
proof -
  have "request_ok STATUS_LOGOUT USER_ENTER carl_enters" using two_logins_ok(3) by (simp add: two_logins_def)
  moreover have "request_ok STATUS_WAITING FRIEND_INFO ''''" "request_ok STATUS_CHATTIG DIRECTION_MAX s_out"
    by (simp_all add: request_ok_def nul_free_def s_out_def Let_def)
  moreover have "\<not> IsSocketDead k demo_world4" if "k \<in> {5, 6, 7, 8}" for k
    using that by (auto simp: IsSocketDead_def demo_world4_def InsertLiveSocket_def sm_insert_def)
  ultimately show ?thesis
    by (simp add: demo_requests_def may_request_def deed_of_def GetStatus_def demo_world4_simps(1))
qed


end
