(* ===== verification/Ranking.thy ===== *)
theory Ranking
  imports Handlers
begin

text \<open>
  \<open>src/Chat/Server/RankVo.*\<close>, \<open>Redis.*\<close>: the ranking on a Redis server. The library (\<open>hiredis\<close>) and the
  server behind it are a parameter; what a command answers is data. Nothing calls these classes yet.
\<close>

section \<open>RankVo\<close>

record RankVo =
  rankName :: carray
  point :: int

text \<open>
  \<open>raw\<close> is what the array held before: the constructors write its first ten bytes only.
\<close>

definition RankVo_new :: "carray \<Rightarrow> RankVo" where
  "RankVo_new raw = \<lparr>rankName = strncpy_into 10 '''' raw, point = 0\<rparr>"

definition RankVo_copy :: "carray \<Rightarrow> RankVo \<Rightarrow> cpp_error + RankVo" where
  "RankVo_copy raw vo =
     sbind (strncpy_src 10 (rankName vo)) (\<lambda>n. Inr \<lparr>rankName = strncpy_into 10 n raw, point = point vo\<rparr>)"

definition rank_setNickName :: "string \<Rightarrow> RankVo \<Rightarrow> RankVo" where
  "rank_setNickName s vo = vo\<lparr>rankName := strncpy 20 s\<rparr>"

definition rank_getNickName :: "RankVo \<Rightarrow> cpp_error + string" where
  "rank_getNickName vo = cstr (rankName vo)"

definition setPoint :: "int \<Rightarrow> RankVo \<Rightarrow> RankVo" where
  "setPoint i vo = vo\<lparr>point := i\<rparr>"

definition getPoint :: "RankVo \<Rightarrow> int" where
  "getPoint vo = point vo"

section \<open>Commands\<close>

text \<open>
  A reply: the text, if there is one, and the elements of an array. A connection: none, one whose context the
  constructor has freed after an error, or an open one.
\<close>

datatype redisReply = Reply (reply_str: "string option") (element: "redisReply list")

datatype conn_state = NoConn | FreedConn | OpenConn

record 'r redis =
  conn :: conn_state
  db_of :: 'r

text \<open>\<open>redisConnect\<close> returns no context, one with an error, or a connection.\<close>

datatype connected = NoContext | ContextError | Connected

definition Redis_new :: "connected \<Rightarrow> 'r \<Rightarrow> 'r redis" where
  "Redis_new c db =
     \<lparr>conn = (case c of NoContext \<Rightarrow> NoConn | ContextError \<Rightarrow> FreedConn | Connected \<Rightarrow> OpenConn), db_of = db\<rparr>"

text \<open>\<open>sprintf\<close> into \<open>char query[512]\<close>.\<close>

definition query_text :: "string \<Rightarrow> cpp_error + string" where
  "query_text q = (if length q < 512 then Inr q else Inl IndexOverflow)"

text \<open>
  The query is handed to \<open>redisCommand\<close> as its format. A directive in it takes an argument that was
  never passed; \<open>%%\<close> and a last \<open>%\<close> take none.
\<close>

fun directive :: "string \<Rightarrow> bool" where
  "directive (c # d # s) =
     (if c = CHR ''%'' then if d = CHR ''%'' then directive s else True else directive (d # s))"
| "directive _ = False"

type_synonym 'r command = "'r \<Rightarrow> string \<Rightarrow> 'r \<times> redisReply option"

definition redis_do :: "'r command \<Rightarrow> string \<Rightarrow> 'r redis \<Rightarrow> cpp_error + redisReply option \<times> 'r redis" where
  "redis_do cmd q r =
     sbind (query_text q) (\<lambda>q.
     case conn r of
       NoConn \<Rightarrow> Inl NullPointer
     | FreedConn \<Rightarrow> Inl HeapOverflow
     | OpenConn \<Rightarrow>
         if directive q then Inl Uninitialised
         else (let (db, reply) = cmd (db_of r) q in Inr (reply, r\<lparr>db_of := db\<rparr>)))"

text \<open>The strings are cut at a NUL by \<open>c_str\<close>.\<close>

definition Redis_Set :: "'r command \<Rightarrow> string \<Rightarrow> string \<Rightarrow> 'r redis \<Rightarrow> cpp_error + 'r redis" where
  "Redis_Set cmd key v r =
     sbind (redis_do cmd (''set '' @ upto_nul key @ '' '' @ upto_nul v) r) (\<lambda>(_, r). Inr r)"

text \<open>\<open>resp->str\<close> where there is no reply, or one without a text, is a null pointer.\<close>

definition chars_of :: "redisReply option \<Rightarrow> cpp_error + string" where
  "chars_of reply =
     (case reply of
        None \<Rightarrow> Inl NullPointer
      | Some e \<Rightarrow> (case reply_str e of None \<Rightarrow> Inl NullPointer | Some s \<Rightarrow> Inr (upto_nul s)))"

definition Redis_Get :: "'r command \<Rightarrow> string \<Rightarrow> 'r redis \<Rightarrow> cpp_error + string \<times> 'r redis" where
  "Redis_Get cmd key r =
     sbind (redis_do cmd (''get '' @ upto_nul key) r) (\<lambda>(resp, r).
     sbind (chars_of resp) (\<lambda>s. Inr (s, r)))"

definition Redis_Zadd :: "'r command \<Rightarrow> string \<Rightarrow> string \<Rightarrow> int \<Rightarrow> 'r redis \<Rightarrow> cpp_error + 'r redis" where
  "Redis_Zadd cmd key v num r =
     sbind (redis_do cmd
       (''zincrby '' @ upto_nul key @ '' '' @ decimal_int (int32_of num) @ '' '' @ upto_nul v) r) (\<lambda>(_, r). Inr r)"

definition Redis_Zincr :: "'r command \<Rightarrow> string \<Rightarrow> string \<Rightarrow> 'r redis \<Rightarrow> cpp_error + 'r redis" where
  "Redis_Zincr cmd key v r =
     sbind (redis_do cmd (''zincrby '' @ upto_nul key @ '' 1 '' @ upto_nul v) r) (\<lambda>(_, r). Inr r)"

section \<open>std::stoi\<close>

definition is_digit :: "char \<Rightarrow> bool" where
  "is_digit c \<longleftrightarrow> 48 \<le> (of_char c :: nat) \<and> (of_char c :: nat) \<le> 57"

definition is_space :: "char \<Rightarrow> bool" where
  "is_space c \<longleftrightarrow> (of_char c :: nat) = 32 \<or> 9 \<le> (of_char c :: nat) \<and> (of_char c :: nat) \<le> 13"

definition digits_value :: "string \<Rightarrow> nat" where
  "digits_value s = foldl (\<lambda>n c. 10 * n + (of_char c - 48)) 0 s"

text \<open>
  Leading space, a sign, then the longest run of digits. Without digits it throws \<open>invalid_argument\<close>,
  outside \<open>int\<close> \<open>out_of_range\<close>; nothing catches either.
\<close>

definition stoi :: "string \<Rightarrow> cpp_error + int" where
  "stoi s =
     (let t = dropWhile is_space s;
          neg = (t \<noteq> '''' \<and> hd t = CHR ''-'');
          u = (if t \<noteq> '''' \<and> (hd t = CHR ''-'' \<or> hd t = CHR ''+'') then tl t else t);
          ds = takeWhile is_digit u;
          v = (if neg then - int (digits_value ds) else int (digits_value ds)) in
      if ds = '''' \<or> v < - (2 ^ 31) \<or> 2 ^ 31 \<le> v then Inl OutOfRange else Inr v)"

section \<open>The ranking\<close>

text \<open>
  The elements are taken in pairs; \<open>push_back\<close> copies the object. After an odd number of elements the
  loop reads one past the array.
\<close>

fun rank_rows :: "carray \<Rightarrow> redisReply list \<Rightarrow> cpp_error + RankVo list" where
  "rank_rows raw [] = Inr []"
| "rank_rows raw [e] = sbind (chars_of (Some e)) (\<lambda>_. Inl HeapOverflow)"
| "rank_rows raw (e # f # es) =
     sbind (chars_of (Some e)) (\<lambda>n.
     sbind (chars_of (Some f)) (\<lambda>p.
     sbind (stoi p) (\<lambda>i.
     sbind (RankVo_copy raw (setPoint i (rank_setNickName n (RankVo_new raw)))) (\<lambda>vo.
     sbind (rank_rows raw es) (\<lambda>vec. Inr (vo # vec))))))"

definition Redis_Zrevrange ::
    "'r command \<Rightarrow> carray \<Rightarrow> string \<Rightarrow> int \<Rightarrow> 'r redis \<Rightarrow> cpp_error + RankVo list \<times> 'r redis" where
  "Redis_Zrevrange cmd raw key num r =
     sbind (redis_do cmd (''zrevrange '' @ upto_nul key @ '' 0 '' @ decimal_int (int32_of num) @ '' withscores'') r)
       (\<lambda>(resp, r).
     case resp of
       None \<Rightarrow> Inl NullPointer
     | Some e \<Rightarrow> sbind (rank_rows raw (element e)) (\<lambda>vec. Inr (vec, r)))"

section \<open>Decimal numbers\<close>

lemma digit_char:
  assumes "d < 10"
  shows "of_char (char_of (48 + d) :: char) = 48 + (d :: nat)"
  using assms by simp

lemma decimal_good: "(\<forall>c\<in>set (decimal n). is_digit c) \<and> decimal n \<noteq> '''' \<and> digits_value (decimal n) = n"
proof (induction n rule: decimal.induct)
  case (1 n)
  have "n mod 10 < 10" by simp
  note d = digit_char [OF this]
  show ?case
  proof (cases "n < 10")
    case True
    then show ?thesis using digit_char [OF True]
      by (simp add: decimal.simps [of n] is_digit_def digits_value_def)
  next
    case False
    with 1 have "digits_value (decimal (n div 10)) = n div 10" "\<forall>c\<in>set (decimal (n div 10)). is_digit c" by simp_all
    then show ?thesis using False d
      by (subst (1 2 3) decimal.simps) (simp add: is_digit_def digits_value_def del: decimal.simps)
  qed
qed

declare decimal.simps [simp del]

lemma stoi_decimal:
  assumes "- (2 ^ 31) \<le> i" "i < 2 ^ 31"
  shows "stoi (decimal_int i) = Inr i"
proof -
  have tw: "takeWhile is_digit (decimal n) = decimal n" for n using decimal_good by simp
  have sp: "dropWhile is_space (decimal n) = decimal n" "hd (decimal n) \<noteq> CHR ''-''" "hd (decimal n) \<noteq> CHR ''+''" for n
  proof -
    obtain c cs where c: "decimal n = c # cs" using decimal_good [of n] by (cases "decimal n") auto
    then have "is_digit c" using decimal_good [of n] by simp
    then show "dropWhile is_space (decimal n) = decimal n" "hd (decimal n) \<noteq> CHR ''-''"
        "hd (decimal n) \<noteq> CHR ''+''"
      using c by (auto simp: is_digit_def is_space_def)
  qed
  show ?thesis
  proof (cases "i < 0")
    case True
    have "dropWhile is_space (''-'' @ decimal (nat (- i))) = ''-'' @ decimal (nat (- i))" by (simp add: is_space_def)
    with True assms show ?thesis
      using decimal_good [of "nat (- i)"] by (simp add: stoi_def decimal_int_def Let_def tw)
  next
    case False
    with assms show ?thesis
      using decimal_good [of "nat i"] by (simp add: stoi_def decimal_int_def Let_def tw sp)
  qed
qed

section \<open>The ranking comes back\<close>

lemma length_decimal_int: "- (2 ^ 31) \<le> i \<Longrightarrow> i < 2 ^ 31 \<Longrightarrow> length (decimal_int i) \<le> 11"
proof -
  assume i: "- (2 ^ 31) \<le> i" "i < 2 ^ 31"
  then have n: "nat i < 10 ^ 10" "nat (- i) < 10 ^ 10" by simp_all
  have "length (decimal (nat i)) \<le> 10" "length (decimal (nat (- i))) \<le> 10"
    using length_decimal [OF n(1)] length_decimal [OF n(2)] by simp_all
  then show ?thesis by (simp add: decimal_int_def)
qed

lemma no_directive: "CHR ''%'' \<notin> set s \<Longrightarrow> \<not> directive s"
  by (induction s rule: directive.induct) auto

lemma decimal_int_plain: "CHR ''%'' \<notin> set (decimal_int i)"
proof -
  have "CHR ''%'' \<notin> set (decimal n)" for n using decimal_good [of n] by (auto simp: is_digit_def)
  then show ?thesis by (simp add: decimal_int_def)
qed

definition zrevrange_query :: "string \<Rightarrow> int \<Rightarrow> string" where
  "zrevrange_query key num = ''zrevrange '' @ key @ '' 0 '' @ decimal_int num @ '' withscores''"

text \<open>What Redis documents as the answer: names and scores in turn.\<close>

fun ranking_reply :: "(string \<times> int) list \<Rightarrow> redisReply list" where
  "ranking_reply [] = []"
| "ranking_reply ((n, p) # ranks) = Reply (Some n) [] # Reply (Some (decimal_int p)) [] # ranking_reply ranks"

lemma RankVo_pushed:
  assumes "nul_free n" "length raw = 20"
  shows "RankVo_copy raw (setPoint p (rank_setNickName n (RankVo_new raw))) =
      Inr \<lparr>rankName = strncpy_into 10 n raw, point = p\<rparr>"
proof -
  have "strncpy_into 10 (upto_nul (strncpy 20 n)) raw = strncpy_into 10 n raw"
  proof (cases "length n < 20")
    case True
    then show ?thesis using assms by (simp add: upto_nul_strncpy)
  next
    case False
    then have "strncpy 20 n = take 20 n" by (simp add: strncpy_def)
    moreover have "nul_free (take 20 n)" using assms(1) nul_free_take by blast
    ultimately show ?thesis using False by (simp add: strncpy_into_def strncpy_def upto_nul_id min_def)
  qed
  then show ?thesis
    by (simp add: RankVo_copy_def setPoint_def rank_setNickName_def RankVo_new_def strncpy_src_def)
qed

lemma rank_rows_reply:
  assumes "\<forall>(n, p)\<in>set ranks. nul_free n \<and> - (2 ^ 31) \<le> p \<and> p < 2 ^ 31" and "length raw = 20"
  shows "rank_rows raw (ranking_reply ranks) =
    Inr (map (\<lambda>(n, p). \<lparr>rankName = strncpy_into 10 n raw, point = p\<rparr>) ranks)"
  using assms(1)
proof (induction ranks rule: ranking_reply.induct)
  case (2 n p ranks)
  have "nul_free (decimal_int p)"
    using decimal_good [of "nat p"] decimal_good [of "nat (- p)"]
    by (auto simp: nul_free_def decimal_int_def is_digit_def)
  with 2 show ?case
    using assms(2) by (simp add: chars_of_def upto_nul_id stoi_decimal RankVo_pushed)
qed simp

text \<open>
  C34: The ranking asked of a server that answers as documented, names and scores in turn: one object per
  entry, in order, with its score; a name of up to nine characters is read back as it is, a longer one
  as its first ten characters followed by whatever the array held before, without a terminator of its
  own.
\<close>

theorem ranking_roundtrip:
  assumes r: "conn r = OpenConn" and raw: "length raw = 20"
    and key: "nul_free key" "CHR ''%'' \<notin> set key" "length key < 400" and num: "- (2 ^ 31) \<le> num" "num < 2 ^ 31"
    and reply: "cmd (db_of r) (zrevrange_query key num) = (db, Some (Reply t (ranking_reply ranks)))"
    and ranks: "\<forall>(n, p)\<in>set ranks. nul_free n \<and> - (2 ^ 31) \<le> p \<and> p < 2 ^ 31"
  shows "ok (Redis_Zrevrange cmd raw key num r) (\<lambda>(vec, r'). r' = r\<lparr>db_of := db\<rparr> \<and>
    map getPoint vec = map snd ranks \<and>
    map rank_getNickName vec =
      map (\<lambda>(n, p). if length n < 10 then Inr n else cstr (take 10 n @ drop 10 raw)) ranks)"
proof -
  have q: "query_text (zrevrange_query key num) = Inr (zrevrange_query key num)"
    using length_decimal_int [OF num] key(3) by (simp add: query_text_def zrevrange_query_def)
  have "\<not> directive (zrevrange_query key num)"
    using key(2) decimal_int_plain [of num] by (intro no_directive) (simp add: zrevrange_query_def)
  moreover have "int32_of num = num" using num by (intro int32_of_id) simp_all
  ultimately have "Redis_Zrevrange cmd raw key num r =
      Inr (map (\<lambda>(n, p). \<lparr>rankName = strncpy_into 10 n raw, point = p\<rparr>) ranks, r\<lparr>db_of := db\<rparr>)"
    using r q reply rank_rows_reply [OF ranks raw] upto_nul_id [OF key(1)]
    by (simp add: Redis_Zrevrange_def redis_do_def zrevrange_query_def)
  moreover have "rank_getNickName \<lparr>rankName = strncpy_into 10 n raw, point = p\<rparr> =
      (if length n < 10 then Inr n else cstr (take 10 n @ drop 10 raw))" if "nul_free n" for n p
  proof (cases "length n < 10")
    case True
    then have "10 - length n = Suc (9 - length n)" by simp
    then have "replicate (10 - length n) NUL = NUL # replicate (9 - length n) NUL" by simp
    with True that show ?thesis
      by (simp add: rank_getNickName_def strncpy_into_def strncpy_def cstr_def upto_nul_append)
  qed (simp add: rank_getNickName_def strncpy_into_def strncpy_def)
  ultimately show ?thesis
    using ranks by (auto simp: getPoint_def)
qed

definition demo_ranking :: "(string \<times> int) list" where
  "demo_ranking = [(''choiis'', 12), (''choiinsung1207'', 7)]"

definition demo_redis :: "unit command" where
  "demo_redis db q = (db, Some (Reply None (if q = ''zrevrange pop 0 9 withscores''
     then ranking_reply demo_ranking else [])))"

theorem ranking_roundtrip_witness:
  "ok (Redis_Zrevrange demo_redis (replicate 20 CHR ''x'') ''pop'' 9 \<lparr>conn = OpenConn, db_of = ()\<rparr>) (\<lambda>(vec, r').
    map getPoint vec = [12, 7] \<and> map rank_getNickName vec = [Inr ''choiis'', Inl Unterminated])"
proof -
  have "decimal_int 9 = ''9''" by code_simp
  then have "demo_redis (db_of \<lparr>conn = OpenConn, db_of = ()\<rparr>) (zrevrange_query ''pop'' 9) =
      ((), Some (Reply None (ranking_reply demo_ranking)))"
    by (simp add: demo_redis_def zrevrange_query_def)
  then have "ok (Redis_Zrevrange demo_redis (replicate 20 CHR ''x'') ''pop'' 9 \<lparr>conn = OpenConn, db_of = ()\<rparr>)
      (\<lambda>(vec, r'). r' = \<lparr>conn = OpenConn, db_of = ()\<rparr>\<lparr>db_of := ()\<rparr> \<and>
        map getPoint vec = map snd demo_ranking \<and> map rank_getNickName vec =
        map (\<lambda>(n, p). if length n < 10 then Inr n
          else cstr (take 10 n @ drop 10 (replicate 20 CHR ''x''))) demo_ranking)"
    by (intro ranking_roundtrip) (simp_all add: demo_ranking_def nul_free_def)
  then show ?thesis by (rule ok_mono) (auto simp: demo_ranking_def cstr_def)
qed

section \<open>Where it breaks\<close>

text \<open>A connection that failed is used all the same; a key may overrun the query or be taken for a format.\<close>

lemma failed_connection:
  "length q < 512 \<Longrightarrow> redis_do cmd q (Redis_new NoContext db) = Inl NullPointer"
  "length q < 512 \<Longrightarrow> redis_do cmd q (Redis_new ContextError db) = Inl HeapOverflow"
  by (simp_all add: redis_do_def Redis_new_def query_text_def)

lemma long_key: "508 \<le> length key \<Longrightarrow> nul_free key \<Longrightarrow> Redis_Get cmd key r = Inl IndexOverflow"
  by (simp add: Redis_Get_def redis_do_def query_text_def upto_nul_id)

lemma key_is_format: "Redis_Get cmd ''%s'' (Redis_new Connected db) = Inl Uninitialised"
  by (simp add: Redis_Get_def redis_do_def Redis_new_def query_text_def upto_nul_def)

lemma key_without_value:
  assumes "conn r = OpenConn" "nul_free key" "CHR ''%'' \<notin> set key" "length key < 508"
    and "cmd (db_of r) (''get '' @ key) = (db, Some (Reply None es))"
  shows "Redis_Get cmd key r = Inl NullPointer"
  using assms no_directive [of "''get '' @ key"]
  by (simp add: Redis_Get_def redis_do_def query_text_def upto_nul_id chars_of_def)

end
