(* ===== verification/Startup.thy ===== *)
theory Startup
  imports Ranking Reach BClient ClientCorrect
begin

text \<open>
  How the programs start: the constructors of \<open>Socket.cpp\<close>, \<open>FileService.cpp\<close> and \<open>Dao.cpp\<close>, the
  first half of \<open>main\<close> in \<open>Server.cpp\<close>, \<open>main\<close> of \<open>Client.cpp\<close> up to its first receive, and the threads \<open>main\<close> of
  \<open>BClient.cpp\<close> starts. What Windows and the
  database driver answer is a parameter.
\<close>

section \<open>Sockets\<close>

text \<open>Whether \<open>WSAStartup\<close> succeeds, which ports can be bound, and whether \<open>listen\<close> succeeds.\<close>

record winsock =
  wsa_startup :: bool
  can_bind :: "string \<Rightarrow> bool"
  can_listen :: bool

definition SERVER_PORT :: string where "SERVER_PORT = ''1234''"
definition UDP_PORT :: string where "UDP_PORT = ''1236''"

text \<open>The port listened on.\<close>

definition Socket_new :: "winsock \<Rightarrow> cpp_error + string" where
  "Socket_new ws =
     (if \<not> wsa_startup ws then Inl ProcessExit
      else if \<not> can_bind ws SERVER_PORT then Inl ProcessExit
      else if \<not> can_listen ws then Inl ProcessExit
      else Inr SERVER_PORT)"

text \<open>Whether the port for files is bound; where it is not, a line on the console says so.\<close>

definition FileService_new :: "winsock \<Rightarrow> cpp_error + bool" where
  "FileService_new ws = (if \<not> wsa_startup ws then Inl ProcessExit else Inr (can_bind ws UDP_PORT))"

section \<open>The database connection\<close>

text \<open>
  \<open>conf >> w\<close> into \<open>char w[32]\<close>: space is skipped, the word is copied whatever its length. At the end of the
  file nothing is stored.
\<close>

fun read_words :: "nat \<Rightarrow> string \<Rightarrow> cpp_error + string list" where
  "read_words 0 s = Inr []"
| "read_words (Suc n) s =
     (let t = dropWhile is_space s; w = takeWhile (\<lambda>c. \<not> is_space c) t in
      if t = '''' then Inl Uninitialised
      else if 32 \<le> length w then Inl IndexOverflow
      else sbind (read_words n (dropWhile (\<lambda>c. \<not> is_space c) t)) (\<lambda>ws. Inr (w # ws)))"

definition connect_text :: "string \<Rightarrow> string \<Rightarrow> string \<Rightarrow> string \<Rightarrow> string \<Rightarrow> string" where
  "connect_text ip port db user pw =
     ''DRIVER={SQL Server};SERVER='' @ upto_nul ip @ '', '' @ upto_nul port @ ''; DATABASE='' @ upto_nul db @
     ''; UID='' @ upto_nul user @ ''; PWD='' @ upto_nul pw"

text \<open>
  \<open>conf\<close> is the file \<open>conf/SqlConnection.properties\<close>, if there is one; \<open>driver\<close> what \<open>SQLDriverConnect\<close>
  returns. The result: the connection string and whether the connection succeeded.
\<close>

definition Dao_new :: "string option \<Rightarrow> (string \<Rightarrow> int) \<Rightarrow> cpp_error + string \<times> bool" where
  "Dao_new conf driver =
     (case conf of
        None \<Rightarrow> Inl ProcessExit
      | Some text \<Rightarrow>
          sbind (read_words 5 text) (\<lambda>ws.
          case ws of
            [ip, port, db, user, pw] \<Rightarrow>
              let c = connect_text ip port db user pw in
              if length c < 1024 then Inr (c, driver c = 1) else Inl IndexOverflow
          | _ \<Rightarrow> Inl Uninitialised))"

lemma read_words_props: "read_words n s = Inr ws \<Longrightarrow> length ws = n \<and> (\<forall>w\<in>set ws. length w < 32)"
  by (induction n s arbitrary: ws rule: read_words.induct) (auto simp: sbind_Inr_iff Let_def split: if_splits)

text \<open>The connection string always fits its array.\<close>

lemma Dao_new_reads:
  assumes "read_words 5 text = Inr ws"
  shows "\<exists>ip port db user pw. ws = [ip, port, db, user, pw] \<and>
    Dao_new (Some text) driver =
      Inr (connect_text ip port db user pw, driver (connect_text ip port db user pw) = 1)"
proof -
  have w: "length ws = 5" "\<forall>w\<in>set ws. length w < 32" using read_words_props [OF assms] by simp_all
  then obtain ip port db user pw where ws: "ws = [ip, port, db, user, pw]"
    by (auto simp: eval_nat_numeral length_Suc_conv)
  have "length (upto_nul x) < 32" if "x \<in> {ip, port, db, user, pw}" for x
    using length_upto_nul_le [of x] w(2) that ws by fastforce
  from this [of ip] this [of port] this [of db] this [of user] this [of pw] have "length (connect_text ip port db user pw) < 1024"
    by (simp add: connect_text_def)
  then show ?thesis using assms ws by (simp add: Dao_new_def Let_def)
qed

text \<open>A file with the words separated by single spaces, and anything after them that starts with one.\<close>

lemma read_words_join:
  assumes "\<forall>w\<in>set ws. w \<noteq> '''' \<and> length w < 32 \<and> (\<forall>c\<in>set w. \<not> is_space c)"
  shows "read_words (length ws) (concat (map (\<lambda>w. w @ '' '') ws) @ rest) = Inr ws"
  using assms
proof (induction ws)
  case (Cons w ws)
  let ?r = "concat (map (\<lambda>w. w @ '' '') ws) @ rest"
  have w: "\<forall>c\<in>set w. \<not> is_space c" "w \<noteq> ''''" using Cons.prems by simp_all
  have sp: "is_space CHR '' ''" by (simp add: is_space_def)
  have t: "dropWhile is_space (w @ '' '' @ ?r) = w @ '' '' @ ?r" using w by (cases w) auto
  have "takeWhile (\<lambda>c. \<not> is_space c) (w @ '' '' @ ?r) = w"
    "dropWhile (\<lambda>c. \<not> is_space c) (w @ '' '' @ ?r) = '' '' @ ?r"
    using w(1) sp by (simp_all add: takeWhile_append2 dropWhile_append2)
  moreover have "read_words n ('' '' @ s) = read_words n s" for n s using sp by (cases n) simp_all
  ultimately show ?case using Cons t w(2) by (simp add: Let_def)
qed simp

section \<open>The server\<close>

text \<open>How many threads of each kind.\<close>

record thread_counts =
  recv_threads :: nat
  work_threads :: nat
  send_threads :: nat

text \<open>
  The object \<open>businessService\<close>, with its \<open>FileService\<close>, is made before \<open>main\<close>. Whether the port for files
  or the database could be opened is printed, and otherwise ignored.
\<close>

definition main_start ::
    "winsock \<Rightarrow> string option \<Rightarrow> (string \<Rightarrow> int) \<Rightarrow> nat \<Rightarrow> net \<Rightarrow> udp \<Rightarrow> 'db \<Rightarrow>
     cpp_error + 'db process \<times> thread_counts" where
  "main_start ws conf driver cpus n u db =
     sbind (FileService_new ws) (\<lambda>_.
     sbind (Socket_new ws) (\<lambda>_.
     sbind (Dao_new conf driver) (\<lambda>_.
     Inr (start n u db,
          \<lparr>recv_threads = cpus, work_threads = 2 * cpus, send_threads = (cpus * 5) div 3\<rparr>))))"

text \<open>
  C35: The server starts exactly when the socket library is there, its port can be bound and listened on, and
  the configuration file has five words that fit their arrays, whatever the database and the port for files
  do; it then is in the state from which the invariant is shown, with at least one thread of each kind.
\<close>

theorem server_starts:
  assumes "0 < brk" and "\<forall>a. length (buffer (ios a)) = BUF_SIZE" and "0 < cpus"
  shows "if wsa_startup ws \<and> can_bind ws SERVER_PORT \<and> can_listen ws \<and>
        (\<exists>t w. conf = Some t \<and> read_words 5 t = Inr w)
    then ok (main_start ws conf driver cpus (start_net mem ios brk) u db) (\<lambda>(p, th).
      server_ok p \<and> (\<forall>k. chat_of (srv p) k = None \<and> IsSocketDead k (srv p)) \<and>
      0 < recv_threads th \<and> 0 < work_threads th \<and> 0 < send_threads th)
    else \<exists>e. main_start ws conf driver cpus (start_net mem ios brk) u db = Inl e"
proof (cases "wsa_startup ws \<and> can_bind ws SERVER_PORT \<and> can_listen ws \<and>
    (\<exists>t w. conf = Some t \<and> read_words 5 t = Inr w)")
  case True
  then obtain t w where "conf = Some t" "read_words 5 t = Inr w" by blast
  with Dao_new_reads [of t w driver] obtain r where "Dao_new conf driver = Inr r" by auto
  with True start_ok [OF assms(1,2), of mem u db] assms(3) show ?thesis
    by (auto simp: main_start_def FileService_new_def Socket_new_def start_def chat_of_def IsSocketDead_def)
next
  case False
  have "\<exists>e. main_start ws conf driver cpus (start_net mem ios brk) u db = Inl e"
  proof (cases "\<exists>t w. conf = Some t \<and> read_words 5 t = Inr w")
    case True
    with False show ?thesis by (auto simp: main_start_def FileService_new_def Socket_new_def)
  next
    case False
    then have "\<exists>e. Dao_new conf driver = Inl e"
      by (cases conf; cases "read_words 5 (the conf)") (auto simp: Dao_new_def)
    then show ?thesis by (auto simp: main_start_def FileService_new_def Socket_new_def)
  qed
  then show ?thesis unfolding if_not_P [OF False] .
qed

definition demo_winsock :: winsock where
  "demo_winsock = \<lparr>wsa_startup = True, can_bind = (\<lambda>p. p = SERVER_PORT), can_listen = True\<rparr>"

definition demo_conf :: string where
  "demo_conf = ''10.0.0.1 1433 chat sa secret''"

theorem server_starts_witness:
  "ok (main_start demo_winsock (Some demo_conf) (\<lambda>_. -1) 4 (start_net (\<lambda>_. NUL) (\<lambda>_. zero_io) 1)
      \<lparr>udp_in = [], udp_out = [], disk = []\<rparr> ()) (\<lambda>(p, th).
     server_ok p \<and> 0 < send_threads th)"
proof -
  have "\<exists>w. read_words 5 demo_conf = Inr w"
    by (simp add: demo_conf_def is_space_def eval_nat_numeral Let_def)
  then have "\<exists>t w. Some demo_conf = Some t \<and> read_words 5 t = Inr w" by blast
  then show ?thesis
    using server_starts [of 1 "\<lambda>_. zero_io" 4 demo_winsock "Some demo_conf" "\<lambda>_. -1" "\<lambda>_. NUL"
      "\<lparr>udp_in = [], udp_out = [], disk = []\<rparr>" "()"]
    by (auto simp: demo_winsock_def zero_io_def elim!: ok_mono)
qed

section \<open>The console client\<close>

text \<open>What the client needs of the network: the socket library, and which calls of \<open>connect\<close> succeed.\<close>

record cl_winsock =
  cl_wsa_startup :: bool
  connects :: "nat \<Rightarrow> bool"

text \<open>
  \<open>while (1)\<close> around \<open>connect\<close>: how many calls fail before one succeeds; \<open>None\<close> when all of them do.
\<close>

partial_function (option) connect_loop :: "(nat \<Rightarrow> bool) \<Rightarrow> nat \<Rightarrow> nat option" where
  "connect_loop up n = (if up n then Some n else connect_loop up (Suc n))"

text \<open>
  \<open>main\<close>: the socket, the connection, the two UDP sockets, whose outcome nobody looks at, the three
  threads, the first receive. The result: the client, and the calls of \<open>connect\<close> that failed.
\<close>

definition cl_start ::
    "cl_winsock \<Rightarrow> (nat \<Rightarrow> char) \<Rightarrow> (nat \<Rightarrow> PER_IO_DATA) \<Rightarrow> nat \<Rightarrow> string list \<Rightarrow> SOCKET \<Rightarrow>
     cpp_error + client \<times> nat" where
  "cl_start ws mem ios brk lines sock =
     (if \<not> cl_wsa_startup ws then Inl ProcessExit
      else
        case connect_loop (connects ws) 0 of
          None \<Rightarrow> Inl Diverges
        | Some n \<Rightarrow> sbind (cl_main mem ios brk lines sock) (\<lambda>c. Inr (c, n)))"

lemma connect_loop_first:
  assumes "\<forall>i<k. \<not> up (n + i)" and "up (n + k)"
  shows "connect_loop up n = Some (n + k)"
  using assms
proof (induction k arbitrary: n)
  case (Suc k)
  have "\<not> up n" using Suc.prems(1) by force
  moreover have "connect_loop up (Suc n) = Some (Suc n + k)" using Suc.prems by (intro Suc.IH) auto
  ultimately show ?case by (subst connect_loop.simps) simp
qed (subst connect_loop.simps, simp)

lemma connect_loop_hit: "connect_loop up n = Some m \<Longrightarrow> up m"
  by (rule connect_loop.raw_induct [where P = "\<lambda>up n m. up m"]) (auto split: if_splits)

lemma connect_loop_first_up:
  assumes "\<exists>i. up i"
  shows "\<exists>n. connect_loop up 0 = Some n \<and> up n \<and> (\<forall>i<n. \<not> up i)"
proof -
  obtain n where n: "up n" "\<forall>i<n. \<not> up i" using assms exists_least_iff [of up] by blast
  then have "connect_loop up 0 = Some (0 + n)" by (intro connect_loop_first) simp_all
  with n show ?thesis by auto
qed

lemma connect_loop_never: "\<forall>i. \<not> up i \<Longrightarrow> connect_loop up 0 = None"
  using connect_loop_hit [of up 0] by (cases "connect_loop up 0") auto

text \<open>
  C36: The client gets to its first receive exactly when the socket library is there and some call of \<open>connect\<close>
  succeeds; the first one that does is the last one made, everything typed is still to be read, and the
  client is in the state from which its other properties start. Without a server it calls \<open>connect\<close> for ever.
\<close>

theorem client_starts:
  assumes "0 < brk"
  shows "if \<not> cl_wsa_startup ws then cl_start ws mem ios brk lines sock = Inl ProcessExit
    else if \<forall>i. \<not> connects ws i then cl_start ws mem ios brk lines sock = Inl Diverges
    else ok (cl_start ws mem ios brk lines sock) (\<lambda>(c, n). connects ws n \<and> (\<forall>i<n. \<not> connects ws i) \<and>
      (\<exists>i. cl_ready c {} i {} \<and> wire (cl_net c) = [WSARecv sock i]) \<and>
      keyboard c = lines \<and> clientStatus c = status_int STATUS_INIT)"
proof (cases "\<exists>i. connects ws i")
  case True
  then obtain n where n: "connect_loop (connects ws) 0 = Some n" "connects ws n" "\<forall>i<n. \<not> connects ws i"
    using connect_loop_first_up [of "connects ws"] by blast
  obtain c i where c: "cl_main mem ios brk lines sock = Inr c" "cl_ready c {} i {}" "wire (cl_net c) = [WSARecv sock i]"
      "keyboard c = lines" "clientStatus c = status_int STATUS_INIT"
    using cl_main_ok [OF assms, of mem ios lines sock] unfolding ok_iff by blast
  have "\<exists>i. cl_ready c {} i {} \<and> wire (cl_net c) = [WSARecv sock i]" using c(2,3) by blast
  then show ?thesis using True n c(1,4,5) by (auto simp: cl_start_def)
next
  case False
  then show ?thesis by (simp add: cl_start_def connect_loop_never)
qed

theorem client_starts_witness:
  "ok (cl_start \<lparr>cl_wsa_startup = True, connects = (\<lambda>i. 3 \<le> i)\<rparr> (\<lambda>_. NUL) (\<lambda>_. zero_io) 9 [''1''] 4) (\<lambda>(c, n). n = 3)"
proof -
  let ?ws = "\<lparr>cl_wsa_startup = True, connects = (\<lambda>i. 3 \<le> i)\<rparr>"
  have some: "\<not> (\<forall>i. \<not> connects ?ws i)" by (auto intro: exI [of _ 3])
  from client_starts [of 9 ?ws "\<lambda>_. NUL" "\<lambda>_. zero_io" "[''1'']" 4]
  have "ok (cl_start ?ws (\<lambda>_. NUL) (\<lambda>_. zero_io) 9 [''1''] 4) (\<lambda>(c, n). connects ?ws n \<and> (\<forall>i<n. \<not> connects ?ws i))"
    unfolding if_not_P [OF some] by (auto elim!: ok_mono)
  moreover have "b = 3" if "3 \<le> b" "\<forall>i<b. \<not> 3 \<le> i" for b :: nat
    using that(1) spec [OF that(2), of 3] by simp
  ultimately show ?thesis by (auto elim!: ok_mono)
qed

section \<open>The load generator\<close>

text \<open>For \<open>n\<close> bots: threads that receive, that make commands, that send them.\<close>

definition bot_threads :: "nat \<Rightarrow> nat \<times> nat \<times> nat" where
  "bot_threads n = (2 * n, min (n div 10) 10, min (n div 5) 20)"

text \<open>With fewer than ten bots nobody makes commands, with fewer than five nobody sends.\<close>

lemma few_bots_idle: "n < 10 \<Longrightarrow> fst (snd (bot_threads n)) = 0" "n < 5 \<Longrightarrow> snd (snd (bot_threads n)) = 0"
  by (simp_all add: bot_threads_def)

end
