(* ===== verification/Schema.thy ===== *)
theory Schema
  imports Dao "HOL-Library.Multiset"
begin

text \<open>
  The database the server works on: the tables of \<open>src/Chat/chatTable.sql\<close> and what the statements of
  \<open>Dao.cpp\<close> do to them. The other theories leave the SQL server open (the parameter \<open>exec\<close>);
  \<open>chat_exec\<close> is an instance of it.

  What SQL Server does with such statements is its documented behaviour: an insert that violates a
  primary key, a foreign key or the width of a column fails and changes nothing; a delete that finds no
  row returns \<open>SQL_NO_DATA\<close>; a subquery compared with \<open>=\<close> fails on more than one row. Strings are
  compared by their collation, which ignores trailing blanks: \<open>id_key\<close> and \<open>nick_key\<close> give the keys by which
  the two collations of the schema compare. The order of a result without \<open>order by\<close> is open
  (\<open>row_order\<close>), and so is how far the clock of \<open>getdate()\<close> moves between two statements (\<open>next_time\<close>).

  The table \<open>daily\<close>, the partitions and the index are used by no statement of the server.
\<close>

section \<open>Tables\<close>

record cso_id_row =
  ac_userid :: string
  ac_password :: string
  ac_nickname :: string
  ac_regdate :: nat
  ac_lastlogdate :: "nat option"
  ac_loginyn :: int
  ac_adminyn :: int

record cso_login_row =
  lo_userid :: string
  lo_logindate :: nat
  lo_nickname :: string

record cso_direction_row =
  di_nickname :: string
  di_logdate :: nat
  di_status :: int
  di_direction :: int
  di_message :: string

record cso_chatting_row =
  ch_nickname :: string
  ch_logdate :: nat
  ch_roomname :: string
  ch_message :: string

record cso_relation_row =
  rl_from :: string
  rl_to :: string
  rl_code :: int
  rl_regdate :: nat

record cso_filerecv_row =
  fr_nickname :: string
  fr_filename :: string
  fr_regdate :: nat
  fr_bytes :: int

record tables =
  cso_id :: "cso_id_row list"
  cso_login :: "cso_login_row list"
  cso_direction :: "cso_direction_row list"
  cso_chatting :: "cso_chatting_row list"
  cso_relation :: "cso_relation_row list"
  cso_filerecv :: "cso_filerecv_row list"
  getdate :: nat

text \<open>What the schema leaves to the SQL server.\<close>

record sql_server =
  id_key :: "string \<Rightarrow> string"
  nick_key :: "string \<Rightarrow> string"
  row_order :: "(nat \<Rightarrow> string) list \<Rightarrow> (nat \<Rightarrow> string) list"
  next_time :: "nat \<Rightarrow> nat"

text \<open>The keys of the tables, \<open>pk_cso_id\<close> and so on.\<close>

definition pk_cso_id :: "sql_server \<Rightarrow> cso_id_row \<Rightarrow> string" where
  "pk_cso_id sq r = id_key sq (ac_userid r)"

definition pk_cso_login :: "sql_server \<Rightarrow> cso_login_row \<Rightarrow> string \<times> nat" where
  "pk_cso_login sq r = (id_key sq (lo_userid r), lo_logindate r)"

definition pk_cso_direction :: "sql_server \<Rightarrow> cso_direction_row \<Rightarrow> nat \<times> string" where
  "pk_cso_direction sq r = (di_logdate r, nick_key sq (di_nickname r))"

definition pk_cso_chatting :: "sql_server \<Rightarrow> cso_chatting_row \<Rightarrow> nat \<times> string" where
  "pk_cso_chatting sq r = (ch_logdate r, nick_key sq (ch_nickname r))"

definition pk_cso_relation :: "sql_server \<Rightarrow> cso_relation_row \<Rightarrow> string \<times> int \<times> string" where
  "pk_cso_relation sq r = (id_key sq (rl_from r), rl_code r, id_key sq (rl_to r))"

definition pk_cso_filerecv :: "sql_server \<Rightarrow> cso_filerecv_row \<Rightarrow> string \<times> nat" where
  "pk_cso_filerecv sq r = (nick_key sq (fr_nickname r), fr_regdate r)"

section \<open>Statements\<close>

text \<open>What \<open>SQLExecute\<close> returns, \<open>SQL_SUCCESS\<close>, \<open>SQL_ERROR\<close>, \<open>SQL_NO_DATA\<close>, and the fetches after it.\<close>

definition succeeds :: "'t \<Rightarrow> 't \<times> int \<times> (nat \<Rightarrow> fetch)" where
  "succeeds t = (t, 0, \<lambda>_. NO_DATA)"

definition fails :: "'t \<Rightarrow> 't \<times> int \<times> (nat \<Rightarrow> fetch)" where
  "fails t = (t, -1, \<lambda>_. NO_DATA)"

definition touches_none :: "'t \<Rightarrow> 't \<times> int \<times> (nat \<Rightarrow> fetch)" where
  "touches_none t = (t, 100, \<lambda>_. NO_DATA)"

definition result_row :: "string list \<Rightarrow> nat \<Rightarrow> string" where
  "result_row xs c = (if c < length xs then xs ! c else '''')"

lemma result_row_simps [simp]:
  "result_row (x # xs) 0 = x" "result_row (x # xs) (Suc i) = result_row xs i"
  "result_row [x, y, z] 1 = y" "result_row [x, y] 1 = y" "result_row [x, y, z] 2 = z"
  by (simp_all add: result_row_def)

definition answers :: "sql_server \<Rightarrow> string list list \<Rightarrow> 't \<Rightarrow> 't \<times> int \<times> (nat \<Rightarrow> fetch)" where
  "answers sq rs t =
     (let rows = row_order sq (map result_row rs) in
      (t, 0, \<lambda>i. if i < length rows then ROW (rows ! i) else NO_DATA))"

text \<open>Whether a row with this key can be added.\<close>

definition new_key :: "('r \<Rightarrow> 'k) \<Rightarrow> 'r \<Rightarrow> 'r list \<Rightarrow> bool" where
  "new_key key r rows \<longleftrightarrow> key r \<notin> key ` set rows"

definition sql_selectUser :: "sql_server \<Rightarrow> string \<Rightarrow> tables \<Rightarrow> tables \<times> int \<times> (nat \<Rightarrow> fetch)" where
  "sql_selectUser sq a t =
     answers sq (map (\<lambda>r. [ac_userid r, ac_password r, ac_nickname r])
       [r \<leftarrow> cso_id t. pk_cso_id sq r = id_key sq a]) t"

definition sql_UpdateUser :: "sql_server \<Rightarrow> string \<Rightarrow> tables \<Rightarrow> tables \<times> int \<times> (nat \<Rightarrow> fetch)" where
  "sql_UpdateUser sq a t =
     (if id_key sq a \<in> pk_cso_id sq ` set (cso_id t) then
        succeeds (t\<lparr>cso_id := map (\<lambda>r. if pk_cso_id sq r = id_key sq a
          then r\<lparr>ac_lastlogdate := Some (getdate t)\<rparr> else r) (cso_id t)\<rparr>)
      else touches_none t)"

definition sql_InsertUser ::
    "sql_server \<Rightarrow> string \<Rightarrow> string \<Rightarrow> string \<Rightarrow> tables \<Rightarrow> tables \<times> int \<times> (nat \<Rightarrow> fetch)" where
  "sql_InsertUser sq a b c t =
     (let r = \<lparr>ac_userid = a, ac_password = b, ac_nickname = c, ac_regdate = getdate t,
               ac_lastlogdate = None, ac_loginyn = 0, ac_adminyn = 0\<rparr> in
      if length a \<le> 10 \<and> length b \<le> 10 \<and> length c \<le> 20 \<and> new_key (pk_cso_id sq) r (cso_id t) then
        succeeds (t\<lparr>cso_id := cso_id t @ [r]\<rparr>)
      else fails t)"

definition sql_InsertLogin ::
    "sql_server \<Rightarrow> string \<Rightarrow> string \<Rightarrow> tables \<Rightarrow> tables \<times> int \<times> (nat \<Rightarrow> fetch)" where
  "sql_InsertLogin sq a c t =
     (let r = \<lparr>lo_userid = a, lo_logindate = getdate t, lo_nickname = c\<rparr> in
      if length a \<le> 10 \<and> length c \<le> 20 \<and> id_key sq a \<in> pk_cso_id sq ` set (cso_id t) \<and>
         new_key (pk_cso_login sq) r (cso_login t) then
        succeeds (t\<lparr>cso_login := cso_login t @ [r]\<rparr>)
      else fails t)"

definition sql_InsertDirection ::
    "sql_server \<Rightarrow> string \<Rightarrow> int \<Rightarrow> int \<Rightarrow> string \<Rightarrow> tables \<Rightarrow> tables \<times> int \<times> (nat \<Rightarrow> fetch)" where
  "sql_InsertDirection sq n st d m t =
     (let r = \<lparr>di_nickname = n, di_logdate = getdate t, di_status = st, di_direction = d, di_message = m\<rparr> in
      if length n \<le> 20 \<and> length m \<le> 512 \<and> new_key (pk_cso_direction sq) r (cso_direction t) then
        succeeds (t\<lparr>cso_direction := cso_direction t @ [r]\<rparr>)
      else fails t)"

definition sql_InsertChatting ::
    "sql_server \<Rightarrow> string \<Rightarrow> string \<Rightarrow> string \<Rightarrow> tables \<Rightarrow> tables \<times> int \<times> (nat \<Rightarrow> fetch)" where
  "sql_InsertChatting sq n rn m t =
     (let r = \<lparr>ch_nickname = n, ch_logdate = getdate t, ch_roomname = rn, ch_message = m\<rparr> in
      if length n \<le> 20 \<and> length rn \<le> 10 \<and> length m \<le> 512 \<and>
         new_key (pk_cso_chatting sq) r (cso_chatting t) then
        succeeds (t\<lparr>cso_chatting := cso_chatting t @ [r]\<rparr>)
      else fails t)"

text \<open>The file name is bound with 20 bytes, less than the 100 of its column.\<close>

definition sql_InsertFiles ::
    "sql_server \<Rightarrow> string \<Rightarrow> string \<Rightarrow> int \<Rightarrow> tables \<Rightarrow> tables \<times> int \<times> (nat \<Rightarrow> fetch)" where
  "sql_InsertFiles sq n fn b t =
     (let r = \<lparr>fr_nickname = n, fr_filename = fn, fr_regdate = getdate t, fr_bytes = b\<rparr> in
      if length n \<le> 20 \<and> length fn \<le> 20 \<and> new_key (pk_cso_filerecv sq) r (cso_filerecv t) then
        succeeds (t\<lparr>cso_filerecv := cso_filerecv t @ [r]\<rparr>)
      else fails t)"

definition sql_InsertRelation ::
    "sql_server \<Rightarrow> string \<Rightarrow> string \<Rightarrow> int \<Rightarrow> tables \<Rightarrow> tables \<times> int \<times> (nat \<Rightarrow> fetch)" where
  "sql_InsertRelation sq a b code t =
     (let r = \<lparr>rl_from = a, rl_to = b, rl_code = code, rl_regdate = getdate t\<rparr> in
      if length a \<le> 10 \<and> length b \<le> 10 \<and> id_key sq a \<in> pk_cso_id sq ` set (cso_id t) \<and>
         new_key (pk_cso_relation sq) r (cso_relation t) then
        succeeds (t\<lparr>cso_relation := cso_relation t @ [r]\<rparr>)
      else fails t)"

text \<open>The accounts with a nickname, which no constraint makes unique.\<close>

definition named :: "sql_server \<Rightarrow> string \<Rightarrow> tables \<Rightarrow> cso_id_row list" where
  "named sq n t = [r \<leftarrow> cso_id t. nick_key sq (ac_nickname r) = nick_key sq n]"

definition sql_findUserId :: "sql_server \<Rightarrow> string \<Rightarrow> tables \<Rightarrow> tables \<times> int \<times> (nat \<Rightarrow> fetch)" where
  "sql_findUserId sq n t =
     answers sq (map (\<lambda>r. [ac_userid r, ac_nickname r]) (named sq n t)) t"

text \<open>The accounts that are friends of \<open>a\<close>, with the relation: the join of the two selects.\<close>

definition friends_join :: "sql_server \<Rightarrow> string \<Rightarrow> tables \<Rightarrow> (cso_relation_row \<times> cso_id_row) list" where
  "friends_join sq a t =
     [(l, r) \<leftarrow> List.product (cso_relation t) (cso_id t).
        id_key sq (rl_to l) = pk_cso_id sq r \<and> id_key sq (rl_from l) = id_key sq a \<and> rl_code l = 1]"

definition sql_selectFriends :: "sql_server \<Rightarrow> string \<Rightarrow> tables \<Rightarrow> tables \<times> int \<times> (nat \<Rightarrow> fetch)" where
  "sql_selectFriends sq a t =
     answers sq (map (\<lambda>(l, r). [rl_from l, rl_to l, ac_nickname r]) (friends_join sq a t)) t"

definition sql_selectOneFriend ::
    "sql_server \<Rightarrow> string \<Rightarrow> string \<Rightarrow> tables \<Rightarrow> tables \<times> int \<times> (nat \<Rightarrow> fetch)" where
  "sql_selectOneFriend sq a n t =
     answers sq (map (\<lambda>(l, r). [rl_from l, rl_to l, ac_nickname r])
       [(l, r) \<leftarrow> friends_join sq a t. nick_key sq (ac_nickname r) = nick_key sq n]) t"

definition sql_DeleteRelation ::
    "sql_server \<Rightarrow> string \<Rightarrow> int \<Rightarrow> string \<Rightarrow> tables \<Rightarrow> tables \<times> int \<times> (nat \<Rightarrow> fetch)" where
  "sql_DeleteRelation sq a code n t =
     (case map ac_userid (named sq n t) of
        [] \<Rightarrow> touches_none t
      | [b] \<Rightarrow>
          let k = (id_key sq a, code, id_key sq b) in
          if k \<in> pk_cso_relation sq ` set (cso_relation t) then
            succeeds (t\<lparr>cso_relation := [l \<leftarrow> cso_relation t. pk_cso_relation sq l \<noteq> k]\<rparr>)
          else touches_none t
      | _ \<Rightarrow> fails t)"

text \<open>
  The statement is recognised by its text. \<open>Dao.cpp\<close> has no others; what the server would say to them is of
  no concern.
\<close>

definition run_stmt :: "sql_server \<Rightarrow> stmt \<Rightarrow> tables \<Rightarrow> tables \<times> int \<times> (nat \<Rightarrow> fetch)" where
  "run_stmt sq st t =
     (case params st of
        [SqlText a] \<Rightarrow>
          if query st = q_selectUser then sql_selectUser sq a t
          else if query st = q_UpdateUser then sql_UpdateUser sq a t
          else if query st = q_findUserId then sql_findUserId sq a t
          else if query st = q_selectFriends then sql_selectFriends sq a t
          else fails t
      | [SqlText a, SqlText b] \<Rightarrow>
          if query st = q_InsertLogin then sql_InsertLogin sq a b t
          else if query st = q_selectOneFriend then sql_selectOneFriend sq a b t
          else fails t
      | [SqlText a, SqlText b, SqlText c] \<Rightarrow>
          if query st = q_InsertUser then sql_InsertUser sq a b c t
          else if query st = q_InsertChatting then sql_InsertChatting sq a b c t
          else fails t
      | [SqlText a, SqlText b, SqlInt i] \<Rightarrow>
          if query st = q_InsertRelation then sql_InsertRelation sq a b i t
          else if query st = q_InsertFiles then sql_InsertFiles sq a b i t
          else fails t
      | [SqlText a, SqlInt i, SqlText b] \<Rightarrow>
          if query st = q_DeleteRelation then sql_DeleteRelation sq a i b t else fails t
      | [SqlText a, SqlInt i, SqlInt j, SqlText b] \<Rightarrow>
          if query st = q_InsertDirection then sql_InsertDirection sq a i j b t else fails t
      | _ \<Rightarrow> fails t)"

definition chat_exec :: "sql_server \<Rightarrow> tables \<Rightarrow> stmt \<Rightarrow> tables \<times> int \<times> (nat \<Rightarrow> fetch)" where
  "chat_exec sq t st =
     (let (t, res, f) = run_stmt sq st t in (t\<lparr>getdate := next_time sq (getdate t)\<rparr>, res, f))"

section \<open>Every statement keeps the constraints\<close>

text \<open>
  What \<open>chatTable.sql\<close> demands of the tables: primary keys, foreign keys, and columns that hold no more
  than they are declared with.
\<close>

definition pk :: "('r \<Rightarrow> 'k) \<Rightarrow> 'r list \<Rightarrow> bool" where
  "pk key rows \<longleftrightarrow> distinct (map key rows)"

definition keys_ok :: "sql_server \<Rightarrow> tables \<Rightarrow> bool" where
  "keys_ok sq t \<longleftrightarrow> pk (pk_cso_id sq) (cso_id t) \<and> pk (pk_cso_login sq) (cso_login t) \<and>
     pk (pk_cso_direction sq) (cso_direction t) \<and> pk (pk_cso_chatting sq) (cso_chatting t) \<and>
     pk (pk_cso_relation sq) (cso_relation t) \<and> pk (pk_cso_filerecv sq) (cso_filerecv t)"

definition references_ok :: "sql_server \<Rightarrow> tables \<Rightarrow> bool" where
  "references_ok sq t \<longleftrightarrow>
     (\<forall>r\<in>set (cso_login t). id_key sq (lo_userid r) \<in> pk_cso_id sq ` set (cso_id t)) \<and>
     (\<forall>r\<in>set (cso_relation t). id_key sq (rl_from r) \<in> pk_cso_id sq ` set (cso_id t))"

definition columns_ok :: "tables \<Rightarrow> bool" where
  "columns_ok t \<longleftrightarrow>
     (\<forall>r\<in>set (cso_id t). length (ac_userid r) \<le> 10 \<and> length (ac_password r) \<le> 10 \<and> length (ac_nickname r) \<le> 20) \<and>
     (\<forall>r\<in>set (cso_login t). length (lo_userid r) \<le> 10 \<and> length (lo_nickname r) \<le> 20) \<and>
     (\<forall>r\<in>set (cso_direction t). length (di_nickname r) \<le> 20 \<and> length (di_message r) \<le> 512) \<and>
     (\<forall>r\<in>set (cso_chatting t). length (ch_nickname r) \<le> 20 \<and> length (ch_roomname r) \<le> 10 \<and> length (ch_message r) \<le> 512) \<and>
     (\<forall>r\<in>set (cso_relation t). length (rl_from r) \<le> 10 \<and> length (rl_to r) \<le> 10) \<and>
     (\<forall>r\<in>set (cso_filerecv t). length (fr_nickname r) \<le> 20 \<and> length (fr_filename r) \<le> 100)"

definition schema_ok :: "sql_server \<Rightarrow> tables \<Rightarrow> bool" where
  "schema_ok sq t \<longleftrightarrow> keys_ok sq t \<and> references_ok sq t \<and> columns_ok t"

lemma pk_simps [simp]:
  "pk key []" "pk key (rows @ [r]) \<longleftrightarrow> pk key rows \<and> new_key key r rows"
  "pk key rows \<Longrightarrow> pk key (filter p rows)"
  by (auto simp: pk_def new_key_def distinct_map_filter)

lemma pk_map [simp]: "(\<And>r. key (f r) = key r) \<Longrightarrow> pk key (map f rows) \<longleftrightarrow> pk key rows"
  by (simp add: pk_def comp_def)

lemma pk_one:
  assumes "pk key rows" "r \<in> set rows"
  shows "[x \<leftarrow> rows. key x = key r] = [r]"
  using assms
proof (induction rows)
  case (Cons x rows)
  then show ?case by (cases "x = r") (auto simp: pk_def image_iff filter_empty_conv)
qed simp

lemmas stmt_results = succeeds_def fails_def touches_none_def answers_def Let_def

lemma schema_ok_clock [simp]: "schema_ok sq (t\<lparr>getdate := n\<rparr>) = schema_ok sq t"
  by (simp add: schema_ok_def keys_ok_def references_ok_def columns_ok_def)

lemma fst_results [simp]:
  "fst (succeeds t) = t" "fst (fails t) = t" "fst (touches_none t) = t" "fst (answers sq rs t) = t"
  by (simp_all add: stmt_results)

lemma fst_selects [simp]:
  "fst (sql_selectUser sq a t) = t" "fst (sql_findUserId sq a t) = t" "fst (sql_selectFriends sq a t) = t"
  "fst (sql_selectOneFriend sq a n t) = t"
  by (simp_all add: sql_selectUser_def sql_findUserId_def sql_selectFriends_def sql_selectOneFriend_def)

lemmas schema_defs = schema_ok_def keys_ok_def references_ok_def columns_ok_def

lemma sql_UpdateUser_keys:
  "map (pk_cso_id sq) (cso_id (fst (sql_UpdateUser sq a t))) = map (pk_cso_id sq) (cso_id t)"
  "pk_cso_id sq ` set (cso_id (fst (sql_UpdateUser sq a t))) = pk_cso_id sq ` set (cso_id t)"
proof -
  have "pk_cso_id sq (if pk_cso_id sq r = id_key sq a then r\<lparr>ac_lastlogdate := l\<rparr> else r) = pk_cso_id sq r" for r l
    by (simp add: pk_cso_id_def)
  then show *: "map (pk_cso_id sq) (cso_id (fst (sql_UpdateUser sq a t))) = map (pk_cso_id sq) (cso_id t)"
    by (simp add: sql_UpdateUser_def)
  show "pk_cso_id sq ` set (cso_id (fst (sql_UpdateUser sq a t))) = pk_cso_id sq ` set (cso_id t)"
    using arg_cong [OF *, of set] by simp
qed

lemma sql_UpdateUser_keeps:
  assumes t: "schema_ok sq t"
  shows "schema_ok sq (fst (sql_UpdateUser sq a t))"
proof -
  let ?t = "fst (sql_UpdateUser sq a t)"
  have "pk (pk_cso_id sq) (cso_id ?t) = pk (pk_cso_id sq) (cso_id t)"
    by (simp only: pk_def sql_UpdateUser_keys)
  moreover have "cso_login ?t = cso_login t" "cso_direction ?t = cso_direction t" "cso_chatting ?t = cso_chatting t"
    "cso_relation ?t = cso_relation t" "cso_filerecv ?t = cso_filerecv t"
    by (simp_all add: sql_UpdateUser_def)
  moreover have "\<forall>r\<in>set (cso_id ?t). length (ac_userid r) \<le> 10 \<and> length (ac_password r) \<le> 10 \<and>
      length (ac_nickname r) \<le> 20"
    using t by (auto simp: sql_UpdateUser_def schema_defs)
  ultimately show ?thesis
    using t by (simp add: schema_defs sql_UpdateUser_keys(2))
qed

lemma sql_InsertUser_keeps: "schema_ok sq t \<Longrightarrow> schema_ok sq (fst (sql_InsertUser sq a b c t))"
  by (auto simp: sql_InsertUser_def schema_defs Let_def)

lemma sql_InsertLogin_keeps: "schema_ok sq t \<Longrightarrow> schema_ok sq (fst (sql_InsertLogin sq a c t))"
  by (auto simp: sql_InsertLogin_def schema_defs Let_def)

lemma sql_InsertDirection_keeps: "schema_ok sq t \<Longrightarrow> schema_ok sq (fst (sql_InsertDirection sq n i j m t))"
  by (auto simp: sql_InsertDirection_def schema_defs Let_def)

lemma sql_InsertChatting_keeps: "schema_ok sq t \<Longrightarrow> schema_ok sq (fst (sql_InsertChatting sq n rn m t))"
  by (auto simp: sql_InsertChatting_def schema_defs Let_def)

lemma sql_InsertFiles_keeps: "schema_ok sq t \<Longrightarrow> schema_ok sq (fst (sql_InsertFiles sq n fn i t))"
  by (auto simp: sql_InsertFiles_def schema_defs Let_def)

lemma sql_InsertRelation_keeps: "schema_ok sq t \<Longrightarrow> schema_ok sq (fst (sql_InsertRelation sq a b i t))"
  by (auto simp: sql_InsertRelation_def schema_defs Let_def)

lemma sql_DeleteRelation_keeps: "schema_ok sq t \<Longrightarrow> schema_ok sq (fst (sql_DeleteRelation sq a i n t))"
  by (auto simp: sql_DeleteRelation_def schema_defs Let_def split: list.split)

lemmas statements_keep = sql_UpdateUser_keeps sql_InsertUser_keeps sql_InsertLogin_keeps
  sql_InsertDirection_keeps sql_InsertChatting_keeps sql_InsertFiles_keeps sql_InsertRelation_keeps
  sql_DeleteRelation_keeps

lemma run_stmt_keeps: "schema_ok sq t \<Longrightarrow> schema_ok sq (fst (run_stmt sq st t))"
  by (auto simp: run_stmt_def statements_keep split: list.split sql_value.split)

text \<open>
  Whatever statement is executed, with whatever parameters, the tables keep what the schema demands.
\<close>

theorem schema_kept:
  assumes "schema_ok sq t"
  shows "schema_ok sq (fst (chat_exec sq t st))"
  using run_stmt_keeps [OF assms, of st] by (simp add: chat_exec_def split_beta)

section \<open>What the statements of \<open>Dao.cpp\<close> do\<close>

text \<open>The clock after a statement.\<close>

definition tick :: "sql_server \<Rightarrow> tables \<Rightarrow> tables" where
  "tick sq t = t\<lparr>getdate := next_time sq (getdate t)\<rparr>"

lemma tick_simps [simp]:
  "cso_id (tick sq t) = cso_id t" "cso_login (tick sq t) = cso_login t" "cso_direction (tick sq t) = cso_direction t"
  "cso_chatting (tick sq t) = cso_chatting t" "cso_relation (tick sq t) = cso_relation t"
  "cso_filerecv (tick sq t) = cso_filerecv t" "getdate (tick sq t) = next_time sq (getdate t)"
  by (simp_all add: tick_def)

lemma schema_ok_tick [simp]: "schema_ok sq (tick sq t) = schema_ok sq t"
  by (simp add: tick_def)

lemma named_tick [simp]: "named sq n (tick sq t) = named sq n t"
  by (simp add: named_def)

lemma friends_join_tick [simp]: "friends_join sq a (tick sq t) = friends_join sq a t"
  by (simp add: friends_join_def)

definition ticked :: "sql_server \<Rightarrow> tables \<times> int \<times> (nat \<Rightarrow> fetch) \<Rightarrow> tables \<times> int \<times> (nat \<Rightarrow> fetch)" where
  "ticked sq = (\<lambda>(t, res, f). (tick sq t, res, f))"

lemmas query_defs = q_selectUser_def q_UpdateUser_def q_findUserId_def q_selectFriends_def q_InsertLogin_def
  q_selectOneFriend_def q_InsertUser_def q_InsertChatting_def q_InsertRelation_def q_InsertFiles_def

lemma queries_differ [simp]:
  "q_UpdateUser \<noteq> q_selectUser" "q_findUserId \<noteq> q_selectUser" "q_findUserId \<noteq> q_UpdateUser"
  "q_selectFriends \<noteq> q_selectUser" "q_selectFriends \<noteq> q_UpdateUser" "q_selectFriends \<noteq> q_findUserId"
  "q_selectOneFriend \<noteq> q_InsertLogin" "q_InsertChatting \<noteq> q_InsertUser" "q_InsertFiles \<noteq> q_InsertRelation"
  by (simp_all add: query_defs)

text \<open>One equation for each statement, as the code sends it.\<close>

lemma chat_execs:
  "chat_exec sq t \<lparr>query = q_selectUser, params = [SqlText a], cols = cs\<rparr> = ticked sq (sql_selectUser sq a t)"
  "chat_exec sq t \<lparr>query = q_UpdateUser, params = [SqlText a], cols = cs\<rparr> = ticked sq (sql_UpdateUser sq a t)"
  "chat_exec sq t \<lparr>query = q_findUserId, params = [SqlText a], cols = cs\<rparr> = ticked sq (sql_findUserId sq a t)"
  "chat_exec sq t \<lparr>query = q_selectFriends, params = [SqlText a], cols = cs\<rparr> = ticked sq (sql_selectFriends sq a t)"
  "chat_exec sq t \<lparr>query = q_InsertLogin, params = [SqlText a, SqlText b], cols = cs\<rparr> =
     ticked sq (sql_InsertLogin sq a b t)"
  "chat_exec sq t \<lparr>query = q_selectOneFriend, params = [SqlText a, SqlText b], cols = cs\<rparr> =
     ticked sq (sql_selectOneFriend sq a b t)"
  "chat_exec sq t \<lparr>query = q_InsertUser, params = [SqlText a, SqlText b, SqlText c], cols = cs\<rparr> =
     ticked sq (sql_InsertUser sq a b c t)"
  "chat_exec sq t \<lparr>query = q_InsertChatting, params = [SqlText a, SqlText b, SqlText c], cols = cs\<rparr> =
     ticked sq (sql_InsertChatting sq a b c t)"
  "chat_exec sq t \<lparr>query = q_InsertRelation, params = [SqlText a, SqlText b, SqlInt i], cols = cs\<rparr> =
     ticked sq (sql_InsertRelation sq a b i t)"
  "chat_exec sq t \<lparr>query = q_InsertFiles, params = [SqlText a, SqlText b, SqlInt i], cols = cs\<rparr> =
     ticked sq (sql_InsertFiles sq a b i t)"
  "chat_exec sq t \<lparr>query = q_DeleteRelation, params = [SqlText a, SqlInt i, SqlText b], cols = cs\<rparr> =
     ticked sq (sql_DeleteRelation sq a i b t)"
  "chat_exec sq t \<lparr>query = q_InsertDirection, params = [SqlText a, SqlInt i, SqlInt j, SqlText b], cols = cs\<rparr> =
     ticked sq (sql_InsertDirection sq a i j b t)"
  by (simp_all add: chat_exec_def run_stmt_def ticked_def tick_def)

lemma ticked_results [simp]:
  "ticked sq (succeeds t) = (tick sq t, 0, \<lambda>_. NO_DATA)" "ticked sq (fails t) = (tick sq t, -1, \<lambda>_. NO_DATA)"
  "ticked sq (touches_none t) = (tick sq t, 100, \<lambda>_. NO_DATA)"
  by (simp_all add: ticked_def stmt_results)

text \<open>A result set comes in some order, but as it is.\<close>

definition order_ok :: "sql_server \<Rightarrow> bool" where
  "order_ok sq \<longleftrightarrow> (\<forall>rs. mset (row_order sq rs) = mset rs)"

lemma row_order_simps:
  assumes "order_ok sq"
  shows "row_order sq [] = []" "row_order sq [r] = [r]" "set (row_order sq rs) = set rs"
    "length (row_order sq rs) = length rs"
proof -
  have m: "mset (row_order sq rs) = mset rs" for rs using assms by (simp add: order_ok_def)
  show "row_order sq [] = []" using m [of "[]"] by simp
  show "row_order sq [r] = [r]" using m [of "[r]"] by simp
  show "set (row_order sq rs) = set rs" using m [of rs] by (rule mset_eq_setD)
  show "length (row_order sq rs) = length rs" using m [of rs] by (rule mset_eq_length)
qed

text \<open>The account with an id: there is at most one.\<close>

definition account :: "sql_server \<Rightarrow> tables \<Rightarrow> string \<Rightarrow> cso_id_row option" where
  "account sq t a = List.find (\<lambda>r. pk_cso_id sq r = id_key sq a) (cso_id t)"

lemma account_None: "account sq t a = None \<longleftrightarrow> id_key sq a \<notin> pk_cso_id sq ` set (cso_id t)"
  by (force simp: account_def find_None_iff)

lemma accounts_with_key:
  assumes "pk (pk_cso_id sq) (cso_id t)"
  shows "[r \<leftarrow> cso_id t. pk_cso_id sq r = id_key sq a] = (case account sq t a of None \<Rightarrow> [] | Some r \<Rightarrow> [r])"
proof (cases "account sq t a")
  case None
  then have "\<forall>r\<in>set (cso_id t). pk_cso_id sq r \<noteq> id_key sq a" by (auto simp: account_def find_None_iff)
  with None show ?thesis by (simp add: filter_empty_conv)
next
  case (Some r)
  then have "r \<in> set (cso_id t)" "pk_cso_id sq r = id_key sq a"
    by (auto simp: account_def find_Some_iff)
  with pk_one [OF assms this(1)] Some show ?thesis by simp
qed

lemma ticked_selectUser:
  assumes "order_ok sq" and "pk (pk_cso_id sq) (cso_id t)"
  shows "\<exists>f. ticked sq (sql_selectUser sq a t) = (tick sq t, 0, f) \<and>
    f 0 = (case account sq t a of None \<Rightarrow> NO_DATA
           | Some r \<Rightarrow> ROW (result_row [ac_userid r, ac_password r, ac_nickname r]))"
  using accounts_with_key [OF assms(2), of a] row_order_simps(1,2) [OF assms(1)]
  by (cases "account sq t a") (simp_all add: sql_selectUser_def answers_def ticked_def Let_def)

end
