(* ===== verification/Durable.thy ===== *)
theory Durable
  imports Reach Schema
begin

text \<open>
  What a server does to its database. The contract \<open>db_invariant\<close> is a condition that every statement keeps;
  every handler, every turn of a thread and so every run of the server keeps it then, since only \<open>Dao.cpp\<close>
  touches the database. The schema is the instance.
\<close>

locale db_invariant =
  fixes env :: "'db cfg" and I :: "'db \<Rightarrow> bool"
  assumes exec_keeps: "I db \<Longrightarrow> I (fst (exec env db st))"
begin

lemma SQLExecute_keeps: "I db \<Longrightarrow> SQLExecute env db q ps cs = (db', r, f) \<Longrightarrow> I db'"
  using exec_keeps [of db] by (metis SQLExecute_def fst_conv)

lemma dao_keeps:
  assumes "I db"
  shows "post (UpdateUser env lv db) I" "post (InsertLogin env lv db) I" "post (InsertDirection env lv db) I"
    "post (InsertChatting env lv db) I" "post (InsertFiles env lv db) (\<lambda>(_, db). I db)"
    "post (InsertUser env uv db) I" "post (InsertRelation env rv db) (\<lambda>(_, db). I db)"
    "post (DeleteRelation env rv db) (\<lambda>(_, db). I db)"
    "post (selectUser env uv db) (\<lambda>(_, db). I db)" "post (findUserId env rv db) (\<lambda>(_, db). I db)"
    "post (selectFriends env rv db) (\<lambda>(_, db). I db)" "post (selectOneFriend env rv db) (\<lambda>(_, db). I db)"
  using SQLExecute_keeps [OF assms]
  by (auto simp: UpdateUser_def InsertLogin_def InsertDirection_def InsertChatting_def InsertFiles_def
      InsertUser_def InsertRelation_def DeleteRelation_def selectUser_def findUserId_def selectFriends_def
      selectOneFriend_def Let_def intro!: post_bindI split: prod.split fetch.split option.split)

lemma dao_results:
  "UpdateUser env lv db = Inr db' \<Longrightarrow> I db \<Longrightarrow> I db'" "InsertLogin env lv db = Inr db' \<Longrightarrow> I db \<Longrightarrow> I db'"
  "InsertDirection env lv db = Inr db' \<Longrightarrow> I db \<Longrightarrow> I db'" "InsertChatting env lv db = Inr db' \<Longrightarrow> I db \<Longrightarrow> I db'"
  "InsertFiles env lv db = Inr (i, db') \<Longrightarrow> I db \<Longrightarrow> I db'" "InsertUser env uv db = Inr db' \<Longrightarrow> I db \<Longrightarrow> I db'"
  "InsertRelation env rv db = Inr (i, db') \<Longrightarrow> I db \<Longrightarrow> I db'"
  "DeleteRelation env rv db = Inr (i, db') \<Longrightarrow> I db \<Longrightarrow> I db'"
  "selectUser env uv db = Inr (u, db') \<Longrightarrow> I db \<Longrightarrow> I db'" "findUserId env rv db = Inr (v, db') \<Longrightarrow> I db \<Longrightarrow> I db'"
  "selectFriends env rv db = Inr (vs, db') \<Longrightarrow> I db \<Longrightarrow> I db'"
  "selectOneFriend env rv db = Inr (v, db') \<Longrightarrow> I db \<Longrightarrow> I db'"
  using dao_keeps [of db] by (metis post.simps(2) prod.case)+

section \<open>Handlers\<close>

text \<open>What a handler leaves the database as, when it leaves it.\<close>

abbreviation keeps :: "cpp_error + 'db server \<Rightarrow> bool" where
  "keeps m \<equiv> post m (\<lambda>s'. I (database s'))"

lemma RecvFile_keeps: "I db \<Longrightarrow> post (RecvFile env name u db) (\<lambda>(_, _, db). I db)"
  by (auto simp: RecvFile_def Let_def intro!: post_bindI split: list.split) (erule dao_results | assumption)+

lemma UserMake_keeps: "I (database s) \<Longrightarrow> keeps (UserMake env k m s)"
  by (auto simp: UserMake_def Let_def intro!: post_bindI split: list.split) (erule dao_results | assumption)+

lemma InitUser_keeps: "I (database s) \<Longrightarrow> keeps (InitUser env a k nick s)"
  by (auto simp: InitUser_def Let_def intro!: post_bindI) (erule dao_results | assumption)+

lemma UserEnter_keeps: "I (database s) \<Longrightarrow> keeps (UserEnter env k m s)"
  by (auto simp: UserEnter_def Let_def intro!: post_bindI InitUser_keeps split: list.split) (erule dao_results | assumption)+

lemma upd_user_db: "upd_user k f s = Inr s' \<Longrightarrow> database s' = database s"
  by (auto simp: upd_user_def split: option.splits)

lemma upd_user_keeps: "upd_user k f s = Inr s' \<Longrightarrow> I (database s) \<Longrightarrow> I (database s')"
  by (simp add: upd_user_db)

lemma rooms_keep:
  assumes "I (database s)"
  shows "keeps (RoomMake k m s)" "keeps (RoomEnter k m s)" "keeps (RoomInfo k s)" "keeps (RoomUserInfo k s)"
    "keeps (Whisper k m s)"
  using assms
  by (auto simp: RoomMake_def RoomEnter_def RoomInfo_def RoomUserInfo_def Whisper_def Let_def
      intro!: post_bindI split: list.split option.split) (erule upd_user_keeps | simp)+

lemma friends_keep:
  assumes "I (database s)"
  shows "keeps (FriendInfo env k s)" "keeps (FriendAdd env k m s)" "keeps (FriendDelete env k m s)"
    "keeps (FriendGo env k m s)"
  using assms
  by (auto simp: FriendInfo_def FriendAdd_def FriendDelete_def FriendGo_def Let_def
      intro!: post_bindI split: option.split) (erule dao_results upd_user_keeps | simp)+

lemma directionFunc_keeps: "I (database s) \<Longrightarrow> keeps (directionFunc env d k m s)"
  by (cases d) (simp_all add: directionFunc_def UserMake_keeps UserEnter_keeps rooms_keep friends_keep)

lemma log_direction_keeps: "I (database s) \<Longrightarrow> keeps (log_direction env name st d m s)"
  by (auto simp: log_direction_def Let_def intro!: post_bindI) (erule dao_results | assumption)+

lemma leaving_keeps:
  assumes "I (database s)"
  shows "keeps (broadcast_leave env m rn k s)" "keeps (reset_session k s)" "I (database (drop_empty_room rn s))"
  using assms
  by (auto simp: broadcast_leave_def reset_session_def drop_empty_room_def dest: upd_user_db intro!: post_bindI
      split: option.split) (auto intro!: postI dest: upd_user_db)

lemma StatusLogout_keeps: "I (database s) \<Longrightarrow> keeps (StatusLogout env k d m s)"
  by (simp add: StatusLogout_def directionFunc_keeps)

lemma StatusWait_keeps:
  assumes "I (database s)"
  shows "keeps (StatusWait env k st d m s)"
proof -
  have "keeps (directionFunc env d k m s)" using assms by (rule directionFunc_keeps)
  then have "I (database s1)" if "directionFunc env d k m s = Inr s1" for s1 using that by simp
  with assms show ?thesis
    by (auto simp: StatusWait_def intro!: post_bindI log_direction_keeps split: if_splits)
      (auto simp: sbind_Inr_iff)
qed

text \<open>Leaving a room, the end of \<open>StatusChat\<close>, \<open>ClientExit\<close> and \<open>BanUser\<close>.\<close>

lemma leaving_results:
  "broadcast_leave env m rn k s = Inr s' \<Longrightarrow> I (database s) \<Longrightarrow> I (database s')"
  "reset_session k s = Inr s' \<Longrightarrow> I (database s) \<Longrightarrow> I (database s')"
  using leaving_keeps(1,2) by (metis post.simps(2))+

lemma RecvFile_result: "RecvFile env name u db = Inr (fd, u', db') \<Longrightarrow> I db \<Longrightarrow> I db'"
  using RecvFile_keeps [of db name u] by simp

lemma StatusChat_keeps: "I (database s) \<Longrightarrow> keeps (StatusChat env k d m s)"
  by (auto simp: StatusChat_def Let_def intro!: post_bindI leaving_keeps(3))
    (erule dao_results leaving_results RecvFile_result | simp)+

lemma callFuncPointer_keeps: "I (database s) \<Longrightarrow> keeps (callFuncPointer env k st d m s)"
  by (cases st) (simp_all add: callFuncPointer_def StatusLogout_keeps StatusWait_keeps StatusChat_keeps)

lemma quitting_keeps:
  assumes "I (database s)"
  shows "keeps (ClientExit env closed k s)" "keeps (BanUser env name s)"
  using assms
  by (auto simp: ClientExit_def BanUser_def Let_def intro!: post_bindI leaving_keeps(3) split: option.split if_splits)
    (auto simp: sbind_Inr_iff intro!: leaving_keeps(3) elim!: leaving_results)

section \<open>Threads\<close>

lemma handler_results:
  "callFuncPointer env k st d m s = Inr s' \<Longrightarrow> I (database s) \<Longrightarrow> I (database s')"
  "ClientExit env closed k s = Inr s' \<Longrightarrow> I (database s) \<Longrightarrow> I (database s')"
  "BanUser env name s = Inr s' \<Longrightarrow> I (database s) \<Longrightarrow> I (database s')"
  using callFuncPointer_keeps quitting_keeps by (metis post.simps(2))+

abbreviation keeps_p :: "cpp_error + 'db process \<Rightarrow> bool" where
  "keeps_p m \<equiv> post m (\<lambda>p'. I (database (srv p')))"

lemma send_jobs_keeps: "I (database s) \<Longrightarrow> keeps (send_jobs env js s)"
  by (induction js arbitrary: s) (auto intro!: post_bindI)

lemma send_jobs_result: "send_jobs env js s = Inr s' \<Longrightarrow> I (database s) \<Longrightarrow> I (database s')"
  using send_jobs_keeps [of s js] by simp

lemma work_job_keeps: "I (database (srv p)) \<Longrightarrow> keeps_p (work_job env j p)"
  by (auto simp: work_job_def CallCnt_def Let_def intro!: post_bindI elim!: handler_results)

lemma RecvThread_keeps: "I (database (srv p)) \<Longrightarrow> keeps_p (RecvThread env success n k i closed p)"
  by (auto simp: RecvThread_def recv_completed_def Let_def intro!: post_bindI split: option.split if_splits
      elim!: handler_results)

lemma do_event_keeps: "I (database (srv p)) \<Longrightarrow> keeps_p (do_event env e p)"
  by (cases e)
    (auto simp: do_event_def main_accept_def InsertLiveSocket_def WorkThread_swap_def WorkThread_job_def
      SendThread_def Let_def intro!: post_bindI work_job_keeps RecvThread_keeps elim!: send_jobs_result)

lemma reachable_keeps:
  "reachable env p0 allowed p \<Longrightarrow> I (database (srv p0)) \<Longrightarrow> I (database (srv p))"
proof (induction rule: reachable.induct)
  case (step p e p')
  then show ?case using do_event_keeps [of p e] by simp
qed

end

section \<open>The schema is such a condition\<close>

text \<open>A server on the tables; the rest of its environment is that of \<open>e\<close>.\<close>

definition on_tables :: "sql_server \<Rightarrow> unit cfg \<Rightarrow> tables cfg" where
  "on_tables sq e =
     \<lparr>exec = chat_exec sq, junk = junk e, can_create = can_create e, can_connect = can_connect e,
      ord = ord e, past = past e\<rparr>"

lemma on_tables_simps [simp]: "exec (on_tables sq e) = chat_exec sq" "ord (on_tables sq e) = ord e"
  by (simp_all add: on_tables_def)

lemma execs [simp]: "SQLExecute (on_tables sq e) t q ps cs = chat_exec sq t \<lparr>query = q, params = ps, cols = cs\<rparr>"
  by (simp add: SQLExecute_def)

interpretation tbl: db_invariant "on_tables sq e" "schema_ok sq" for sq e
  by unfold_locales (simp add: chat_exec_def split_beta run_stmt_keeps)

lemma on_tables_ok: "sql_ok (on_tables sq e)"
  unfolding sql_ok_def rows_ok_def
  by (auto simp: chat_exec_def run_stmt_def stmt_results sql_selectUser_def sql_UpdateUser_def sql_InsertUser_def
      sql_InsertLogin_def sql_InsertDirection_def sql_InsertChatting_def sql_InsertFiles_def
      sql_InsertRelation_def sql_findUserId_def sql_selectFriends_def sql_selectOneFriend_def
      sql_DeleteRelation_def split_beta split: list.split sql_value.split intro: exI [of _ "length _"])

end
