(* ===== verification/Ledger.thy ===== *)
theory Ledger
  imports Races Durable
begin

text \<open>
  The handlers on the tables of the schema: what becomes of an account from its registration on, what the
  lists of friends hold, and what the log of the chats holds.
\<close>

section \<open>Registration and login\<close>

text \<open>A field of a request: something, and nothing that ends a field or the text.\<close>

definition field :: "string \<Rightarrow> bool" where
  "field x \<longleftrightarrow> nul_free x \<and> CHR 0x5C \<notin> set x \<and> x \<noteq> ''''"

lemma fieldD: "field x \<Longrightarrow> nul_free x" "field x \<Longrightarrow> CHR 0x5C \<notin> set x" "field x \<Longrightarrow> x \<noteq> ''''"
  by (simp_all add: field_def)

definition register_text :: "string \<Rightarrow> string \<Rightarrow> string \<Rightarrow> string" where
  "register_text a b c = a @ [CHR 0x5C] @ b @ [CHR 0x5C] @ c"

definition login_text :: "string \<Rightarrow> string \<Rightarrow> string" where
  "login_text a b = a @ [CHR 0x5C] @ b"

lemma request_texts:
  assumes "field a" "field b" "field c"
  shows "length (login_text a b) < BUF_SIZE \<Longrightarrow> tokens 2 (login_text a b) = Inr [a, b]"
    "length (register_text a b c) < BUF_SIZE \<Longrightarrow> tokens 3 (register_text a b c) = Inr [a, b, c]"
proof -
  have "pieces (CHR 0x5C) (login_text a b) = [a, b]" "pieces (CHR 0x5C) (register_text a b c) = [a, b, c]"
    using assms by (simp_all add: login_text_def register_text_def pieces_def field_def split_on_free split_on_sep)
  moreover have "nul_free (login_text a b)" "nul_free (register_text a b c)"
    using assms by (simp_all add: login_text_def register_text_def field_def nul_free_def)
  ultimately show "length (login_text a b) < BUF_SIZE \<Longrightarrow> tokens 2 (login_text a b) = Inr [a, b]"
    "length (register_text a b c) < BUF_SIZE \<Longrightarrow> tokens 3 (register_text a b c) = Inr [a, b, c]"
    using tokens_pieces by simp_all
qed

text \<open>The column read back into a buffer that has room for it.\<close>

lemma column_id: "nul_free x \<Longrightarrow> length x < n \<Longrightarrow> column n x = x"
  by (simp add: column_def upto_nul_id)

lemma schema_pk: "schema_ok sq t \<Longrightarrow> pk (pk_cso_id sq) (cso_id t)"
  by (simp add: schema_ok_def keys_ok_def)

text \<open>\<open>selectUser\<close> on the tables.\<close>

lemma account_answer_tables:
  assumes "order_ok sq" "schema_ok sq t" "account sq t (take 10 a) = Some r"
  shows "account_answer (on_tables sq e) t a (column 10 (ac_password r)) (column 20 (ac_nickname r))"
  using ticked_selectUser [OF assms(1) schema_pk [OF assms(2)], of "take 10 a"] assms(3)
  by (fastforce simp: account_answer_def chat_execs)

lemma selectUser_tables_none:
  assumes "order_ok sq" "schema_ok sq t" "account sq t (take 10 a) = None" "nul_free a"
  shows "selectUser (on_tables sq e) (setUserId a UserVo_new) t = Inr (setUserId '''' (setUserId a UserVo_new), tick sq t)"
proof -
  obtain f where "ticked sq (sql_selectUser sq (take 10 a) t) = (tick sq t, 0, f)" "f 0 = NO_DATA"
    using ticked_selectUser [OF assms(1) schema_pk [OF assms(2)], of "take 10 a"] assms(3) by auto
  then show ?thesis using assms(4) by (intro selectUser_none [of _ _ _ _ 0 f]) (simp_all add: chat_execs)
qed

lemma selectUser_tables:
  assumes "order_ok sq" "schema_ok sq t" "account sq t (take 10 a) = Some r" "nul_free a"
  obtains vo where "selectUser (on_tables sq e) (setUserId a UserVo_new) t = Inr (vo, tick sq t)"
    "getUserId (UserVo_copy vo) = Inr (take 10 a)" "getPassword (UserVo_copy vo) = Inr (column 10 (ac_password r))"
    "getNickName (UserVo_copy vo) = Inr (column 20 (ac_nickname r))"
proof -
  obtain f where f: "ticked sq (sql_selectUser sq (take 10 a) t) = (tick sq t, 0, f)"
    using ticked_selectUser [OF assms(1) schema_pk [OF assms(2)], of "take 10 a"] by blast
  show thesis
    by (rule selectUser_answer [OF account_answer_tables [OF assms(1-3)] assms(4), of e])
      (simp add: that f chat_execs)
qed

text \<open>An account that is new, and one that is not.\<close>

definition new_row :: "string \<Rightarrow> string \<Rightarrow> string \<Rightarrow> nat \<Rightarrow> cso_id_row" where
  "new_row a b c now = \<lparr>ac_userid = take 10 a, ac_password = b, ac_nickname = c, ac_regdate = now,
     ac_lastlogdate = None, ac_loginyn = 0, ac_adminyn = 0\<rparr>"

lemma sql_InsertUser_new:
  assumes "account sq t (take 10 a) = None" "length b < 10" "length c < NAME_SIZE"
  shows "sql_InsertUser sq (take 10 a) b c t = succeeds (t\<lparr>cso_id := cso_id t @ [new_row a b c (getdate t)]\<rparr>)"
  using assms account_None [of sq t "take 10 a"]
  by (simp add: sql_InsertUser_def new_row_def new_key_def pk_cso_id_def NAME_SIZE_def Let_def)

lemma sql_InsertUser_taken:
  "account sq t (take 10 a) \<noteq> None \<Longrightarrow> sql_InsertUser sq (take 10 a) b c t = fails t"
  using account_None [of sq t "take 10 a"]
  by (simp add: sql_InsertUser_def new_key_def pk_cso_id_def Let_def)

lemma UserMake_new:
  assumes sq: "order_ok sq" "schema_ok sq (database s)" and new: "account sq (database s) (take 10 a) = None"
    and f: "field a" "field b" "field c" "length b < 10" "length c < NAME_SIZE"
      "length (register_text a b c) < BUF_SIZE"
  shows "UserMake (on_tables sq e) k (register_text a b c) s =
    Inr (InsertSendQueue SEND_ME (a @ m_made @ loginBeforeMessage) '''' k STATUS_LOGOUT
      (s\<lparr>database := tick sq ((tick sq (database s))\<lparr>cso_id := cso_id (database s) @
         [new_row a b c (next_time sq (getdate (database s)))]\<rparr>)\<rparr>))"
proof -
  have "account sq (tick sq (database s)) (take 10 a) = None" using new by (simp add: account_def)
  from sql_InsertUser_new [OF this f(4,5)]
  show ?thesis
    using f by (simp add: UserMake_def request_texts(2) selectUser_tables_none [OF sq new] fieldD(1)
        UserVo_none(1) InsertUser_none chat_execs Let_def)
qed

lemma UserMake_taken:
  assumes sq: "order_ok sq" "schema_ok sq (database s)" and old: "account sq (database s) (take 10 a) \<noteq> None"
    and f: "field a" "field b" "field c" "length (register_text a b c) < BUF_SIZE"
  shows "UserMake (on_tables sq e) k (register_text a b c) s =
    Inr (InsertSendQueue SEND_ME (m_idTaken @ loginBeforeMessage) '''' k STATUS_LOGOUT
      (s\<lparr>database := tick sq (database s)\<rparr>))"
proof -
  obtain r where r: "account sq (database s) (take 10 a) = Some r" using old by auto
  obtain vo where "selectUser (on_tables sq e) (setUserId a UserVo_new) (database s) = Inr (vo, tick sq (database s))"
      "getUserId (UserVo_copy vo) = Inr (take 10 a)"
    using selectUser_tables [OF sq r fieldD(1) [OF f(1)], of e] by metis
  then show ?thesis using f by (simp add: UserMake_def request_texts(2) fieldD(3) Let_def)
qed

text \<open>Logging in.\<close>

lemma UserEnter_tables_wrong:
  assumes sq: "order_ok sq" "schema_ok sq (database s)" and r: "account sq (database s) (take 10 a) = Some r"
    and f: "field a" "field b" "length (login_text a b) < BUF_SIZE" and b: "b \<noteq> column 10 (ac_password r)"
  shows "UserEnter (on_tables sq e) k (login_text a b) s =
    Inr (InsertSendQueue SEND_ME (m_badPassword @ loginBeforeMessage) '''' k STATUS_LOGOUT
      (s\<lparr>database := tick sq (database s)\<rparr>))"
proof -
  obtain vo where "selectUser (on_tables sq e) (setUserId a UserVo_new) (database s) = Inr (vo, tick sq (database s))"
      "getUserId (UserVo_copy vo) = Inr (take 10 a)" "getPassword (UserVo_copy vo) = Inr (column 10 (ac_password r))"
    using selectUser_tables [OF sq r fieldD(1) [OF f(1)], of e] by metis
  then show ?thesis using f b by (simp add: UserEnter_def request_texts(1) [OF f(1,2,2)] fieldD(3) Let_def)
qed

text \<open>What a login leaves the tables as: the date of the account, and a line in the log.\<close>

definition log_in :: "sql_server \<Rightarrow> string \<Rightarrow> string \<Rightarrow> tables \<Rightarrow> tables" where
  "log_in sq a nick t =
     (let t1 = fst (ticked sq (sql_UpdateUser sq (take 10 a) t)) in
      fst (ticked sq (sql_InsertLogin sq (take 10 a) nick t1)))"

lemma InitUser_tables:
  assumes a: "nul_free a" "length a < NAME_SIZE" and n: "nul_free nick" "length nick < NAME_SIZE"
  shows "InitUser (on_tables sq e) a k nick s =
    Inr (InsertSendQueue SEND_ME (nick @ m_entered @ waitRoomMessage) '''' k STATUS_WAITING
      (s\<lparr>userMap := um_put (ord e) k (session_for a nick) (userMap s), database := log_in sq a nick (database s)\<rparr>))"
proof -
  have "getUserId (session_log a nick) = Inr (take 10 a)" "getNickName (session_log a nick) = Inr nick"
    using a n by (simp_all add: session_log_def vo_defs vo_simps upto_nul_strncpy cstr_strncpy NAME_SIZE_def)
  then show ?thesis
    by (simp add: InitUser_def session_for_def session_src session_log_def UpdateUser_def InsertLogin_def chat_execs
        log_in_def split_beta Let_def)
qed

lemma UserEnter_tables_right:
  assumes sq: "order_ok sq" "schema_ok sq (database s)" and r: "account sq (database s) (take 10 a) = Some r"
    and f: "field a" "length a < NAME_SIZE" "field b" and new: "a \<notin> idSet s"
    and b: "column 10 (ac_password r) = b"
  shows "UserEnter (on_tables sq e) k (login_text a b) s =
    Inr (InsertSendQueue SEND_ME (column 20 (ac_nickname r) @ m_entered @ waitRoomMessage) '''' k STATUS_WAITING
      (s\<lparr>idSet := insert a (idSet s),
         userMap := um_put (ord e) k (session_for a (column 20 (ac_nickname r))) (userMap s),
         database := log_in sq a (column 20 (ac_nickname r)) (tick sq (database s))\<rparr>))"
proof -
  obtain vo where vo: "selectUser (on_tables sq e) (setUserId a UserVo_new) (database s) = Inr (vo, tick sq (database s))"
      "getUserId (UserVo_copy vo) = Inr (take 10 a)" "getPassword (UserVo_copy vo) = Inr (column 10 (ac_password r))"
      "getNickName (UserVo_copy vo) = Inr (column 20 (ac_nickname r))"
    by (rule selectUser_tables [OF sq r fieldD(1) [OF f(1)]])
  have "length (login_text a b) < BUF_SIZE"
    using f(2) column_props(2) [of 10 "ac_password r"] b by (simp add: login_text_def NAME_SIZE_def BUF_SIZE_def)
  then have "tokens 2 (login_text a b) = Inr [a, b]" using f by (simp add: request_texts(1) [OF f(1,3,3)])
  then show ?thesis
    using vo f new b column_props [of 20 "ac_nickname r"]
    by (simp add: UserEnter_def InitUser_tables fieldD(1,3) NAME_SIZE_def Let_def)
qed

text \<open>The account after its login, and the others.\<close>

lemma log_in_account:
  assumes "account sq t (take 10 a) = Some r"
  shows "account sq (log_in sq a nick t) (take 10 a) = Some (r\<lparr>ac_lastlogdate := Some (getdate t)\<rparr>)"
proof -
  have "id_key sq (take 10 a) \<in> pk_cso_id sq ` set (cso_id t)"
    using assms account_None [of sq t "take 10 a"] by simp
  then have "cso_id (log_in sq a nick t) =
      map (\<lambda>r. if pk_cso_id sq r = id_key sq (take 10 a) then r\<lparr>ac_lastlogdate := Some (getdate t)\<rparr> else r) (cso_id t)"
    by (simp add: log_in_def sql_UpdateUser_def sql_InsertLogin_def Let_def)
  moreover have "List.find (\<lambda>r. pk_cso_id sq r = k)
      (map (\<lambda>r. if pk_cso_id sq r = k then r\<lparr>ac_lastlogdate := l\<rparr> else r) rs) =
      map_option (\<lambda>r. r\<lparr>ac_lastlogdate := l\<rparr>) (List.find (\<lambda>r. pk_cso_id sq r = k) rs)" for k l rs
    by (induction rs) (simp_all add: pk_cso_id_def)
  ultimately show ?thesis using assms by (simp add: account_def)
qed

lemma log_in_login:
  assumes "account sq t (take 10 a) \<noteq> None" "length nick < NAME_SIZE"
    and "\<forall>r\<in>set (cso_login t). id_key sq (lo_userid r) \<noteq> id_key sq (take 10 a)"
  shows "\<exists>now. cso_login (log_in sq a nick t) = cso_login t @ [\<lparr>lo_userid = take 10 a, lo_logindate = now, lo_nickname = nick\<rparr>]"
proof -
  let ?t = "fst (ticked sq (sql_UpdateUser sq (take 10 a) t))"
  have "id_key sq (take 10 a) \<in> pk_cso_id sq ` set (cso_id t)"
    using assms(1) account_None [of sq t "take 10 a"] by simp
  moreover have "fst (ticked sq x) = tick sq (fst x)" for x by (cases x) (simp add: ticked_def)
  moreover have "cso_login ?t = cso_login t" "pk_cso_id sq ` set (cso_id ?t) = pk_cso_id sq ` set (cso_id t)"
    using calculation(2) sql_UpdateUser_keys(2) [of sq "take 10 a" t] by (simp_all add: sql_UpdateUser_def)
  ultimately show ?thesis using assms
    by (auto simp: log_in_def sql_InsertLogin_def new_key_def pk_cso_login_def NAME_SIZE_def Let_def)
qed

lemma account_appended:
  assumes "account sq t (take 10 a) = None"
  shows "account sq (t\<lparr>cso_id := cso_id t @ [new_row a b c now]\<rparr>) (take 10 a) = Some (new_row a b c now)"
proof -
  have "List.find P (xs @ [x]) = (if P x then Some x else None)" if "List.find P xs = None" for P xs and x :: cso_id_row
    using that by (induction xs) (auto split: if_splits)
  with assms show ?thesis by (simp add: account_def new_row_def pk_cso_id_def)
qed

lemma no_logins_yet:
  assumes "schema_ok sq t" "account sq t a = None" "r \<in> set (cso_login t)"
  shows "id_key sq (lo_userid r) \<noteq> id_key sq a"
proof -
  have "id_key sq (lo_userid r) \<in> pk_cso_id sq ` set (cso_id t)"
    using assms(1,3) by (simp add: schema_ok_def references_ok_def)
  moreover have "id_key sq a \<notin> pk_cso_id sq ` set (cso_id t)" using assms(2) account_None by blast
  ultimately show ?thesis by metis
qed

lemma account_tick [simp]: "account sq (tick sq t) a = account sq t a"
  by (simp add: account_def)

text \<open>
  C7: The life of an account on the tables: a registration with an id nobody has adds one row; then the same
  id and password log in, under the nickname given, which sets the date of the account and adds a line to the
  log of logins; any other password is refused; and so is every other registration with that id, which
  changes no account.
\<close>

theorem account_lifecycle:
  assumes s: "world_ok s" and sq: "order_ok sq" "schema_ok sq (database s)"
    and id: "a \<notin> idSet s" "account sq (database s) (take 10 a) = None"
    and f: "field a" "field b" "field c" "length a < NAME_SIZE" "length b < 10" "length c < NAME_SIZE"
  shows "ok (UserMake (on_tables sq e) k0 (register_text a b c) s) (\<lambda>s1.
    chat_of s1 = chat_of s \<and> sd_msg (last (sendQueue s1)) = a @ m_made @ loginBeforeMessage \<and>
    (\<exists>now. cso_id (database s1) = cso_id (database s) @ [new_row a b c now]) \<and>
    ok (UserEnter (on_tables sq e) k (login_text a b) s1) (\<lambda>s2.
      chat_of s2 = (chat_of s)(k \<mapsto> (a, c, None)) \<and>
      (\<exists>r now. account sq (database s2) (take 10 a) = Some r \<and> ac_lastlogdate r = Some now) \<and>
      (\<exists>now. cso_login (database s2) = cso_login (database s) @
         [\<lparr>lo_userid = take 10 a, lo_logindate = now, lo_nickname = c\<rparr>])) \<and>
    (\<forall>b'. field b' \<and> length (login_text a b') < BUF_SIZE \<and> b' \<noteq> b \<longrightarrow>
      ok (UserEnter (on_tables sq e) k (login_text a b') s1) (\<lambda>s2. chat_of s2 = chat_of s \<and>
        sd_msg (last (sendQueue s2)) = m_badPassword @ loginBeforeMessage)) \<and>
    (\<forall>b' c'. field b' \<and> field c' \<and> length (register_text a b' c') < BUF_SIZE \<longrightarrow>
      ok (UserMake (on_tables sq e) k (register_text a b' c') s1) (\<lambda>s2.
        cso_id (database s2) = cso_id (database s1) \<and>
        sd_msg (last (sendQueue s2)) = m_idTaken @ loginBeforeMessage)))"
proof -
  let ?t = "tick sq (database s)"
  let ?r = "new_row a b c (getdate ?t)"
  let ?t1 = "tick sq (?t\<lparr>cso_id := cso_id ?t @ [?r]\<rparr>)"
  let ?s1 = "InsertSendQueue SEND_ME (a @ m_made @ loginBeforeMessage) '''' k0 STATUS_LOGOUT (s\<lparr>database := ?t1\<rparr>)"
  have len: "length (register_text a b c) < BUF_SIZE"
    using f(4-6) by (simp add: register_text_def NAME_SIZE_def BUF_SIZE_def)
  have make: "UserMake (on_tables sq e) k0 (register_text a b c) s = Inr ?s1"
    using UserMake_new [OF sq id(2) f(1-3,5,6) len] by simp
  have t1: "schema_ok sq ?t1"
    using sql_InsertUser_keeps [of sq ?t "take 10 a" b c] sql_InsertUser_new [of sq ?t a b c] sq(2) id(2) f(5,6) by simp
  have acc: "account sq ?t1 (take 10 a) = Some ?r" using account_appended [of sq ?t] id(2) by simp
  have row: "column 10 (ac_password ?r) = b" "column 20 (ac_nickname ?r) = c"
    using f(2,3,5,6) by (simp_all add: new_row_def column_id fieldD(1) NAME_SIZE_def)
  have "\<forall>r\<in>set (cso_login ?t1). id_key sq (lo_userid r) \<noteq> id_key sq (take 10 a)"
    using no_logins_yet [OF sq(2) id(2)] by simp
  then obtain now where now: "cso_login (log_in sq a c (tick sq ?t1)) =
      cso_login (database s) @ [\<lparr>lo_userid = take 10 a, lo_logindate = now, lo_nickname = c\<rparr>]"
    using log_in_login [of sq "tick sq ?t1" a c] acc f(6) by auto
  have "ok (UserEnter (on_tables sq e) k (login_text a b) ?s1) (\<lambda>s2.
      chat_of s2 = (chat_of s)(k \<mapsto> (a, c, None)) \<and>
      (\<exists>r now. account sq (database s2) (take 10 a) = Some r \<and> ac_lastlogdate r = Some now) \<and>
      (\<exists>now. cso_login (database s2) = cso_login (database s) @
         [\<lparr>lo_userid = take 10 a, lo_logindate = now, lo_nickname = c\<rparr>]))"
  proof -
    have "UserEnter (on_tables sq e) k (login_text a b) ?s1 =
        Inr (InsertSendQueue SEND_ME (c @ m_entered @ waitRoomMessage) '''' k STATUS_WAITING
          (?s1\<lparr>idSet := insert a (idSet s), userMap := um_put (ord e) k (session_for a c) (userMap s),
             database := log_in sq a c (tick sq ?t1)\<rparr>))"
      using UserEnter_tables_right [of sq ?s1 a ?r b e k] sq(1) t1 acc f(1,2,4) id(1) row by simp
    moreover have "map_of (um_put (ord e) k (session_for a c) (userMap s)) = (map_of (userMap s))(k \<mapsto> session_for a c)"
      using world_okD(1) [OF s] by (simp add: map_of_um_put)
    ultimately show ?thesis
      using log_in_account [of sq "tick sq ?t1" a ?r c] acc now
        session_for_ok(2,3,5) [of a c] f(3,4,6) fieldD(1) [OF f(1)]
      by (auto simp: chat_of_def fieldD(1))
  qed
  moreover have "ok (UserEnter (on_tables sq e) k (login_text a b') ?s1) (\<lambda>s2. chat_of s2 = chat_of s \<and>
        sd_msg (last (sendQueue s2)) = m_badPassword @ loginBeforeMessage)"
    if "field b'" "length (login_text a b') < BUF_SIZE" "b' \<noteq> b" for b'
    using UserEnter_tables_wrong [of sq ?s1 a ?r b' e k] sq(1) t1 acc f(1) row that by (simp add: sendQueue_me)
  moreover have "ok (UserMake (on_tables sq e) k (register_text a b' c') ?s1) (\<lambda>s2.
        cso_id (database s2) = cso_id ?t1 \<and> sd_msg (last (sendQueue s2)) = m_idTaken @ loginBeforeMessage)"
    if "field b'" "field c'" "length (register_text a b' c') < BUF_SIZE" for b' c'
    using UserMake_taken [of sq ?s1 a b' c' e k] sq(1) t1 acc f(1) that by (simp add: sendQueue_me)
  ultimately show ?thesis by (auto simp: make sendQueue_me)
qed

text \<open>
  A concrete SQL server, whose collations only ignore trailing blanks, with accounts of Ann and Bob, and
  the server of \<open>Demo\<close> on it.
\<close>

definition trim_blanks :: "string \<Rightarrow> string" where
  "trim_blanks s = rev (dropWhile (\<lambda>c. c = CHR 0x20) (rev s))"

definition demo_sql :: sql_server where
  "demo_sql = \<lparr>id_key = trim_blanks, nick_key = trim_blanks, row_order = (\<lambda>rs. rs), next_time = Suc\<rparr>"

definition demo_env :: "unit cfg" where
  "demo_env = \<lparr>exec = (\<lambda>db st. (db, 0, \<lambda>_. NO_DATA)), junk = map (\<lambda>n. replicate n NUL),
     can_create = (\<lambda>_. True), can_connect = (\<lambda>_. True), ord = (\<lambda>m. m), past = (\<lambda>_. NUL)\<rparr>"

definition demo_tables :: tables where
  "demo_tables = \<lparr>cso_id = [new_row ''ann'' ''pw'' ''Ann'' 1, new_row ''bob'' ''pw'' ''Bob'' 2],
     cso_login = [], cso_direction = [], cso_chatting = [], cso_relation = [], cso_filerecv = [], getdate = 3\<rparr>"

definition on_database :: "'b \<Rightarrow> 'a server \<Rightarrow> 'b server" where
  "on_database db s = \<lparr>net_of = net_of s, idSet = idSet s, userMap = userMap s, roomMap = roomMap s,
     sendQueue = sendQueue s, sendStop = sendStop s, liveSocket = liveSocket s, udp_of = udp_of s, database = db\<rparr>"

lemma on_database_simps [simp]:
  "net_of (on_database db s) = net_of s" "idSet (on_database db s) = idSet s" "userMap (on_database db s) = userMap s"
  "roomMap (on_database db s) = roomMap s" "sendQueue (on_database db s) = sendQueue s"
  "liveSocket (on_database db s) = liveSocket s" "database (on_database db s) = db"
  by (simp_all add: on_database_def)

lemma world_ok_on_database [simp]: "world_ok (on_database db s) = world_ok s"
  by (simp add: world_ok_def sessions_ok_def maps_ok_def)

lemma chat_of_on_database [simp]: "chat_of (on_database db s) = chat_of s"
  by (simp add: chat_of_def)

abbreviation "demo_chat_world \<equiv> on_database demo_tables demo_world"

lemma demo_keys: "trim_blanks ''ann'' = ''ann''" "trim_blanks ''bob'' = ''bob''" "trim_blanks ''dora'' = ''dora''"
  "trim_blanks ''Ann'' = ''Ann''" "trim_blanks ''Bob'' = ''Bob''" "trim_blanks ''Eve'' = ''Eve''"
  by (simp_all add: trim_blanks_def)

lemma demo_tables_ok: "order_ok demo_sql" "schema_ok demo_sql demo_tables"
  by (simp_all add: order_ok_def demo_sql_def schema_defs demo_tables_def pk_def pk_cso_id_def new_row_def demo_keys)

theorem account_lifecycle_witness:
  "\<exists>s1 s2. UserMake (on_tables demo_sql demo_env) 7 (register_text ''dora'' ''pw'' ''Dora'') demo_chat_world = Inr s1 \<and>
     UserEnter (on_tables demo_sql demo_env) 7 (login_text ''dora'' ''pw'') s1 = Inr s2 \<and>
     chat_of s2 = (chat_of demo_world)(7 \<mapsto> (''dora'', ''Dora'', None))"
proof -
  have "account demo_sql demo_tables (take 10 ''dora'') = None"
    by (simp add: account_def demo_tables_def demo_sql_def pk_cso_id_def new_row_def demo_keys)
  moreover have "field ''dora''" "field ''pw''" "field ''Dora''" by (simp_all add: field_def nul_free_def)
  ultimately show ?thesis
    using account_lifecycle [of demo_chat_world demo_sql "''dora''" "''pw''" "''Dora''" demo_env 7 7]
      demo_world_ok demo_tables_ok
    by (auto simp: NAME_SIZE_def ok_iff)
qed

section \<open>Two registrations at once\<close>

text \<open>
  C17: Two clients ask at the same time for a new account with the same id. Both find it free, since the look-up
  and the insert are under two holds of the lock; the second insert then violates the primary key. The code
  does not look at the result: both clients are told that their account was made, but the only account is
  the first one's, and the second client is refused with the password it has chosen.
\<close>

theorem register_race:
  assumes sq: "order_ok sq" "schema_ok sq (database s)" and id: "account sq (database s) (take 10 a) = None"
    and f: "field a" "length a < NAME_SIZE"
      "field b1" "length b1 < 10" "field c1" "length c1 < NAME_SIZE"
      "field b2" "length b2 < 10" "field c2" "length c2 < NAME_SIZE" "b1 \<noteq> b2"
  shows "ok (run_sched [0, 1, 0, 0, 1, 1]
      (s, [UserMake_task (on_tables sq e) k1 (register_text a b1 c1), UserMake_task (on_tables sq e) k2 (register_text a b2 c2)]))
    (\<lambda>(s', ts'). ts' = [Done, Done] \<and>
      map (\<lambda>d. (sd_mySocket d, sd_msg d)) (sendQueue s') =
        map (\<lambda>d. (sd_mySocket d, sd_msg d)) (sendQueue s) @
        [(Some k1, a @ m_made @ loginBeforeMessage), (Some k2, a @ m_made @ loginBeforeMessage)] \<and>
      (\<exists>now. cso_id (database s') = cso_id (database s) @ [new_row a b1 c1 now]) \<and>
      (\<forall>k. ok (UserEnter (on_tables sq e) k (login_text a b2) s') (\<lambda>s''. chat_of s'' = chat_of s \<and>
         sd_msg (last (sendQueue s'')) = m_badPassword @ loginBeforeMessage)))"
proof -
  have len: "length (register_text a b1 c1) < BUF_SIZE" "length (register_text a b2 c2) < BUF_SIZE"
      "length (login_text a b2) < BUF_SIZE"
    using f by (simp_all add: register_text_def login_text_def NAME_SIZE_def BUF_SIZE_def)
  let ?t = "tick sq (tick sq (database s))"
  let ?r = "new_row a b1 c1 (getdate ?t)"
  let ?t1 = "tick sq (?t\<lparr>cso_id := cso_id ?t @ [?r]\<rparr>)"
  have new: "account sq ?t (take 10 a) = None" "account sq (tick sq (database s)) (take 10 a) = None" using id by simp_all
  have ins: "sql_InsertUser sq (take 10 a) b1 c1 ?t = succeeds (?t\<lparr>cso_id := cso_id ?t @ [?r]\<rparr>)"
    using sql_InsertUser_new [OF new(1) f(4,6)] .
  have acc: "account sq ?t1 (take 10 a) = Some ?r" using account_appended [OF new(1)] by simp
  have dup: "sql_InsertUser sq (take 10 a) b2 c2 ?t1 = fails ?t1" using acc by (simp add: sql_InsertUser_taken)
  have ok1: "schema_ok sq ?t1" using sql_InsertUser_keeps [of sq ?t "take 10 a" b1 c1] ins sq(2) by simp
  note sel = selectUser_tables_none [OF sq id fieldD(1) [OF f(1)]]
    selectUser_tables_none [OF sq(1) _ new(2) fieldD(1) [OF f(1)]]
  have enter: "ok (UserEnter (on_tables sq e) k (login_text a b2) s') (\<lambda>s''. chat_of s'' = chat_of s' \<and>
         sd_msg (last (sendQueue s'')) = m_badPassword @ loginBeforeMessage)"
    if "database s' = tick sq ?t1" for k s'
    using UserEnter_tables_wrong [of sq s' a ?r b2 e k] that sq(1) ok1 acc f len(3)
    by (simp add: new_row_def column_id fieldD(1) sendQueue_me)
  let ?made = "\<lambda>k. InsertSendQueue SEND_ME (a @ m_made @ loginBeforeMessage) '''' k STATUS_LOGOUT"
  have "run_sched [0, 1, 0, 0, 1, 1]
      (s, [UserMake_task (on_tables sq e) k1 (register_text a b1 c1), UserMake_task (on_tables sq e) k2 (register_text a b2 c2)]) =
    Inr (?made k2 ((?made k1 (s\<lparr>database := ?t1\<rparr>))\<lparr>database := tick sq ?t1\<rparr>), [Done, Done])"
    using f ins dup sq(2)
    by (simp add: UserMake_task_def UserMake_store_def request_texts(2) len(1,2) sel say_def UserVo_none(1) Let_def
        InsertUser_none fieldD(1) chat_execs)
  then show ?thesis
    using enter [of "?made k2 ((?made k1 (s\<lparr>database := ?t1\<rparr>))\<lparr>database := tick sq ?t1\<rparr>)"]
    by (auto simp: InsertSendQueue_def chat_of_def)
qed

theorem register_race_witness:
  "\<exists>s' ts'. run_sched [0, 1, 0, 0, 1, 1] (demo_chat_world,
      [UserMake_task (on_tables demo_sql demo_env) 7 (register_text ''dora'' ''pw'' ''Dora''),
       UserMake_task (on_tables demo_sql demo_env) 8 (register_text ''dora'' ''hers'' ''Dorothy'')]) = Inr (s', ts') \<and>
     map ac_password (cso_id (database s')) = [''pw'', ''pw'', ''pw''] \<and>
     map sd_msg (sendQueue s') = [''dora'' @ m_made @ loginBeforeMessage, ''dora'' @ m_made @ loginBeforeMessage]"
proof -
  have "account demo_sql demo_tables (take 10 ''dora'') = None"
    by (simp add: account_def demo_tables_def demo_sql_def pk_cso_id_def new_row_def demo_keys)
  moreover have "field ''dora''" "field ''pw''" "field ''Dora''" "field ''hers''" "field ''Dorothy''"
    by (simp_all add: field_def nul_free_def)
  ultimately have "ok (run_sched [0, 1, 0, 0, 1, 1] (demo_chat_world,
      [UserMake_task (on_tables demo_sql demo_env) 7 (register_text ''dora'' ''pw'' ''Dora''),
       UserMake_task (on_tables demo_sql demo_env) 8 (register_text ''dora'' ''hers'' ''Dorothy'')]))
    (\<lambda>(s', ts'). map (\<lambda>d. (sd_mySocket d, sd_msg d)) (sendQueue s') =
        [(Some 7, ''dora'' @ m_made @ loginBeforeMessage), (Some 8, ''dora'' @ m_made @ loginBeforeMessage)] \<and>
      (\<exists>now. cso_id (database s') = cso_id demo_tables @ [new_row ''dora'' ''pw'' ''Dora'' now]))"
    using register_race [of demo_sql demo_chat_world "''dora''" "''pw''" "''Dora''" "''hers''" "''Dorothy''" demo_env 7 8]
      demo_tables_ok
    by (auto simp: NAME_SIZE_def elim!: ok_mono)
  then show ?thesis by (auto simp: ok_iff demo_tables_def new_row_def map_eq_Cons_conv)
qed

section \<open>One account, two sessions\<close>

text \<open>
  C18: The check for a second login compares what the client typed, byte by byte; the database compares the
  first ten characters, by a collation that ignores trailing blanks. Somebody who types an id differently,
  but so that the database finds the same account, gets a second session on an account that is logged in.
\<close>

theorem second_session:
  assumes s: "world_ok s" and sq: "order_ok sq" "schema_ok sq (database s)"
    and one: "chat_of s k1 = Some (a1, n1, room)" "account sq (database s) (take 10 a1) = Some r"
    and two: "id_key sq (take 10 a2) = id_key sq (take 10 a1)" "a2 \<notin> idSet s" "k2 \<noteq> k1"
    and f: "field a2" "length a2 < NAME_SIZE" "field b" "column 10 (ac_password r) = b"
  shows "ok (UserEnter (on_tables sq e) k2 (login_text a2 b) s) (\<lambda>s'.
    chat_of s' k1 = Some (a1, n1, room) \<and> chat_of s' k2 = Some (a2, column 20 (ac_nickname r), None))"
proof -
  have "account sq (database s) (take 10 a2) = Some r" using one(2) two(1) by (simp add: account_def)
  note enter = UserEnter_tables_right [OF sq this f(1-3) two(2) f(4), of e k2]
  have "length (column 20 (ac_nickname r)) < NAME_SIZE" "nul_free (column 20 (ac_nickname r))"
    using column_props [of 20 "ac_nickname r"] by (simp_all add: NAME_SIZE_def)
  then show ?thesis
    using one(1) two(3) world_okD(1) [OF s] session_for_ok(2,3,5) [of a2 "column 20 (ac_nickname r)"] f(1,2)
    by (simp add: enter chat_of_def map_of_um_put fieldD(1))
qed

text \<open>Ann is in the waiting room; another client types a blank after her id.\<close>

theorem second_session_witness:
  "ok (UserEnter (on_tables demo_sql demo_env) 7 (login_text ''ann '' ''pw'') demo_chat_world) (\<lambda>s'.
     chat_of s' 5 = Some (''ann'', ''Ann'', None) \<and> chat_of s' 7 = Some (''ann '', ''Ann'', None))"
proof -
  have "account demo_sql demo_tables (take 10 ''ann'') = Some (new_row ''ann'' ''pw'' ''Ann'' 1)"
    by (simp add: account_def demo_tables_def demo_sql_def pk_cso_id_def new_row_def demo_keys)
  moreover have "id_key demo_sql (take 10 ''ann '') = id_key demo_sql (take 10 ''ann'')"
    by (simp add: demo_sql_def trim_blanks_def)
  moreover have "field ''ann ''" "field ''pw''" by (simp_all add: field_def nul_free_def)
  moreover have "column 10 ''pw'' = ''pw''" "column 20 ''Ann'' = ''Ann''" by (simp_all add: column_id nul_free_def)
  ultimately show ?thesis
    using second_session [of demo_chat_world demo_sql 5 "''ann''" "''Ann''" None
        "new_row ''ann'' ''pw'' ''Ann'' 1" "''ann ''" 7 "''pw''" demo_env] demo_world_ok demo_tables_ok
    by (simp add: new_row_def NAME_SIZE_def demo_chat)
qed

section \<open>The log of the chats\<close>

text \<open>
  C24: A line said in a room is queued for the room and put into the log of the chats only if the name of the
  room has at most ten characters, although names of up to nineteen are made and entered, and the speaker has
  no other line at the same instant. The code does not look at the result of the insert.
\<close>

theorem chat_log:
  assumes s: "world_ok s" and k: "map_of (userMap s) k = Some u" "status u = STATUS_CHATTIG"
    and m: "nul_free message" "length message < 512" "message \<noteq> s_out" "\<not> contains s_add message"
    and d: "direction \<noteq> USER_GOOD" "direction \<noteq> FILE_SEND"
  shows "ok (StatusChat (on_tables sq e) k direction message s) (\<lambda>s'.
    sd_msg (last (sendQueue s')) = uname u @ '':'' @ message \<and> sd_roomName (last (sendQueue s')) = rname u \<and>
    cso_chatting (database s') = cso_chatting (database s) @
      (if length (rname u) \<le> 10 \<and>
          (\<forall>r\<in>set (cso_chatting (database s)). ch_logdate r = getdate (database s) \<longrightarrow>
             nick_key sq (ch_nickname r) \<noteq> nick_key sq (uname u))
       then [\<lparr>ch_nickname = uname u, ch_logdate = getdate (database s), ch_roomname = rname u, ch_message = message\<rparr>]
       else []))"
proof -
  have "length (uname u) \<le> 20" using user_ok_lengths(1) [OF world_user(1) [OF s k(1)]] by (simp add: NAME_SIZE_def)
  moreover have "new_key (pk_cso_chatting sq) \<lparr>ch_nickname = uname u, ch_logdate = now, ch_roomname = rn, ch_message = x\<rparr> rows \<longleftrightarrow>
      (\<forall>r\<in>set rows. ch_logdate r = now \<longrightarrow> nick_key sq (ch_nickname r) \<noteq> nick_key sq (uname u))" for now rn x rows
    by (fastforce simp: new_key_def pk_cso_chatting_def image_iff)
  ultimately show ?thesis
    using m(2) by (simp add: chat_line [OF assms] chat_execs sql_InsertChatting_def Let_def)
qed

theorem chat_log_witness:
  "ok (StatusChat (on_tables demo_sql demo_env) 6 DIRECTION_MAX ''hello'' demo_chat_world) (\<lambda>s'.
     cso_chatting (database s') =
       [\<lparr>ch_nickname = ''Bob'', ch_logdate = 3, ch_roomname = ''den'', ch_message = ''hello''\<rparr>])"
proof -
  have "cso_chatting demo_tables = []" "getdate demo_tables = 3" by (simp_all add: demo_tables_def)
  then show ?thesis
    using chat_log [of demo_chat_world 6 Bob "''hello''" DIRECTION_MAX demo_sql demo_env] demo_world_ok
    by (auto simp: nul_free_def s_out_def s_add_def elim!: ok_mono)
qed

end
