(* ===== verification/Friends.thy ===== *)
theory Friends
  imports Ledger
begin

text \<open>
  The lists of friends, on the tables of the schema: what \<open>FriendAdd\<close>, \<open>FriendInfo\<close> and \<open>FriendDelete\<close> do to
  the table of relations, and what they tell the client.
\<close>

section \<open>The statements\<close>

lemma relation_reads:
  assumes "nul_free m" "length m < NAME_SIZE" "nul_free i"
  shows "getNickName (setNickName m RelationVo_new) = Inr m"
    "getUserId (setUserId i RelationVo_new) = Inr (take 10 i)"
    "getUserId (setNickName m (setRelationcode c (setUserId i RelationVo_new))) = Inr (take 10 i)"
    "getNickName (setNickName m (setRelationcode c (setUserId i RelationVo_new))) = Inr m"
    "relationcode_v (setNickName m (setRelationcode c (setUserId i RelationVo_new))) = c"
  using assms by (simp_all add: vo_defs vo_simps cstr_strncpy NAME_SIZE_def)

lemma findUserId_none:
  assumes "order_ok sq" "named sq m t = []" "nul_free m" "length m < NAME_SIZE"
  shows "findUserId (on_tables sq e) (setNickName m RelationVo_new) t =
    Inr (setRelationto '''' RelationVo_new, tick sq t)"
  using assms row_order_simps(1) [OF assms(1)]
  by (simp add: findUserId_def relation_reads(1) chat_execs sql_findUserId_def answers_def ticked_def Let_def)

lemma findUserId_named:
  assumes "order_ok sq" "named sq m t = [r]" "nul_free m" "length m < NAME_SIZE"
  shows "findUserId (on_tables sq e) (setNickName m RelationVo_new) t =
    Inr (setNickName (column 20 (ac_nickname r)) (setRelationto (column 10 (ac_userid r)) RelationVo_new), tick sq t)"
  using assms row_order_simps(2) [OF assms(1)]
  by (simp add: findUserId_def relation_reads(1) chat_execs sql_findUserId_def answers_def ticked_def Let_def)

lemma found_reads:
  assumes "nul_free i"
  shows "getRelationto (RelationVo_copy (setNickName (column 20 n) (setRelationto (column 10 a) RelationVo_new))) =
      Inr (column 10 a)"
    "getRelationto (setRelationcode c (setUserId i (RelationVo_copy (setNickName (column 20 n)
       (setRelationto (column 10 a) RelationVo_new))))) = Inr (column 10 a)"
    "getUserId (setRelationcode c (setUserId i (RelationVo_copy (setNickName (column 20 n)
       (setRelationto (column 10 a) RelationVo_new))))) = Inr (take 10 i)"
    "relationcode_v (setRelationcode c (setUserId i (RelationVo_copy (setNickName (column 20 n)
       (setRelationto (column 10 a) RelationVo_new))))) = c"
  using assms column_props(2) [of 10 a]
  by (simp_all add: RelationVo_copy_def Vo_copy_def vo_defs vo_simps upto_nul_strncpy cstr_strncpy
      less_trans [of _ 10 20] less_imp_le)

section \<open>Adding and deleting\<close>

lemma FriendAdd_named:
  assumes s: "world_ok s" and k: "map_of (userMap s) k = Some u" and sq: "order_ok sq"
    and m: "nul_free m" "length m < NAME_SIZE" and r: "named sq m (database s) = [r]" "column 10 (ac_userid r) \<noteq> ''''"
    and ins: "ticked sq (sql_InsertRelation sq (take 10 (uid u)) (column 10 (ac_userid r)) 1 (tick sq (database s))) =
      (t, res, f)"
  shows "FriendAdd (on_tables sq e) k m s =
    Inr (InsertSendQueue SEND_ME (if res \<noteq> -1 then m @ m_friendAdded else m @ m_friendAddFailed) '''' k STATUS_WAITING
      (s\<lparr>database := t\<rparr>))"
  using r(2) ins
  by (simp add: FriendAdd_def session_names_ok [OF s k] findUserId_named [OF sq r(1) m] found_reads [of "uid u"] InsertRelation_def
      chat_execs Let_def)

lemma FriendAdd_none:
  assumes s: "world_ok s" and k: "map_of (userMap s) k = Some u" and sq: "order_ok sq"
    and m: "nul_free m" "length m < NAME_SIZE" and r: "named sq m (database s) = []"
  shows "FriendAdd (on_tables sq e) k m s =
    Inr (InsertSendQueue SEND_ME m_noSuchId '''' k STATUS_WAITING (s\<lparr>database := tick sq (database s)\<rparr>))"
proof -
  have "getRelationto (RelationVo_copy (setRelationto '''' RelationVo_new)) = Inr ''''"
    by (simp add: RelationVo_copy_def Vo_copy_def vo_defs vo_simps upto_nul_strncpy)
  then show ?thesis by (simp add: FriendAdd_def session_names_ok [OF s k] findUserId_none [OF sq r m] Let_def)
qed

lemma FriendDelete_tables:
  assumes s: "world_ok s" and k: "map_of (userMap s) k = Some u" and m: "nul_free m" "length m < NAME_SIZE"
    and del: "ticked sq (sql_DeleteRelation sq (take 10 (uid u)) 1 m (database s)) = (t, res, f)"
  shows "FriendDelete (on_tables sq e) k m s =
    Inr (InsertSendQueue SEND_ME (if res \<noteq> -1 then m @ m_friendDeleted else m_friendDeleteFailed @ waitRoomMessage)
      '''' k STATUS_WAITING (s\<lparr>database := t\<rparr>))"
  using del
  by (simp add: FriendDelete_def session_names_ok [OF s k] DeleteRelation_def relation_reads [OF m] chat_execs Let_def)

section \<open>The list\<close>

text \<open>What \<open>selectFriends\<close> reads back of a row, and the line that is made of it.\<close>

definition where_is :: "'db server \<Rightarrow> string \<Rightarrow> string" where
  "where_is s nick =
     (case List.find (\<lambda>(k, u). uname u = nick) (userMap s) of
        None \<Rightarrow> m_offline
      | Some (_, u) \<Rightarrow> if rname u = '''' then m_waitingRoom else rname u)"

definition friend_line :: "'db server \<Rightarrow> string \<Rightarrow> string" where
  "friend_line s nick = [CHR 0x0A] @ nick @ '':'' @ where_is s nick"

lemma friend_of_nick: "getNickName (friend_of q) = Inr (column 20 (q 2))"
  using column_props(2) [of 10 "q 1"] column_props(2) [of 10 "q 0"] column_props(2) [of 20 "q 2"]
  by (simp add: friend_of_def RelationVo_copy_def Vo_copy_def vo_defs vo_simps upto_nul_strncpy cstr_strncpy
      less_imp_le less_trans [of _ 10 20])

lemma friend_lines_found:
  assumes "world_ok s"
  shows "friend_lines (map friend_of qs) (userMap s) = Inr (concat (map (\<lambda>q. friend_line s (column 20 (q 2))) qs))"
proof (induction qs)
  case (Cons q qs)
  have "map_of (userMap s) (fst x) = Some (snd x)"
    if "List.find (\<lambda>(k, u). uname u = nick) (userMap s) = Some x" for x nick
  proof -
    obtain k u where "x = (k, u)" by (cases x)
    then show ?thesis using find_SomeD(1) [OF world_okD(1) [OF assms]] that by simp
  qed
  then have "NUL \<in> set (roomName (snd x))"
    if "List.find (\<lambda>(k, u). uname u = nick) (userMap s) = Some x" for x nick
    using that world_user(1) [OF assms] user_okD(2) by blast
  then have "sbind (find_user nick (userMap s)) (\<lambda>hit. sbind (case hit of None \<Rightarrow> Inr m_offline
        | Some (_, u) \<Rightarrow> sbind (cstr (roomName u)) (\<lambda>rn. Inr (if rn = '''' then m_waitingRoom else rn))) g) =
      g (where_is s nick)" for nick and g :: "string \<Rightarrow> cpp_error + string"
    by (force simp: world_find_user [OF assms] where_is_def cstr_def split: option.split)
  with Cons show ?case by (simp add: friend_of_nick friend_line_def)
qed simp

text \<open>The nicknames of somebody's friends, in the order of the table.\<close>

definition friend_names :: "sql_server \<Rightarrow> string \<Rightarrow> tables \<Rightarrow> string list" where
  "friend_names sq i t = map (\<lambda>(l, r). column 20 (ac_nickname r)) (friends_join sq (take 10 i) t)"

lemma selectFriends_tables:
  assumes sq: "order_ok sq" and i: "nul_free i"
  obtains qs where "selectFriends (on_tables sq e) (setUserId i RelationVo_new) t = Inr (map friend_of qs, tick sq t)"
    "mset (map (\<lambda>q. column 20 (q 2)) qs) = mset (friend_names sq i t)"
proof -
  define qs where "qs = row_order sq (map (\<lambda>(l, r). result_row [rl_from l, rl_to l, ac_nickname r])
    (friends_join sq (take 10 i) t))"
  let ?f = "\<lambda>j. if j < length qs then ROW (qs ! j) else NO_DATA"
  have "chat_exec sq t \<lparr>query = q_selectFriends, params = [SqlText (take 10 i)], cols = [10, 10, 20]\<rparr> = (tick sq t, 0, ?f)"
    unfolding qs_def by (simp add: chat_execs sql_selectFriends_def answers_def ticked_def comp_def split_def Let_def cong: if_cong)
  moreover have "fetch_friends ?f 0 (junk (on_tables sq e) [10, 10, 20]) [] =
      Some (Inr (map (\<lambda>j. friend_of (qs ! j)) [0..<length qs]))"
    using fetch_friends_rows [of "length qs" ?f 0 "\<lambda>j. qs ! j"] by simp
  moreover have "map (\<lambda>j. friend_of (qs ! j)) [0..<length qs] = map friend_of qs"
    by (rule nth_equalityI) simp_all
  ultimately have "selectFriends (on_tables sq e) (setUserId i RelationVo_new) t = Inr (map friend_of qs, tick sq t)"
    using i by (simp add: selectFriends_def vo_defs vo_simps)
  moreover have "mset qs = mset (map (\<lambda>(l, r). result_row [rl_from l, rl_to l, ac_nickname r]) (friends_join sq (take 10 i) t))"
    using sq by (simp add: order_ok_def qs_def)
  then have "mset (map (\<lambda>q. column 20 (q 2)) qs) = mset (friend_names sq i t)"
    by (simp add: friend_names_def split_def image_mset.compositionality comp_def)
  ultimately show thesis by (rule that)
qed

lemma FriendInfo_tables:
  assumes s: "world_ok s" and k: "map_of (userMap s) k = Some u" and sq: "order_ok sq"
  obtains nicks where "mset nicks = mset (friend_names sq (uid u) (database s))"
    "FriendInfo (on_tables sq e) k s =
      Inr (InsertSendQueue SEND_ME (m_friendList @ (if nicks = [] then m_noFriends else concat (map (friend_line s) nicks)))
        '''' k STATUS_WAITING (s\<lparr>database := tick sq (database s)\<rparr>))"
proof -
  obtain qs where qs: "selectFriends (on_tables sq e) (setUserId (uid u) RelationVo_new) (database s) =
      Inr (map friend_of qs, tick sq (database s))"
    "mset (map (\<lambda>q. column 20 (q 2)) qs) = mset (friend_names sq (uid u) (database s))"
    by (rule selectFriends_tables [OF sq nul_free_upto_nul])
  show thesis
    by (rule that [OF qs(2)])
      (simp add: FriendInfo_def session_names_ok [OF s k] qs(1) friend_lines_found [OF s] comp_def)
qed

section \<open>A friend comes and goes\<close>

lemma product_snoc: "List.product (xs @ [y]) zs = List.product xs zs @ map (Pair y) zs"
  by (induction xs) simp_all

lemma friends_join_added:
  assumes "pk (pk_cso_id sq) (cso_id t)" "r \<in> set (cso_id t)" "id_key sq (rl_to l) = pk_cso_id sq r"
    and "id_key sq (rl_from l) = id_key sq a" "rl_code l = 1"
  shows "friends_join sq a (t\<lparr>cso_relation := cso_relation t @ [l]\<rparr>) = friends_join sq a t @ [(l, r)]"
proof -
  have "[r' \<leftarrow> cso_id t. pk_cso_id sq r = pk_cso_id sq r'] = [r]"
    using pk_one [OF assms(1,2)] by (simp add: eq_commute)
  then show ?thesis
    using assms(3-5) by (simp add: friends_join_def product_snoc filter_map comp_def)
qed

lemma sql_InsertRelation_new:
  assumes "account sq t (take 10 i) \<noteq> None" "length b < 10"
    and "(id_key sq (take 10 i), 1, id_key sq b) \<notin> pk_cso_relation sq ` set (cso_relation t)"
  shows "sql_InsertRelation sq (take 10 i) b 1 t = succeeds (t\<lparr>cso_relation := cso_relation t @
    [\<lparr>rl_from = take 10 i, rl_to = b, rl_code = 1, rl_regdate = getdate t\<rparr>]\<rparr>)"
  using assms account_None [of sq t "take 10 i"]
  by (simp add: sql_InsertRelation_def new_key_def Let_def) (simp add: pk_cso_relation_def)

lemma sql_DeleteRelation_one:
  assumes "named sq m t = [r]"
    and "(id_key sq a, 1, id_key sq (ac_userid r)) \<notin> pk_cso_relation sq ` set ls"
    and "pk_cso_relation sq l = (id_key sq a, 1, id_key sq (ac_userid r))" "cso_relation t = ls @ [l]"
  shows "sql_DeleteRelation sq a 1 m t = succeeds (t\<lparr>cso_relation := ls\<rparr>)"
proof -
  have "[l' \<leftarrow> ls. pk_cso_relation sq l' \<noteq> (id_key sq a, 1, id_key sq (ac_userid r))] = ls"
    using assms(2) by (intro filter_True) (auto simp: image_iff)
  with assms show ?thesis by (simp add: sql_DeleteRelation_def Let_def)
qed


text \<open>Ann adds Bob, on the tables of \<open>demo_tables\<close>.\<close>

lemma demo_named: "named demo_sql ''Bob'' demo_tables = [new_row ''bob'' ''pw'' ''Bob'' 2]"
  by (simp add: named_def demo_tables_def demo_sql_def new_row_def demo_keys)

lemma demo_accounts: "account demo_sql demo_tables ''ann'' \<noteq> None"
  by (simp add: account_def demo_tables_def demo_sql_def pk_cso_id_def new_row_def demo_keys)


section \<open>Where the replies are wrong\<close>

lemma FriendDelete_nothing:
  assumes s: "world_ok s" and k: "map_of (userMap s) k = Some u" and m: "nul_free m" "length m < NAME_SIZE"
    and no: "\<forall>r\<in>set (named sq m (database s)).
      (id_key sq (take 10 (uid u)), 1, id_key sq (ac_userid r)) \<notin> pk_cso_relation sq ` set (cso_relation (database s))"
    and one: "length (named sq m (database s)) \<le> 1"
  shows "FriendDelete (on_tables sq e) k m s =
    Inr (InsertSendQueue SEND_ME (m @ m_friendDeleted) '''' k STATUS_WAITING (s\<lparr>database := tick sq (database s)\<rparr>))"
proof -
  have "sql_DeleteRelation sq (take 10 (uid u)) 1 m (database s) = touches_none (database s)"
    using no one by (cases "named sq m (database s)") (auto simp: sql_DeleteRelation_def Let_def)
  then show ?thesis using FriendDelete_tables [OF s k m, of sq "tick sq (database s)" 100 "\<lambda>_. NO_DATA" e] by simp
qed

lemma FriendDelete_ambiguous:
  assumes s: "world_ok s" and k: "map_of (userMap s) k = Some u" and m: "nul_free m" "length m < NAME_SIZE"
    and two: "2 \<le> length (named sq m (database s))"
  shows "FriendDelete (on_tables sq e) k m s =
    Inr (InsertSendQueue SEND_ME (m_friendDeleteFailed @ waitRoomMessage) '''' k STATUS_WAITING
      (s\<lparr>database := tick sq (database s)\<rparr>))"
proof -
  have "sql_DeleteRelation sq (take 10 (uid u)) 1 m (database s) = fails (database s)"
    using two by (auto simp: sql_DeleteRelation_def split: list.split)
  then show ?thesis using FriendDelete_tables [OF s k m, of sq "tick sq (database s)" "-1" "\<lambda>_. NO_DATA" e] by simp
qed

text \<open>
  C39: A request to delete somebody who is not a friend, or whom nobody's nickname fits, is answered with the
  reply that the friend was deleted: \<open>SQLExecute\<close> returns \<open>SQL_NO_DATA\<close> when there is no row to delete, and
  the code takes everything but \<open>SQL_ERROR\<close> for success. When two accounts have the nickname, the
  subquery of the statement has two rows and the deletion fails, even of a friend. Either way no relation
  changes.
\<close>

theorem delete_replies:
  assumes s: "world_ok s" and k: "map_of (userMap s) k = Some u" and m: "nul_free m" "length m < NAME_SIZE"
    and no: "2 \<le> length (named sq m (database s)) \<or>
      (\<forall>r\<in>set (named sq m (database s)). (id_key sq (take 10 (uid u)), 1, id_key sq (ac_userid r)) \<notin>
         pk_cso_relation sq ` set (cso_relation (database s)))"
  shows "ok (FriendDelete (on_tables sq e) k m s) (\<lambda>s'.
    cso_relation (database s') = cso_relation (database s) \<and>
    sd_msg (last (sendQueue s')) =
      (if length (named sq m (database s)) < 2 then m @ m_friendDeleted else m_friendDeleteFailed @ waitRoomMessage))"
proof (cases "length (named sq m (database s)) < 2")
  case True
  with no FriendDelete_nothing [OF s k m, of sq e] show ?thesis by (auto simp: sendQueue_me)
next
  case False
  with FriendDelete_ambiguous [OF s k m, of sq e] show ?thesis by (simp add: sendQueue_me)
qed

theorem delete_replies_witness:
  "ok (FriendDelete (on_tables demo_sql demo_env) 5 ''Eve'' demo_chat_world) (\<lambda>s'.
     sd_msg (last (sendQueue s')) = ''Eve'' @ m_friendDeleted)"
proof -
  have "named demo_sql ''Eve'' demo_tables = []"
    by (simp add: named_def demo_tables_def demo_sql_def new_row_def demo_keys)
  then show ?thesis
    using delete_replies [of demo_chat_world 5 Ann "''Eve''" demo_sql demo_env] demo_world_ok
    by (auto simp: nul_free_def NAME_SIZE_def elim!: ok_mono)
qed

lemma column_cut: "nul_free x \<Longrightarrow> length x = n \<Longrightarrow> column n x = take (n - 1) x"
  by (simp add: column_def upto_nul_id nul_free_take)

lemma friends_join_dangling:
  assumes "account sq t (rl_to l) = None"
  shows "friends_join sq a (t\<lparr>cso_relation := cso_relation t @ [l]\<rparr>) = friends_join sq a t"
proof -
  have "\<forall>r\<in>set (cso_id t). id_key sq (rl_to l) \<noteq> pk_cso_id sq r"
    using assms account_None [of sq t "rl_to l"] by auto
  then show ?thesis by (simp add: friends_join_def product_snoc filter_map comp_def filter_empty_conv)
qed

text \<open>
  An account whose id has ten characters, as many as the schema allows, cannot be a friend: \<open>findUserId\<close>
  reads the id into ten bytes with a terminator, so the relation is stored with nine characters. The client is
  told that the friend was added, the list of friends does not change, and deleting the friend, which is
  reported as done too, leaves the relation.
\<close>

theorem ten_character_friend:
  assumes s: "world_ok s" and k: "map_of (userMap s) k = Some u" and sq: "order_ok sq"
    and me: "account sq (database s) (take 10 (uid u)) \<noteq> None"
    and m: "nul_free m" "length m < NAME_SIZE"
    and r: "named sq m (database s) = [r]" "nul_free (ac_userid r)" "length (ac_userid r) = 10"
    and nobody: "account sq (database s) (take 9 (ac_userid r)) = None"
    and new: "\<forall>l\<in>set (cso_relation (database s)). id_key sq (rl_from l) \<noteq> id_key sq (take 10 (uid u))"
  shows "ok (FriendAdd (on_tables sq e) k m s) (\<lambda>s1.
    sd_msg (last (sendQueue s1)) = m @ m_friendAdded \<and>
    friend_names sq (uid u) (database s1) = friend_names sq (uid u) (database s) \<and>
    ok (FriendDelete (on_tables sq e) k m s1) (\<lambda>s2.
      sd_msg (last (sendQueue s2)) = m @ m_friendDeleted \<and>
      length (cso_relation (database s2)) = Suc (length (cso_relation (database s)))))"
proof -
  let ?t = "tick sq (database s)" and ?i = "take 9 (ac_userid r)"
  let ?l = "\<lparr>rl_from = take 10 (uid u), rl_to = ?i, rl_code = 1, rl_regdate = getdate ?t\<rparr>"
  let ?t1 = "tick sq (?t\<lparr>cso_relation := cso_relation ?t @ [?l]\<rparr>)"
  let ?s1 = "InsertSendQueue SEND_ME (m @ m_friendAdded) '''' k STATUS_WAITING (s\<lparr>database := ?t1\<rparr>)"
  have col: "column 10 (ac_userid r) = ?i" using column_cut [OF r(2,3)] by simp
  have "?i \<noteq> ''''" using r(3) by auto
  moreover have "sql_InsertRelation sq (take 10 (uid u)) ?i 1 ?t = succeeds (?t\<lparr>cso_relation := cso_relation ?t @ [?l]\<rparr>)"
    using new me by (intro sql_InsertRelation_new) (auto simp: pk_cso_relation_def)
  ultimately have add: "FriendAdd (on_tables sq e) k m s = Inr ?s1"
    using FriendAdd_named [OF s k sq m r(1), of ?t1 0 "\<lambda>_. NO_DATA" e] col by simp
  have "friends_join sq (take 10 (uid u)) ?t1 = friends_join sq (take 10 (uid u)) (database s)"
    using friends_join_dangling [of sq ?t ?l] nobody by simp
  then have names: "friend_names sq (uid u) ?t1 = friend_names sq (uid u) (database s)" by (simp add: friend_names_def)
  have "r \<in> set (cso_id (database s))" using arg_cong [OF r(1), of set] by (auto simp: named_def)
  then have "pk_cso_id sq r \<noteq> id_key sq ?i" using nobody account_None [of sq "database s" ?i] by (metis imageI)
  then have "id_key sq (ac_userid r) \<noteq> id_key sq ?i" by (simp add: pk_cso_id_def)
  then have "FriendDelete (on_tables sq e) k m ?s1 = Inr (InsertSendQueue SEND_ME (m @ m_friendDeleted) '''' k
      STATUS_WAITING (?s1\<lparr>database := tick sq (database ?s1)\<rparr>))"
    using s k m r(1) new
    by (intro FriendDelete_nothing [of ?s1 k u]) (auto simp: pk_cso_relation_def named_def)
  then have "ok (FriendDelete (on_tables sq e) k m ?s1) (\<lambda>s2. sd_msg (last (sendQueue s2)) = m @ m_friendDeleted \<and>
      length (cso_relation (database s2)) = Suc (length (cso_relation (database s))))"
    by (simp add: sendQueue_me)
  then show ?thesis unfolding add ok.simps using names by (simp add: sendQueue_me)
qed

text \<open>An account with an id of ten characters.\<close>

definition long_tables :: tables where
  "long_tables = demo_tables\<lparr>cso_id := cso_id demo_tables @ [new_row ''choiinsung'' ''pw'' ''Choi'' 3]\<rparr>"

theorem ten_character_friend_witness:
  "ok (FriendAdd (on_tables demo_sql demo_env) 5 ''Choi'' (on_database long_tables demo_world)) (\<lambda>s1.
    sd_msg (last (sendQueue s1)) = ''Choi'' @ m_friendAdded \<and>
    friend_names demo_sql ''ann'' (database s1) = [])"
proof -
  have keys: "trim_blanks ''choiinsung'' = ''choiinsung''" "trim_blanks ''choiinsun'' = ''choiinsun''"
    "trim_blanks ''Choi'' = ''Choi''"
    by (simp_all add: trim_blanks_def)
  have "named demo_sql ''Choi'' long_tables = [new_row ''choiinsung'' ''pw'' ''Choi'' 3]"
    "account demo_sql long_tables (take 9 ''choiinsung'') = None" "account demo_sql long_tables ''ann'' \<noteq> None"
    by (simp_all add: named_def account_def long_tables_def demo_tables_def demo_sql_def pk_cso_id_def new_row_def
        keys demo_keys)
  moreover have "friend_names demo_sql ''ann'' long_tables = []" "cso_relation long_tables = []"
    by (simp_all add: friend_names_def friends_join_def long_tables_def demo_tables_def)
  ultimately show ?thesis
    using ten_character_friend [of "on_database long_tables demo_world" 5 Ann demo_sql "''Choi''"
        "new_row ''choiinsung'' ''pw'' ''Choi'' 3" demo_env] demo_world_ok demo_tables_ok(1)
    by (auto simp: new_row_def nul_free_def NAME_SIZE_def elim!: ok_mono)
qed

end
