(* ===== verification/Spec2Isabelle.thy ===== *)
theory Spec2Isabelle
  imports Accounts Rooms EndToEnd MemPools Requests Startup Friends
begin

text \<open>
  A model of a chat program written in C++ for Windows: a server on an I/O completion port
  (\<open>src/Chat/Server\<close>), its console client and its load generator (\<open>src/Chat/Client\<close>), and the memory
  pools it was developed with (\<open>src/Chat/MemoryPool\<close>).

  \<^bold>\<open>The program.\<close> Clients and server exchange packets over TCP: two bytes of size, four of status,
  four of direction, a C string. On either side a completed receive (\<open>RecvThread\<close> of \<open>Server.cpp\<close>,
  \<open>RecvMsgThread\<close> of \<open>Client.cpp\<close> and \<open>BClient.cpp\<close>) is cut into packets by \<open>PacketReading\<close> and \<open>DataCopy\<close>,
  which take their memory from the pools \<open>CharPool\<close> and \<open>MPool\<close>. The server turns every packet into a
  job; \<open>WorkThread\<close> hands it to the handlers of \<open>BusinessService\<close> through two tables of functions,
  by the status of the session and by the direction. The handlers keep the sessions (\<open>userMap\<close>), the
  rooms (\<open>roomMap\<close>), the ids in use (\<open>idSet\<close>) and the live connections (\<open>liveSocket\<close>), ask the database
  (\<open>Dao\<close>), put replies in a queue that \<open>Sendwork\<close> empties through \<open>IocpService\<close>, and exchange files
  over UDP (\<open>FileService\<close>).

  \<^bold>\<open>How C++ is modelled.\<close> An operation that can meet undefined behaviour, \<open>exit\<close>, an endless loop or a
  wait for ever returns \<open>cpp_error + 'a\<close>: \<open>Inl\<close> says what happens, \<open>Inr\<close> has the result. A theorem of the
  form \<open>ok m P\<close> says that \<open>m\<close> returns a value with \<open>P\<close>. Arrays have their size, and \<open>strncpy\<close> leaves out
  the terminator as it does in C. \<open>short\<close> and \<open>int\<close> wrap at their width where the code stores them.
  Pool memory is addressed by the byte: a write past a block changes the next one, a write past all
  memory is \<open>HeapOverflow\<close>. Loops that may not end are partial functions into \<open>option\<close>; None is the
  loop that does not end. Everything the code calls but does not contain is a parameter: the SQL server
  (\<open>exec\<close>, of which \<open>chat_exec\<close> is an instance), uninitialised memory (\<open>junk\<close>, \<open>raw\<close>, \<open>past\<close>), the order of an \<open>unordered_map\<close> (\<open>ord\<close>), which files
  and addresses can be opened, the numbers of \<open>rand\<close>. The names of definitions are those of the code;
  a prefix \<open>cl_\<close> or \<open>bot_\<close> marks those of the console client and the load generator.

  \<^bold>\<open>The theories,\<close> each with the code it models.
  \<^item> \<open>Prelude\<close>: errors, C strings, \<open>strtok\<close>, bytes of integers. \<open>Containers\<close>: \<open>std::map\<close>,
    \<open>std::unordered_map\<close>, \<open>ConcurrentQueue.h\<close>, with the contracts \<open>cpp_map\<close> and \<open>fifo\<close>.
    \<open>Common\<close>: \<open>Server/common.h\<close>.
  \<^item> \<open>Pools\<close>: \<open>Server/CharPool.*\<close>, \<open>MPool.*\<close>, contract \<open>block_allocator\<close>. \<open>BytePool\<close>: the contract
    \<open>byte_pool\<close> of the code that fills blocks. \<open>ClientPool\<close>: the pools of the clients, which satisfy
    the same contracts. \<open>MemPools\<close>: \<open>MemoryPool.cpp\<close>, contract \<open>fixed_pool\<close>.
  \<^item> \<open>Iocp\<close>: \<open>IocpService.*\<close>. \<open>Packet\<close>: \<open>PacketReading\<close>, \<open>DataCopy\<close>, the packet loop of the server.
  \<^item> \<open>Vo\<close>: \<open>Vo.*\<close>. \<open>Dao\<close>: \<open>Dao.cpp\<close>. \<open>FileSvc\<close>: \<open>FileService.cpp\<close>.
  \<^item> \<open>Session\<close>, \<open>Handlers\<close>: \<open>BusinessService.*\<close>, the state with its invariant \<open>world_ok\<close> and its
    abstract view \<open>chat_of\<close>, and one definition per handler. \<open>Correct\<close>: every handler keeps the
    invariant and makes one of the abstract moves.
  \<^item> \<open>Server\<close>: the threads of \<open>Server.cpp\<close>. \<open>Reach\<close>: their steps in any order keep \<open>server_ok\<close>.
  \<^item> \<open>Client\<close>, \<open>ClientCorrect\<close>: \<open>Client.cpp\<close>, its network threads, menus and file transfer, and the
    contract \<open>packet_client\<close> of a client's packet loop. \<open>BClient\<close>, \<open>BotCorrect\<close>: \<open>BClient.cpp\<close>.
  \<^item> \<open>Demo\<close>: a concrete state. \<open>Accounts\<close>, \<open>Rooms\<close>: what the handlers do. \<open>Faults\<close>: what happens
    outside the bounds.
  \<^item> \<open>Tasks\<close>, \<open>Cut\<close>: the handlers cut at their locks, schedules of such threads, and the contract
    \<open>protocol\<close> of an assertion that every piece keeps. \<open>Logins\<close>: many logins at once. \<open>Races\<close>: what goes wrong in
    between. \<open>Interleave\<close>, \<open>Mixed\<close>: the assertion for any mixture of handlers, and that those that change
    sessions keep it. \<open>Quiet\<close>: the handlers that change none. \<open>Requests\<close>: any mixture of requests.
  \<^item> \<open>Schema\<close>: the tables of \<open>chatTable.sql\<close>, their constraints \<open>schema_ok\<close>, and what each statement of
    \<open>Dao.cpp\<close> does to them. \<open>Durable\<close>: a condition that every statement keeps is kept by the whole server
    (contract \<open>db_invariant\<close>). \<open>Ledger\<close>, \<open>Friends\<close>: the handlers of accounts, chat lines and friends on the
    tables.
  \<^item> \<open>Ranking\<close>: \<open>RankVo.*\<close>, \<open>Redis.*\<close>. \<open>Startup\<close>: the constructors of \<open>Socket.cpp\<close>, \<open>FileService.cpp\<close> and
    \<open>Dao.cpp\<close>, and how the \<open>main\<close> functions start. \<open>EndToEnd\<close>: clients and server together. This theory: the server as a whole.

  \<^bold>\<open>What is shown.\<close> Of the server: the session state and the memory stay consistent in every
  reachable state, each request makes its abstract move (\<open>dispatch_refines\<close>), packets become jobs in
  order, and each kind of request has its outcome. Requests that run at the same time, interleaved at
  the locks of their handlers in any order, all end and leave the state consistent (\<open>mixed_handlers\<close>), as long as no
  two of them are for one connection and nobody enters a room that another leaves; where they do, a
  session can outlive its connection (\<open>ghost_session\<close>) and a handler can lose its room
  (\<open>room_vanishes\<close>). Whatever the SQL server is, the handlers do what they should with its answers; on the tables of the schema,
  whose constraints every run keeps (\<open>reachable_tables\<close>), an account that is made logs in
  (\<open>account_lifecycle\<close>) and a friend comes and goes (\<open>friend_comes_and_goes\<close>). Of a client: whatever the server sends is shown, in
  order, and the memory comes back. Of the bots: none is lost. Between them: a text, a request, a file
  that one side sends is what the other side gets. The other theorems show where this ends: the replies
  of the server are never sent, because no thread calls \<open>Sendwork\<close>; texts, names and passwords that the
  sender accepts and the receiver has no room for; packets of size zero or cut in two; an orderly close; files of two clients at the same time;
  ids that the database takes for one and \<open>idSet\<close> for two; errors of the database that a handler takes for
  success; a friend followed under the wrong key; three of the experimental pools.

  \<^bold>\<open>Bounds.\<close> A text fits a block of the server up to \<open>MAX_TEXT\<close> = 1003 bytes (1024 less eleven of the
  header and terminator and ten that \<open>SendToOneMsg\<close> copies too many), a block of a client up to 4075
  (\<open>length msg + 21 \<le> cl_BLOCK_SIZE\<close>); a receive has at most 4096 bytes. \<open>request_ok\<close> bounds the
  arguments of a request by the arrays of its handler: texts below 512 bytes, names below 20, passwords
  below 10. \<open>event_ok\<close> lets completions report whole packets. A stack pool has at most 2^31 blocks, the
  range of the \<open>int\<close> it stores. No handler has more than nine pieces, so a schedule that gives each thread
  nine turns is long enough. No definition uses fuel.

  \<^bold>\<open>Not modelled.\<close>
  \<^item> In \<open>Server\<close>, \<open>Client\<close> and \<open>BClient\<close> a turn of a thread is one step. For a turn of \<open>RecvThread\<close> this is
    harmless, as it owns its structure. The handlers of a turn of \<open>WorkThread\<close> are cut at their locks in
    \<open>Cut\<close>; the mixtures of \<open>Requests\<close> leave out \<open>FriendGo\<close>, whose wrong key makes it fail, files and bans. A read
    of a map without its lock, a data race in C++, counts as one undisturbed read, and so does taking the
    datagrams of a file.
  \<^item> Completion ports, the opening of the sockets of \<open>BClient.cpp\<close>, the allocation of ODBC handles, what the
    \<open>main\<close> functions do after their threads have ended, destructors of singletons: calls of Windows only.
  \<^item> Of \<open>chatTable.sql\<close> the table \<open>daily\<close>, the partitions and the index: no statement uses them.
  \<^item> Prompts, colours and the server's console output. The contents of the blocks of \<open>MemoryPool.cpp\<close>.
\<close>

section \<open>The server as a whole\<close>


lemma demo_accepts:
  obtains p where "do_event demo_cfg (Accept 5 ''10.0.0.5'') demo_start = Inr p"
    "reachable demo_cfg demo_start event_ok p" "\<not> IsSocketDead 5 (srv p)"
    "sends (wire (net_of (srv p))) = [(5, greeting)]" "pending (net_of (srv p)) \<noteq> {}"
proof -
  have w: "world_ok (srv demo_start)" using demo_start_ok by (simp add: server_ok_def)
  obtain p where p: "main_accept demo_cfg 5 ''10.0.0.5'' demo_start = Inr p"
    "sends (wire (net_of (srv p))) = sends (wire (net_of (srv demo_start))) @ [(5, greeting)]"
    using accept_ok [OF w, of demo_cfg 5 "''10.0.0.5''"] unfolding greeting_def by metis
  have "liveSocket (srv p) = [(5, ''10.0.0.5'')]"
    using p(1) by (auto simp: main_accept_def sbind_Inr_iff Let_def InsertLiveSocket_def demo_start_def
        start_def sm_insert_def)
  moreover have "do_event demo_cfg (Accept 5 ''10.0.0.5'') demo_start = Inr p"
    using p(1) by (simp add: do_event_def)
  moreover have "sends (wire (net_of (srv demo_start))) = []"
    by (simp add: demo_start_def start_def demo_net_def start_net_def)
  moreover have "pending (net_of (srv p)) \<noteq> {}"
    using p(1) by (auto simp: main_accept_def sbind_Inr_iff Let_def SendToOneMsg_def pending_def)
  ultimately show thesis
    using that p(2) by (force simp: IsSocketDead_def event_ok_def intro: reachable.intros)
qed







definition demo_working :: "stmt list process" where
  "demo_working = (demo_process demo_world)\<lparr>localQueue := (\<lambda>w.
     [\<lparr>job_socket = 5, job_direction = ROOM_ENTER, job_nowStatus = 2, job_msg = ''den''\<rparr>])\<rparr>"

lemma demo_working_ok: "server_ok demo_working" "event_ok (Job 0) demo_working"
  using demo_process_ok
  by (simp_all add: demo_working_def server_ok_def event_ok_def job_ok_def demo_process_def
      IsSocketDead_def GetStatus_def request_ok_def nul_free_def NAME_SIZE_def Let_def)




section \<open>Messages in\<close>

text \<open>
  C11: A receive that brings several whole packets queues one job per packet, in order, for that
  connection, with status, direction and text as they were sent; the packet counter grows by their
  number, and the next receive on the connection is posted.
\<close>

theorem packets_become_jobs:
  assumes p: "server_ok p" and i: "i \<in> pending (net_of (srv p))"
    and mode: "serverMode (mp_mem (ioPool (net_of (srv p))) i) = OP_RECV"
    and ms: "ms \<noteq> []" "\<forall>m\<in>set ms. sendable m" "length (concat (map packet_of ms)) \<le> BUF_SIZE"
  shows "ok (do_event env (Completion True k i (concat (map packet_of ms)) closed) p) (\<lambda>p'.
    jobQueue p' = jobQueue p @ map (job_of k) ms \<and>
    packetCnt p' = int32_of (packetCnt p + int (length ms)) \<and>
    (\<exists>j. last (wire (net_of (srv p'))) = WSARecv k j))"
proof -
  let ?n = "net_of (srv p)" and ?bs = "concat (map packet_of ms)"
  have w: "world_ok (srv p)" using p by (simp add: server_ok_def)
  obtain R S L where o: "owns ?n R S L" using world_okD(7) [OF w] by (auto simp: net_ok_def)
  have R: "i \<in> R" using o i mode by (auto simp: owns_def op_defs)
  obtain n where n: "kernel_fill i ?bs ?n = Inr n" "owns n R S L"
      "take (length ?bs) (buffer (mp_mem (ioPool n) i)) = ?bs"
    using kernel_fill_recv [OF o R ms(3)] by blast
  let ?p = "p\<lparr>srv := (srv p)\<lparr>net_of := n\<rparr>\<rparr>"
  have get: "mp_get (ioPool n) i = Inr (mp_mem (ioPool n) i)" "serverMode (mp_mem (ioPool n) i) = OP_RECV"
    using n(2) R by (auto simp: owns_def net_inv_def intro: ok_mp_get)
  obtain n' where n': "recv_completed k i (length ?bs) ?p =
      Inr (?p\<lparr>srv := (srv ?p)\<lparr>net_of := n'\<rparr>,
             packetCnt := int32_of (packetCnt ?p + int (length ms)),
             jobQueue := jobQueue ?p @ map (job_of k) ms\<rparr>)"
    using recv_completed_ok [of ?p R S L i ms "length ?bs" k] n(2,3) R ms by auto
  have "packet_of m \<noteq> []" for m
    by (cases m) (simp add: packet_of_def flip: length_0_conv)
  then have ne: "?bs \<noteq> []" using ms(1) by (cases ms) auto
  have posts: "post (recv_completed k i (length ?bs) ?p) (\<lambda>p'. \<exists>j. last (wire (net_of (srv p'))) = WSARecv k j)"
    by (auto simp: recv_completed_def Recv_def RecvMore_def Let_def sbind_Inr_iff
        intro!: post_bindI split: option.split if_splits)
  then have "\<exists>j. last (wire n') = WSARecv k j" using n' by simp
  then show ?thesis
    unfolding do_event_def event.case n(1) sbind.simps
    using n' get ne by (simp add: RecvThread_def del: length_concat concat_eq_Nil_conv)
qed

lemma demo_receiving:
  obtains p :: "stmt list process" and i where "server_ok p" "i \<in> pending (net_of (srv p))"
    "jobQueue p = []" "serverMode (mp_mem (ioPool (net_of (srv p))) i) = OP_RECV"
proof -
  have "net_inv demo_net {} {}" using demo_net_owns by (simp add: owns_def)
  then obtain n i where n: "Recv 5 demo_net = Inr n" "wire n = wire demo_net @ [WSARecv 5 i]"
      "serverMode (mp_mem (ioPool n) i) = OP_RECV"
    using Recv_ok [of demo_net "{}" "{}" 5] by (auto simp: ok_iff)
  have w0: "wire demo_net = []" by (simp add: demo_net_def start_net_def)
  have "net_ok n" using net_ok_recv [OF demo_net_ok, of 5] n(1) by simp
  then have "server_ok (demo_process (demo_world\<lparr>net_of := n\<rparr>))"
    using world_ok_net [OF demo_world_ok] n(2) w0 by (simp add: server_ok_def demo_process_def)
  moreover have "i \<in> pending n" using n(2) w0 by (simp add: pending_def)
  ultimately show thesis using that n(3) by (simp add: demo_process_def)
qed

theorem packets_become_jobs_witness:
  "\<exists>p i p'. do_event demo_cfg (Completion True 5 i
       (concat (map packet_of [(2, 3, ''loft''), (3, -1, ''hello'')])) True) p = Inr p' \<and>
     jobQueue p' = [\<lparr>job_socket = 5, job_direction = ROOM_MAKE, job_nowStatus = 2, job_msg = ''loft''\<rparr>,
       \<lparr>job_socket = 5, job_direction = Direction_value (-1), job_nowStatus = 3, job_msg = ''hello''\<rparr>]"
proof -
  obtain p :: "stmt list process" and i where
    p: "server_ok p" "i \<in> pending (net_of (srv p))" "jobQueue p = []"
    "serverMode (mp_mem (ioPool (net_of (srv p))) i) = OP_RECV" by (rule demo_receiving)
  have "ok (do_event demo_cfg (Completion True 5 i
      (concat (map packet_of [(2, 3, ''loft''), (3, -1, ''hello'')])) True) p)
      (\<lambda>p'. jobQueue p' = map (job_of 5) [(2, 3, ''loft''), (3, -1, ''hello'')])"
    by (rule ok_mono [OF packets_become_jobs [OF p(1,2,4)]])
       (auto simp: sendable_def nul_free_def MAX_TEXT_def packet_of_def BUF_SIZE_def p(3))
  moreover have "direction_of_int 3 = ROOM_MAKE" "direction_of_int (-1) = Direction_value (-1)"
    by (simp_all add: direction_of_int_def direction_table_def)
  ultimately show ?thesis by (auto simp: ok_iff job_of_def int32_of_id)
qed

section \<open>Messages out\<close>

text \<open>
  C19: The replies of the handlers are queued and never sent: in a reachable state everything that
  was ever posted is the greeting on accept or the notice that somebody left, and no turn of any
  thread takes anything off the queue of \<open>BusinessService\<close>.
\<close>

theorem replies_never_sent:
  assumes "reachable env (start (start_net mem ios brk) u db) event_ok p"
    and "sql_ok env" and "0 < brk" and "\<forall>a. length (buffer (ios a)) = BUF_SIZE"
    and "event_ok e p" and "do_event env e p = Inr p'"
  shows "(\<forall>q\<in>set (sends (wire (net_of (srv p')))).
      snd q = wire_packet (status_int STATUS_LOGOUT) 0 (m_welcome @ loginBeforeMessage) \<or>
      (\<exists>name. snd q = wire_packet (status_int STATUS_CHATTIG) 0 (name @ m_left))) \<and>
    (\<exists>ds. sendQueue (srv p') = sendQueue (srv p) @ ds)"
proof -
  have "server_ok p" using reachable_ok [OF assms(1,2) start_ok [OF assms(3,4)]] .
  from do_event_ok [OF assms(2) this assms(5)] assms(6)
  have "server_ok p'" "\<exists>ds. sendQueue (srv p') = sendQueue (srv p) @ ds"
    by (simp_all add: step_good_def)
  then show ?thesis by (simp add: server_ok_def sent_ok_def greeting_def notice_def)
qed

theorem replies_never_sent_witness:
  "\<exists>p'. do_event demo_cfg (Accept 5 ''10.0.0.5'') demo_start = Inr p' \<and>
     sends (wire (net_of (srv p'))) \<noteq> [] \<and>
     (\<forall>q\<in>set (sends (wire (net_of (srv p')))).
        snd q = wire_packet (status_int STATUS_LOGOUT) 0 (m_welcome @ loginBeforeMessage) \<or>
        (\<exists>name. snd q = wire_packet (status_int STATUS_CHATTIG) 0 (name @ m_left)))"
proof -
  obtain p' where p': "do_event demo_cfg (Accept 5 ''10.0.0.5'') demo_start = Inr p'"
    "sends (wire (net_of (srv p'))) = [(5, greeting)]"
    by (rule demo_accepts)
  have "reachable demo_cfg (start (start_net (\<lambda>_. NUL) (\<lambda>_. zero_io) 1)
      \<lparr>udp_in = [], udp_out = [], disk = []\<rparr> []) event_ok demo_start"
    unfolding demo_start_def demo_net_def by (rule reachable.init)
  from replies_never_sent [OF this demo_sql_ok _ _ _ p'(1)] p'
  show ?thesis by (simp add: zero_io_def event_ok_def)
qed

section \<open>Disconnection and administration\<close>

text \<open>
  C27: When a connection ends and its socket could be closed, the client is gone from the abstract
  view and from the live sockets, all others are as they were, and its id is free again; when the
  socket could not be closed, nothing changes.
\<close>

theorem disconnect_cleans_up:
  assumes "world_ok s"
  shows "ok (ClientExit env closed k s) (\<lambda>s'. world_ok s' \<and>
    chat_of s' = (if closed then (chat_of s)(k := None) else chat_of s) \<and>
    (\<forall>k'. IsSocketDead k' s' \<longleftrightarrow> closed \<and> k' = k \<or> IsSocketDead k' s) \<and>
    (\<forall>i n r. closed \<and> chat_of s k = Some (i, n, r) \<longrightarrow> i \<notin> idSet s'))"
proof (rule ok_mono [OF ClientExit_ok [OF assms]])
  fix s'
  assume s': "world_ok s' \<and> chat_of s' = (if closed then (chat_of s)(k := None) else chat_of s) \<and>
    map_of (liveSocket s') = (if closed then (map_of (liveSocket s))(k := None) else map_of (liveSocket s))"
  have "i \<notin> idSet s'" if c: "closed" "chat_of s k = Some (i, n, r)" for i n r
    by (rule gone_id_free [OF assms]) (use s' c in auto)
  with s' show "world_ok s' \<and> chat_of s' = (if closed then (chat_of s)(k := None) else chat_of s) \<and>
    (\<forall>k'. IsSocketDead k' s' \<longleftrightarrow> closed \<and> k' = k \<or> IsSocketDead k' s) \<and>
    (\<forall>i n r. closed \<and> chat_of s k = Some (i, n, r) \<longrightarrow> i \<notin> idSet s')"
    by (auto simp: IsSocketDead_def)
qed

theorem disconnect_cleans_up_witness:
  "ok (ClientExit demo_cfg True 6 demo_world) (\<lambda>s'. chat_of s' 6 = None \<and> IsSocketDead 6 s' \<and>
     ''bob'' \<notin> idSet s' \<and> \<not> IsSocketDead 5 s')"
  by (rule ok_mono [OF disconnect_cleans_up [OF demo_world_ok]])
     (auto simp: demo_chat IsSocketDead_def)

text \<open>
  C28: Banning a nickname logs out the first session in the map's order that has it, and frees its
  id; the connection itself stays live and may log in again. Nobody else is touched, and a name
  nobody has changes nothing.
\<close>

theorem ban_logs_out:
  assumes "world_ok s"
  shows "ok (BanUser env nick s) (\<lambda>s'. world_ok s' \<and> liveSocket s' = liveSocket s \<and>
    (case List.find (\<lambda>(k, u). uname u = nick) (userMap s) of
       None \<Rightarrow> chat_of s' = chat_of s
     | Some (k, u) \<Rightarrow> chat_of s' = (chat_of s)(k := None) \<and> uid u \<notin> idSet s' \<and> \<not> IsSocketDead k s'))"
proof (rule ok_mono [OF BanUser_ok [OF assms]])
  fix s'
  assume s': "world_ok s' \<and> liveSocket s' = liveSocket s \<and> chat_of s' =
    (case List.find (\<lambda>(k, u). uname u = nick) (userMap s) of
       None \<Rightarrow> chat_of s | Some (k, u) \<Rightarrow> (chat_of s)(k := None))"
  have "uid u \<notin> idSet s' \<and> \<not> IsSocketDead k s'"
    if f: "List.find (\<lambda>(k, u). uname u = nick) (userMap s) = Some (k, u)" for k u
  proof -
    have k: "map_of (userMap s) k = Some u" using find_SomeD(1) [OF world_okD(1) [OF assms] f] .
    have "chat_of s' = (chat_of s)(k := None)" using s' f by simp
    then have "uid u \<notin> idSet s'"
      using gone_id_free [OF assms _ chat_of_Some [OF k]] s' by blast
    then show ?thesis using s' world_user(2) [OF assms k] by (simp add: IsSocketDead_def)
  qed
  with s' show "world_ok s' \<and> liveSocket s' = liveSocket s \<and>
    (case List.find (\<lambda>(k, u). uname u = nick) (userMap s) of
       None \<Rightarrow> chat_of s' = chat_of s
     | Some (k, u) \<Rightarrow> chat_of s' = (chat_of s)(k := None) \<and> uid u \<notin> idSet s' \<and> \<not> IsSocketDead k s')"
    by (auto split: option.splits)
qed

theorem ban_logs_out_witness:
  "ok (BanUser demo_cfg ''Bob'' demo_world) (\<lambda>s'. chat_of s' = [5 \<mapsto> (''ann'', ''Ann'', None)] \<and>
     ''bob'' \<notin> idSet s' \<and> \<not> IsSocketDead 6 s')"
  by (rule ok_mono [OF ban_logs_out [OF demo_world_ok]]) (auto simp: demo_chat fun_eq_iff)

section \<open>Memory\<close>

text \<open>
  C14: In every reachable state, every structure of an operation in flight is off the free list and
  overlaps no other; one used for a send owns a packet block, which is off the free list and
  overlaps the block of no other send; the others wait for a receive into their own buffer.
\<close>

theorem memory_ownership:
  assumes "reachable env (start (start_net mem ios brk) u db) event_ok p"
    and "sql_ok env" and "0 < brk" and "\<forall>a. length (buffer (ios a)) = BUF_SIZE"
  shows "let n = net_of (srv p); io = mp_mem (ioPool n) in \<exists>S.
    (\<forall>i\<in>pending n. i \<notin> set (mp_queue (ioPool n)) \<and>
       (case S i of
          None \<Rightarrow> serverMode (io i) = OP_RECV \<and> wsaBuf_buf (io i) = OwnBuf
        | Some a \<Rightarrow> serverMode (io i) = OP_SEND \<and> wsaBuf_buf (io i) = PoolBuf a \<and>
            a \<notin> set (poolQueue (charPool n)))) \<and>
    (\<forall>i\<in>pending n. \<forall>j\<in>pending n. i \<noteq> j \<longrightarrow>
       (i + sizeof_PER_IO_DATA \<le> j \<or> j + sizeof_PER_IO_DATA \<le> i) \<and>
       (\<forall>a b. S i = Some a \<and> S j = Some b \<longrightarrow> a + BLOCK_SIZE \<le> b \<or> b + BLOCK_SIZE \<le> a))"
proof -
  let ?n = "net_of (srv p)"
  have "net_ok ?n"
    using reachable_ok [OF assms(1,2) start_ok [OF assms(3,4)]] by (simp add: server_ok_def world_ok_def)
  then obtain R S L where o: "owns ?n R S L" by (auto simp: net_ok_def)
  then have cp: "cp_inv (charPool ?n) (ran S \<union> L)" and mp: "mp_inv (ioPool ?n) (R \<union> dom S)"
    and pend: "pending ?n = R \<union> dom S" and inj: "inj_on S (dom S)" and dis: "R \<inter> dom S = {}"
    by (simp_all add: owns_def net_inv_def)
  have one: "i \<notin> set (mp_queue (ioPool ?n)) \<and>
      (case S i of
         None \<Rightarrow> serverMode (mp_mem (ioPool ?n) i) = OP_RECV \<and> wsaBuf_buf (mp_mem (ioPool ?n) i) = OwnBuf
       | Some a \<Rightarrow> serverMode (mp_mem (ioPool ?n) i) = OP_SEND \<and>
           wsaBuf_buf (mp_mem (ioPool ?n) i) = PoolBuf a \<and> a \<notin> set (poolQueue (charPool ?n)))"
    if i: "i \<in> pending ?n" for i
  proof -
    have "i \<notin> set (mp_queue (ioPool ?n))" using mp i pend by (auto simp: mp_inv_def pool_inv_def)
    moreover have "a \<notin> set (poolQueue (charPool ?n))" if "S i = Some a" for a
      using cp ranI [of S i a, OF that] by (auto simp: cp_inv_def pool_inv_def)
    ultimately show ?thesis using o i pend by (auto simp: owns_def split: option.split)
  qed
  have two: "(i + sizeof_PER_IO_DATA \<le> j \<or> j + sizeof_PER_IO_DATA \<le> i) \<and>
      (\<forall>a b. S i = Some a \<and> S j = Some b \<longrightarrow> a + BLOCK_SIZE \<le> b \<or> b + BLOCK_SIZE \<le> a)"
    if ij: "i \<in> pending ?n" "j \<in> pending ?n" "i \<noteq> j" for i j
  proof -
    have "a + BLOCK_SIZE \<le> b \<or> b + BLOCK_SIZE \<le> a" if "S i = Some a" "S j = Some b" for a b
    proof (rule cp_inv_apart [OF cp])
      show "a \<noteq> b" using inj that ij(3) by (auto simp: inj_on_def dom_def)
    qed (use that in \<open>auto intro: ranI\<close>)
    moreover have "i + sizeof_PER_IO_DATA \<le> j \<or> j + sizeof_PER_IO_DATA \<le> i"
      using mp_inv_apart [OF mp, of i j] ij unfolding pend by simp
    ultimately show ?thesis by simp
  qed
  show ?thesis unfolding Let_def
  proof (intro exI [of _ S] conjI [of "Ball _ _"] ballI impI)
    fix i assume "i \<in> pending ?n"
    from one [OF this] show "i \<notin> set (mp_queue (ioPool ?n)) \<and>
      (case S i of
         None \<Rightarrow> serverMode (mp_mem (ioPool ?n) i) = OP_RECV \<and> wsaBuf_buf (mp_mem (ioPool ?n) i) = OwnBuf
       | Some a \<Rightarrow> serverMode (mp_mem (ioPool ?n) i) = OP_SEND \<and>
           wsaBuf_buf (mp_mem (ioPool ?n) i) = PoolBuf a \<and> a \<notin> set (poolQueue (charPool ?n)))" .
  next
    fix i j assume "i \<in> pending ?n" "j \<in> pending ?n" "i \<noteq> j"
    from two [OF this] show "(i + sizeof_PER_IO_DATA \<le> j \<or> j + sizeof_PER_IO_DATA \<le> i) \<and>
      (\<forall>a b. S i = Some a \<and> S j = Some b \<longrightarrow> a + BLOCK_SIZE \<le> b \<or> b + BLOCK_SIZE \<le> a)" .
  qed
qed

theorem memory_ownership_witness:
  "\<exists>p i. reachable demo_cfg demo_start event_ok p \<and> i \<in> pending (net_of (srv p)) \<and>
     i \<notin> set (mp_queue (ioPool (net_of (srv p))))"
proof -
  obtain p where p: "reachable demo_cfg demo_start event_ok p" "pending (net_of (srv p)) \<noteq> {}"
    by (rule demo_accepts)
  then obtain i where i: "i \<in> pending (net_of (srv p))" by blast
  have "i \<notin> set (mp_queue (ioPool (net_of (srv p))))"
    using memory_ownership [OF p(1) [unfolded demo_start_def demo_net_def] demo_sql_ok] i
    unfolding Let_def by (simp add: zero_io_def) blast
  with p(1) i show ?thesis by blast
qed

text \<open>
  When a send fails, its structure is given back and its packet is not: the block is on no free
  list, and no operation in flight refers to it any more. (The connection has no session, or its
  socket is closed already, as after the completion of its receive.)
\<close>

theorem failed_send_leaks:
  assumes p: "server_ok p" and i: "i \<in> pending (net_of (srv p))"
    and buf: "serverMode (mp_mem (ioPool (net_of (srv p))) i) = OP_SEND"
      "wsaBuf_buf (mp_mem (ioPool (net_of (srv p))) i) = PoolBuf a"
    and k: "map_of (userMap (srv p)) k = None \<or> \<not> closed"
  shows "ok (do_event env (Completion False k i [] closed) p) (\<lambda>p'.
    let n = net_of (srv p') in
    i \<notin> pending n \<and> i \<in> set (mp_queue (ioPool n)) \<and> a \<notin> set (poolQueue (charPool n)) \<and>
    (\<forall>j\<in>pending n. wsaBuf_buf (mp_mem (ioPool n) j) \<noteq> PoolBuf a))"
proof -
  let ?n = "net_of (srv p)"
  obtain R S L where o: "owns ?n R S L"
    using p by (auto simp: server_ok_def world_ok_def net_ok_def)
  have S: "S i = Some a" using o i buf by (cases "S i") (auto simp: owns_def op_defs)
  then have iS: "i \<in> R \<union> dom S" by blast
  obtain n where n: "kernel_fill i [] ?n = Inr n" "owns n R S L"
    by (rule kernel_fill_ok [OF o iS, of "[]"]) simp_all
  let ?n1 = "n\<lparr>wire := wire n @ [CloseSocket k]\<rparr>"
  have o1: "owns ?n1 R S L" using n(2) by (simp add: owns_def net_inv_def pending_def)
  obtain n' where n': "give_back i ?n1 = Inr n'" "owns n' R (S(i := None)) (insert a L)"
    by (rule failed_send_ok [OF o1 S])
  obtain s where s: "ClientExit env closed k ((srv p)\<lparr>net_of := n\<rparr>) = Inr s" "net_of s = ?n1"
    using k by (cases closed) (simp_all add: ClientExit_def Let_def)
  have q: "i \<in> set (mp_queue (ioPool n'))"
    using n'(1) by (auto simp: give_back_def MPool_Free_def ConcurrentQueue_push_def split: if_splits)
  have cp: "cp_inv (charPool n') (ran (S(i := None)) \<union> insert a L)"
    and pend: "pending n' = R \<union> dom (S(i := None))" and dis: "R \<inter> dom S = {}"
    using n'(2) o by (simp_all add: owns_def net_inv_def)
  have "i \<notin> pending n'" using pend dis S by auto
  moreover have "a \<notin> set (poolQueue (charPool n'))" using cp by (auto simp: cp_inv_def pool_inv_def)
  moreover have "wsaBuf_buf (mp_mem (ioPool n') j) \<noteq> PoolBuf a" if j: "j \<in> pending n'" for j
  proof (cases "j \<in> R")
    case True
    then show ?thesis using n'(2) by (simp add: owns_def)
  next
    case False
    then obtain b where b: "(S(i := None)) j = Some b" using j pend by auto
    have "a \<notin> ran (S(i := None))" using n'(2) by (auto simp: owns_def)
    then have "b \<noteq> a" using ranI [of "S(i := None)" j b, OF b] by blast
    then show ?thesis using n'(2) b by (auto simp: owns_def)
  qed
  ultimately show ?thesis
    using n(1) s n'(1) q by (simp add: do_event_def RecvThread_def Let_def)
qed

theorem failed_send_leaks_witness:
  "\<exists>p i a. ok (do_event demo_cfg (Completion False 7 i [] True) p) (\<lambda>p'.
     a \<notin> set (poolQueue (charPool (net_of (srv p')))) \<and> i \<in> set (mp_queue (ioPool (net_of (srv p')))))"
proof -
  have "net_inv demo_net {} {}" using demo_net_owns by (simp add: owns_def)
  then obtain n where n: "SendToOneMsg (\<lambda>_. NUL) (m_welcome @ loginBeforeMessage) 7 STATUS_LOGOUT demo_net = Inr n"
      "net_ok n" "packet_posted demo_net {} {} 7 greeting n"
    using ok_conjI [OF net_ok_one(1) [OF demo_net_ok m_welcome_ok] send_posts(1) [OF _ m_welcome_ok]]
    unfolding ok_iff greeting_def by blast
  then obtain i a mp io where i: "ioPool n = mp_set i io mp" "serverMode io = OP_SEND"
      "wsaBuf_buf io = PoolBuf a" "wire n = wire demo_net @ [WSASend 7 greeting i]"
    by (auto simp: packet_posted_def)
  let ?p = "demo_process (demo_world\<lparr>net_of := n\<rparr>)"
  have "sends (wire n) = [(7, greeting)]" and pend: "i \<in> pending n"
    using i(4) by (simp_all add: pending_def demo_net_def start_net_def)
  then have "server_ok ?p"
    using world_ok_net [OF demo_world_ok n(2)] by (simp add: server_ok_def demo_process_def sent_ok_def)
  then have "ok (do_event demo_cfg (Completion False 7 i [] True) ?p) (\<lambda>p'. let n = net_of (srv p') in
      i \<notin> pending n \<and> i \<in> set (mp_queue (ioPool n)) \<and> a \<notin> set (poolQueue (charPool n)) \<and>
      (\<forall>j\<in>pending n. wsaBuf_buf (mp_mem (ioPool n) j) \<noteq> PoolBuf a))"
    by (rule failed_send_leaks) (simp_all add: demo_process_def pend i)
  then have "ok (do_event demo_cfg (Completion False 7 i [] True) ?p) (\<lambda>p'.
      a \<notin> set (poolQueue (charPool (net_of (srv p')))) \<and>
      i \<in> set (mp_queue (ioPool (net_of (srv p')))))"
    by (rule ok_mono) (simp add: Let_def)
  then show ?thesis by blast
qed

end
